(* ===== verification/Prelude.thy ===== *)
theory Prelude
  imports Main "HOL-Library.Word"
begin

text \<open>
  Shared vocabulary of the development: the machine types of the C sources, byte buffers
  (the model of a C array of \<open>uint8_t\<close>), \<open>memcpy\<close>/\<open>memset\<close> on a buffer, and the byte-order
  codecs. A buffer is a list of bytes; \<open>get_bytes\<close> reads a range of it and \<open>put_bytes\<close>
  overwrites a range in place, as \<open>memcpy (p + off, src, n)\<close> does.

  The collections \<open>buffer_simps\<close> and \<open>word_byte_simps\<close> hold the rewrite rules that carry the
  layout proofs of the component theories.
\<close>

unbundle bit_operations_syntax

named_theorems buffer_simps \<open>rewriting of slices and in-place updates of byte buffers\<close>
named_theorems word_byte_simps \<open>bytes of machine words\<close>

section \<open>Machine types\<close>

type_synonym byte = "8 word"
type_synonym u8 = "8 word"
type_synonym u16 = "16 word"
type_synonym u32 = "32 word"
type_synonym u64 = "64 word"
type_synonym bytes = "byte list"

section \<open>Byte buffers\<close>

definition get_bytes :: "nat \<Rightarrow> nat \<Rightarrow> 'a list \<Rightarrow> 'a list" where
  "get_bytes off n xs = take n (drop off xs)"

definition put_bytes :: "nat \<Rightarrow> 'a list \<Rightarrow> 'a list \<Rightarrow> 'a list" where
  "put_bytes off ys xs = take off xs @ ys @ drop (off + length ys) xs"

definition zeros :: "nat \<Rightarrow> bytes" where
  "zeros n = replicate n 0"

definition or_bytes :: "bytes \<Rightarrow> byte" where
  "or_bytes bs = foldl (\<lambda>acc b. acc OR b) 0 bs"

text \<open>Two buffers that agree outside the range of \<open>n\<close> bytes at \<open>off\<close>.\<close>

definition agree_outside :: "nat \<Rightarrow> nat \<Rightarrow> 'a list \<Rightarrow> 'a list \<Rightarrow> bool" where
  "agree_outside off n xs ys \<longleftrightarrow>
     length xs = length ys \<and> take off xs = take off ys \<and> drop (off + n) xs = drop (off + n) ys"

section \<open>Generic lemmas on lists and options\<close>

lemma length_get [simp]: "length (get_bytes off n xs) = min n (length xs - off)"
  by (simp add: get_bytes_def)

lemma nth_get: "i < n \<Longrightarrow> off + i < length xs \<Longrightarrow> get_bytes off n xs ! i = xs ! (off + i)"
  by (simp add: get_bytes_def)

lemma length_put_bytes [simp]:
  "off + length ys \<le> length xs \<Longrightarrow> length (put_bytes off ys xs) = length xs"
  by (simp add: put_bytes_def)

lemma get_put_same [buffer_simps]:
  "off + length ys \<le> length xs \<Longrightarrow> n = length ys \<Longrightarrow> get_bytes off n (put_bytes off ys xs) = ys"
  by (simp add: get_bytes_def put_bytes_def)

lemma get_put_before [buffer_simps]:
  "o' + n \<le> off \<Longrightarrow> off + length ys \<le> length xs \<Longrightarrow>
   get_bytes o' n (put_bytes off ys xs) = get_bytes o' n xs"
  by (simp add: get_bytes_def put_bytes_def drop_take)

lemma get_put_after [buffer_simps]:
  "off + length ys \<le> o' \<Longrightarrow> off + length ys \<le> length xs \<Longrightarrow>
   get_bytes o' n (put_bytes off ys xs) = get_bytes o' n xs"
  by (simp add: get_bytes_def put_bytes_def)

lemma get_put_inside:
  assumes "off \<le> o'" "o' + n \<le> off + length ys" "off + length ys \<le> length xs"
  shows "get_bytes o' n (put_bytes off ys xs) = get_bytes (o' - off) n ys"
  using assms by (simp add: get_bytes_def put_bytes_def)

lemma put_bytes_same [buffer_simps]:
  "off + length ys \<le> length xs \<Longrightarrow> length ys = length zs \<Longrightarrow>
   put_bytes off ys (put_bytes off zs xs) = put_bytes off ys xs"
  by (simp add: put_bytes_def)

lemma put_get_id:
  "off + n \<le> length xs \<Longrightarrow> put_bytes off (get_bytes off n xs) xs = xs"
  by (simp add: put_bytes_def get_bytes_def) (metis add.commute append_take_drop_id drop_drop)

lemma put_bytes_eqD:
  assumes "put_bytes off ys xs = put_bytes off ys' xs'" "length ys = length ys'"
    "off + length ys \<le> length xs" "length xs = length xs'"
  shows "ys = ys' \<and> take off xs = take off xs' \<and>
         drop (off + length ys) xs = drop (off + length ys) xs'"
  using assms by (simp add: put_bytes_def)

lemma get_append_left [buffer_simps]:
  "off + n \<le> length xs \<Longrightarrow> get_bytes off n (xs @ ys) = get_bytes off n xs"
  by (simp add: get_bytes_def)

lemma get_append_right [buffer_simps]:
  "length xs \<le> off \<Longrightarrow> get_bytes off n (xs @ ys) = get_bytes (off - length xs) n ys"
  by (simp add: get_bytes_def)

lemma get_whole [buffer_simps]: "length xs \<le> n \<Longrightarrow> get_bytes 0 n xs = xs"
  by (simp add: get_bytes_def)

lemma get_get: "o' + n' \<le> n \<Longrightarrow> get_bytes o' n' (get_bytes off n xs) = get_bytes (off + o') n' xs"
  by (simp add: get_bytes_def drop_take add.commute min_def)

lemma get_eq_take_drop: "drop off xs = get_bytes off (length xs - off) xs"
  by (simp add: get_bytes_def)

lemma length_zeros [simp]: "length (zeros n) = n"
  by (simp add: zeros_def)

lemma get_zeros [buffer_simps]: "off + n \<le> m \<Longrightarrow> get_bytes off n (zeros m) = zeros n"
  by (simp add: get_bytes_def zeros_def)

lemma set_zeros: "set (zeros n) \<subseteq> {0}"
  by (auto simp: zeros_def)

lemma or_bytes_append: "foldl (\<lambda>acc b. acc OR b) a (bs :: bytes) = a OR or_bytes bs"
proof (induction bs arbitrary: a)
  case Nil
  then show ?case by (simp add: or_bytes_def)
next
  case (Cons b bs)
  have "or_bytes (b # bs) = b OR or_bytes bs"
    using Cons.IH [of "0 OR b"] by (simp add: or_bytes_def)
  then show ?case
    using Cons.IH [of "a OR b"] by (simp add: or.assoc)
qed

lemma or_bytes_Cons: "or_bytes (b # bs) = b OR or_bytes bs"
  using or_bytes_append [of b bs] by (simp add: or_bytes_def)

lemma word_or_zero_iff: "(a OR b = (0 :: 'a::len word)) \<longleftrightarrow> a = 0 \<and> b = 0"
  by (auto simp: bit_eq_iff bit_or_iff)

text \<open>The accumulate-by-OR zero tests of the sources compute "every byte is zero".\<close>

lemma or_bytes_zero_iff [simp]: "or_bytes bs = 0 \<longleftrightarrow> (\<forall>b\<in>set bs. b = 0)"
  by (induction bs) (auto simp: or_bytes_Cons word_or_zero_iff, simp add: or_bytes_def)

lemma all_zero_eq_zeros: "(\<forall>b\<in>set bs. b = 0) \<longleftrightarrow> bs = zeros (length bs)"
  by (simp add: zeros_def list_eq_iff_nth_eq all_set_conv_all_nth)

lemma agree_outside_sym: "agree_outside off n xs ys \<Longrightarrow> agree_outside off n ys xs"
  by (auto simp: agree_outside_def)

lemma agree_outside_get:
  assumes "agree_outside off n xs ys" "o' + m \<le> off \<or> off + n \<le> o'"
  shows "get_bytes o' m xs = get_bytes o' m ys"
proof (cases "o' + m \<le> off")
  case True
  have eq: "get_bytes o' m zs = drop o' (take (o' + m) (take off zs))" for zs :: "'a list"
    using True by (simp add: get_bytes_def take_drop min_def add.commute)
  show ?thesis using assms(1) unfolding agree_outside_def eq by presburger
next
  case False
  then have le: "off + n \<le> o'" using assms(2) by simp
  have eq: "get_bytes o' m zs = take m (drop (o' - (off + n)) (drop (off + n) zs))" for zs :: "'a list"
    using le by (simp add: get_bytes_def)
  show ?thesis using assms(1) unfolding agree_outside_def eq by presburger
qed

section \<open>Buffers byte by byte\<close>

lemma nth_put:
  assumes "off + length ys \<le> length xs" "i < length xs"
  shows "put_bytes off ys xs ! i = (if off \<le> i \<and> i < off + length ys then ys ! (i - off) else xs ! i)"
  using assms by (auto simp: put_bytes_def nth_append min_def)

lemma agree_outside_nth:
  "agree_outside off n xs ys \<longleftrightarrow>
     length xs = length ys \<and> (\<forall>i<length xs. \<not> (off \<le> i \<and> i < off + n) \<longrightarrow> xs ! i = ys ! i)"
proof (intro iffI conjI allI impI)
  assume a: "agree_outside off n xs ys"
  then show l: "length xs = length ys" by (simp add: agree_outside_def)
  fix i assume i: "i < length xs" "\<not> (off \<le> i \<and> i < off + n)"
  show "xs ! i = ys ! i"
  proof (cases "i < off")
    case True
    then have "take off xs ! i = take off ys ! i" using a by (simp add: agree_outside_def)
    then show ?thesis using True by simp
  next
    case False
    then have "drop (off + n) xs ! (i - (off + n)) = drop (off + n) ys ! (i - (off + n))"
      using a by (simp add: agree_outside_def)
    then show ?thesis using False i l by simp
  qed
next
  assume "length xs = length ys \<and> (\<forall>i<length xs. \<not> (off \<le> i \<and> i < off + n) \<longrightarrow> xs ! i = ys ! i)"
  then show "agree_outside off n xs ys"
    by (auto simp: agree_outside_def list_eq_iff_nth_eq)
qed

lemma agree_outside_put:
  assumes "agree_outside o' n x y" "off + length zs \<le> length x"
  shows "agree_outside o' n (put_bytes off zs x) (put_bytes off zs y)"
  using assms by (auto simp: agree_outside_nth nth_put)

lemma agree_outside_put_same:
  assumes "agree_outside o' n x y" "off + length zs \<le> length x" "off \<le> o'" "o' + n \<le> off + length zs"
  shows "put_bytes off zs x = put_bytes off zs y"
  using assms by (auto simp: agree_outside_nth nth_put list_eq_iff_nth_eq)

lemma put_get_inject:
  assumes "put_bytes off zs x = put_bytes off zs y" "get_bytes off (length zs) x = get_bytes off (length zs) y"
    "length x = length y" "off + length zs \<le> length x"
  shows "x = y"
  using assms by (metis length_get min.absorb1 le_add_diff_inverse2 put_bytes_same put_get_id
      add_le_imp_le_diff add.commute)

end
