(* ===== verification/Byte_Codec.thy ===== *)
theory Byte_Codec
  imports Prelude
begin

text \<open>
  Byte order and the code the sources call but do not contain.

  \<open>le_word\<close>/\<open>le_bytes\<close> are the little-endian reading and writing of a machine word. The
  locale \<open>byte_codec\<close> is the interface the on-disk structures rely on: a fixed-width
  encoder and decoder that invert each other. It is interpreted on the byte loops
  \<open>get_u16\<close>, \<open>get_u64\<close>, \<open>put_u16\<close>, \<open>put_u64\<close> of \<open>src/src/locator.c\<close>.

  \<open>ext_lib\<close> collects the functions of the \<open>infiltratr-common\<close> submodule and of the
  cryptographic providers that \<open>include/infilfs/endian.h\<close>, \<open>include/infilfs/utf8.h\<close> and
  \<open>src/src/checksum.c\<close> call. A \<open>sha256_provider\<close> is the digest library the build selects,
  with the results of its calls. They are parameters of every definition that uses them;
  \<open>ext_ok\<close> states what is documented of them (the conversions are fixed-width, invert each
  other and map zero to zero).
\<close>

section \<open>Little-endian words\<close>

fun le_word :: "bytes \<Rightarrow> 'w::len word" where
  "le_word [] = 0"
| "le_word (b # bs) = ucast b OR push_bit 8 (le_word bs)"

definition le_bytes :: "nat \<Rightarrow> 'w::len word \<Rightarrow> bytes" where
  "le_bytes k w = map (\<lambda>i. ucast (drop_bit (8 * i) w)) [0..<k]"

text \<open>The byte loops of \<open>src/src/locator.c\<close>.\<close>

definition get_u16 :: "bytes \<Rightarrow> u16" where
  "get_u16 p = ucast (p ! 0) OR push_bit 8 (ucast (p ! 1))"

definition get_u64 :: "bytes \<Rightarrow> u64" where
  "get_u64 p = foldl (\<lambda>value i. value OR push_bit (i * 8) (ucast (p ! i))) 0 [0..<8]"

definition put_u16 :: "u16 \<Rightarrow> bytes" where
  "put_u16 value = [ucast value, ucast (drop_bit 8 value)]"

definition put_u64 :: "u64 \<Rightarrow> bytes" where
  "put_u64 value = map (\<lambda>i. ucast (drop_bit (i * 8) value)) [0..<8]"

section \<open>External code\<close>

datatype sha256_provider =
    BCrypt_Provider int "bytes \<Rightarrow> int \<times> bytes"
  | OpenSSL_Provider "bytes \<Rightarrow> int \<times> nat \<times> bytes"
  | No_Provider

text \<open>
  \<open>BCrypt_Provider\<close> holds the status of \<open>BCryptOpenAlgorithmProvider\<close> and, per message, the
  status and the output buffer of \<open>BCryptHash\<close>; \<open>OpenSSL_Provider\<close> holds, per message, the
  return value, the produced size and the output buffer of \<open>EVP_Digest\<close>.
\<close>

record ext_lib =
  ld16 :: "bytes \<Rightarrow> u16"
  ld32 :: "bytes \<Rightarrow> u32"
  ld64 :: "bytes \<Rightarrow> u64"
  st16 :: "u16 \<Rightarrow> bytes"
  st32 :: "u32 \<Rightarrow> bytes"
  st64 :: "u64 \<Rightarrow> bytes"
  be_ld32 :: "bytes \<Rightarrow> u32"
  be_st32 :: "u32 \<Rightarrow> bytes"
  be_st64 :: "u64 \<Rightarrow> bytes"
  utf8_validate :: "bytes \<Rightarrow> bool"
  sha256_lib :: sha256_provider

section \<open>The codec interface\<close>

locale byte_codec =
  fixes ld :: "bytes \<Rightarrow> 'w::len word"
    and st :: "'w word \<Rightarrow> bytes"
    and width :: nat
  assumes st_width: "length (st v) = width"
    and ld_st: "ld (st v) = v"
    and st_ld: "length bs = width \<Longrightarrow> st (ld bs) = bs"
    and ld_zeros: "ld (zeros width) = 0"
begin

lemma ld_inject: "length a = width \<Longrightarrow> length b = width \<Longrightarrow> ld a = ld b \<longleftrightarrow> a = b"
  by (metis st_ld)

lemma st_inject: "st v = st w \<longleftrightarrow> v = w"
  by (metis ld_st)

lemma field_after_store:
  "off + width \<le> length blk \<Longrightarrow> ld (get_bytes off width (put_bytes off (st v) blk)) = v"
  by (simp add: get_put_same st_width ld_st)

lemma st_zero: "st 0 = zeros width"
  using st_ld [of "zeros width"] ld_zeros by simp

end

definition ext_ok :: "ext_lib \<Rightarrow> bool" where
  "ext_ok E \<longleftrightarrow> byte_codec (ld16 E) (st16 E) 2 \<and> byte_codec (ld32 E) (st32 E) 4 \<and>
                byte_codec (ld64 E) (st64 E) 8"

section \<open>Lemmas\<close>

lemma bit_le_word:
  "bit (le_word bs :: 'w::len word) n \<longleftrightarrow>
     n < LENGTH('w) \<and> n div 8 < length bs \<and> bit (bs ! (n div 8)) (n mod 8)"
proof (induction bs arbitrary: n)
  case Nil
  then show ?case by simp
next
  case (Cons b bs)
  show ?case
  proof (cases "n < 8")
    case True
    then show ?thesis
      by (auto simp: bit_or_iff bit_push_bit_iff bit_ucast_iff)
  next
    case False
    then have d: "n div 8 = Suc ((n - 8) div 8)" and m: "(n - 8) mod 8 = n mod 8"
      by (simp_all add: le_div_geq le_mod_geq)
    have "\<not> bit b n" using False bit_imp_le_length [of b n] by auto
    then show ?thesis
      using False Cons.IH [of "n - 8"]
      by (auto simp: bit_or_iff bit_push_bit_iff bit_ucast_iff d m bit_imp_le_length)
  qed
qed

lemma bit_nth_le_bytes:
  "i < k \<Longrightarrow> bit (le_bytes k w ! i) j \<longleftrightarrow> j < 8 \<and> bit w (8 * i + j)"
  by (auto simp: le_bytes_def bit_ucast_iff bit_drop_bit_eq)

lemma length_le_bytes [simp]: "length (le_bytes k w) = k"
  by (simp add: le_bytes_def)

lemma le_word_le_bytes: "LENGTH('w) \<le> 8 * k \<Longrightarrow> le_word (le_bytes k w) = (w :: 'w::len word)"
  by (rule bit_word_eqI) (auto simp: bit_le_word bit_nth_le_bytes mult_div_mod_eq)

lemma le_bytes_le_word:
  assumes "length bs = k" "8 * k \<le> LENGTH('w)"
  shows "le_bytes k (le_word bs :: 'w::len word) = bs"
proof (rule nth_equalityI)
  show "length (le_bytes k (le_word bs :: 'w word)) = length bs" using assms by simp
  fix i assume "i < length (le_bytes k (le_word bs :: 'w word))"
  then have i: "i < k" by simp
  show "le_bytes k (le_word bs :: 'w word) ! i = bs ! i"
  proof (rule bit_word_eqI)
    fix j :: nat assume "j < LENGTH(8)"
    then have "j < 8" by simp
    then show "bit (le_bytes k (le_word bs :: 'w word) ! i) j = bit (bs ! i) j"
      using i assms by (simp add: bit_nth_le_bytes bit_le_word)
  qed
qed

lemma le_word_zeros [simp]: "le_word (zeros k) = 0"
  by (induction k) (simp_all add: zeros_def)

lemma byte_codec_le:
  "LENGTH('w) = 8 * k \<Longrightarrow> byte_codec (le_word :: bytes \<Rightarrow> 'w::len word) (le_bytes k) k"
  by unfold_locales (simp_all add: le_word_le_bytes le_bytes_le_word)

lemma put_u16_le: "put_u16 = le_bytes 2"
  by (simp add: fun_eq_iff put_u16_def le_bytes_def numeral_2_eq_2)

lemma put_u64_le: "put_u64 = le_bytes 8"
  by (simp add: fun_eq_iff put_u64_def le_bytes_def mult.commute)

lemma get_u16_le: "length p = 2 \<Longrightarrow> get_u16 p = le_word p"
  by (auto simp: get_u16_def numeral_2_eq_2 length_Suc_conv)

lemma get_u64_le: "length p = 8 \<Longrightarrow> get_u64 p = le_word p"
  by (auto simp: get_u64_def numeral_eq_Suc length_Suc_conv push_bit_or or.assoc)

interpretation loc16: byte_codec get_u16 put_u16 2
proof
  show "length (put_u16 v) = 2" for v by (simp add: put_u16_le)
  show "get_u16 (put_u16 v) = v" for v by (simp add: put_u16_le get_u16_le le_word_le_bytes)
  show "length bs = 2 \<Longrightarrow> put_u16 (get_u16 bs) = bs" for bs
    by (simp add: put_u16_le get_u16_le le_bytes_le_word)
  show "get_u16 (zeros 2) = 0" by (simp add: get_u16_le)
qed

interpretation loc64: byte_codec get_u64 put_u64 8
proof
  show "length (put_u64 v) = 8" for v by (simp add: put_u64_le)
  show "get_u64 (put_u64 v) = v" for v by (simp add: put_u64_le get_u64_le le_word_le_bytes)
  show "length bs = 8 \<Longrightarrow> put_u64 (get_u64 bs) = bs" for bs
    by (simp add: put_u64_le get_u64_le le_bytes_le_word)
  show "get_u64 (zeros 8) = 0" by (simp add: get_u64_le)
qed

lemma ext_okD:
  assumes "ext_ok E"
  shows "byte_codec (ld16 E) (st16 E) 2" "byte_codec (ld32 E) (st32 E) 4"
    "byte_codec (ld64 E) (st64 E) 8"
  using assms by (simp_all add: ext_ok_def)

section \<open>A concrete library\<close>

text \<open>
  Little- and big-endian byte loops, an ASCII-only name check and no accelerated digest: one
  instance of the external functions, at which the properties are exercised.
\<close>

definition le_lib :: ext_lib where
  "le_lib = \<lparr> ld16 = le_word, ld32 = le_word, ld64 = le_word,
     st16 = le_bytes 2, st32 = le_bytes 4, st64 = le_bytes 8,
     be_ld32 = (\<lambda>bs. le_word (rev bs)), be_st32 = (\<lambda>v. rev (le_bytes 4 v)),
     be_st64 = (\<lambda>v. rev (le_bytes 8 v)),
     utf8_validate = list_all (\<lambda>b. 0 < b \<and> b < 0x80),
     sha256_lib = No_Provider \<rparr>"

lemma ext_ok_le_lib [simp]: "ext_ok le_lib"
  by (simp add: ext_ok_def le_lib_def byte_codec_le)

end
