(* ===== verification/Format.thy ===== *)
theory Format
  imports Byte_Codec
begin

text \<open>
  The on-disk format of \<open>include/infilfs/format.h\<close> and the result codes of
  \<open>include/infilfs/status.h\<close>. Every packed structure is a record of its fields in host order,
  with \<open>..._of\<close> reading it from its packed bytes and \<open>..._bytes\<close> laying it out. The locale
  \<open>struct_codec\<close> states what the components rely on (size and both round trips, on records
  whose byte arrays have the declared lengths), and is interpreted for every structure.
\<close>

section \<open>Result codes\<close>

datatype infs_status =
    INFS_STATUS_OK | INFS_STATUS_ERROR | INFS_STATUS_INVALID_ARGUMENT | INFS_STATUS_IO_ERROR
  | INFS_STATUS_CORRUPT | INFS_STATUS_READ_ONLY | INFS_STATUS_NO_SPACE | INFS_STATUS_NOT_FOUND
  | INFS_STATUS_ALREADY_EXISTS | INFS_STATUS_NOT_DIRECTORY | INFS_STATUS_IS_DIRECTORY
  | INFS_STATUS_NOT_EMPTY | INFS_STATUS_NAME_TOO_LONG | INFS_STATUS_FILE_TOO_LARGE
  | INFS_STATUS_OVERFLOW | INFS_STATUS_LOOP_DETECTED | INFS_STATUS_NOT_SUPPORTED
  | INFS_STATUS_NO_MEMORY | INFS_STATUS_INTERRUPTED | INFS_STATUS_BUSY

fun infs_status_code :: "infs_status \<Rightarrow> int" where
  "infs_status_code INFS_STATUS_OK = 0"
| "infs_status_code INFS_STATUS_ERROR = -1"
| "infs_status_code INFS_STATUS_INVALID_ARGUMENT = -2"
| "infs_status_code INFS_STATUS_IO_ERROR = -3"
| "infs_status_code INFS_STATUS_CORRUPT = -4"
| "infs_status_code INFS_STATUS_READ_ONLY = -5"
| "infs_status_code INFS_STATUS_NO_SPACE = -6"
| "infs_status_code INFS_STATUS_NOT_FOUND = -7"
| "infs_status_code INFS_STATUS_ALREADY_EXISTS = -8"
| "infs_status_code INFS_STATUS_NOT_DIRECTORY = -9"
| "infs_status_code INFS_STATUS_IS_DIRECTORY = -10"
| "infs_status_code INFS_STATUS_NOT_EMPTY = -11"
| "infs_status_code INFS_STATUS_NAME_TOO_LONG = -12"
| "infs_status_code INFS_STATUS_FILE_TOO_LARGE = -13"
| "infs_status_code INFS_STATUS_OVERFLOW = -14"
| "infs_status_code INFS_STATUS_LOOP_DETECTED = -15"
| "infs_status_code INFS_STATUS_NOT_SUPPORTED = -16"
| "infs_status_code INFS_STATUS_NO_MEMORY = -17"
| "infs_status_code INFS_STATUS_INTERRUPTED = -18"
| "infs_status_code INFS_STATUS_BUSY = -19"

definition infs_status_string :: "int \<Rightarrow> string" where
  "infs_status_string status =
     (if status = infs_status_code INFS_STATUS_OK then ''success''
      else
      if status = infs_status_code INFS_STATUS_ERROR then ''unspecified filesystem error''
      else
      if status = infs_status_code INFS_STATUS_INVALID_ARGUMENT then ''invalid argument''
      else
      if status = infs_status_code INFS_STATUS_IO_ERROR then ''storage input/output error''
      else
      if status = infs_status_code INFS_STATUS_CORRUPT then ''filesystem corruption detected''
      else
      if status = infs_status_code INFS_STATUS_READ_ONLY then ''filesystem is read-only''
      else
      if status = infs_status_code INFS_STATUS_NO_SPACE then ''no space available''
      else
      if status = infs_status_code INFS_STATUS_NOT_FOUND then ''object not found''
      else
      if status = infs_status_code INFS_STATUS_ALREADY_EXISTS then ''object already exists''
      else
      if status = infs_status_code INFS_STATUS_NOT_DIRECTORY then ''object is not a directory''
      else
      if status = infs_status_code INFS_STATUS_IS_DIRECTORY then ''object is a directory''
      else
      if status = infs_status_code INFS_STATUS_NOT_EMPTY then ''directory is not empty''
      else
      if status = infs_status_code INFS_STATUS_NAME_TOO_LONG then ''name is too long''
      else
      if status = infs_status_code INFS_STATUS_FILE_TOO_LARGE then ''file is too large''
      else
      if status = infs_status_code INFS_STATUS_OVERFLOW then ''numeric overflow''
      else
      if status = infs_status_code INFS_STATUS_LOOP_DETECTED then ''metadata loop detected''
      else
      if status = infs_status_code INFS_STATUS_NOT_SUPPORTED then ''operation or format is not supported''
      else
      if status = infs_status_code INFS_STATUS_NO_MEMORY then ''not enough memory''
      else
      if status = infs_status_code INFS_STATUS_INTERRUPTED then ''operation was interrupted''
      else
      if status = infs_status_code INFS_STATUS_BUSY then ''storage target is busy''
      else ''unknown filesystem status'')"

text \<open>A fallible operation with an output: the failure status, or the output.\<close>

type_synonym 'a infs_result = "infs_status + 'a"

section \<open>Constants\<close>

definition ascii :: "string \<Rightarrow> bytes" where
  "ascii s = map of_char s"

abbreviation (input) INFS_BLOCK_SIZE :: nat where "INFS_BLOCK_SIZE \<equiv> 4096"

definition INFS_MAGIC :: bytes where "INFS_MAGIC = ascii ''INFS2026''"
definition INFS_OBJECT_MAGIC :: bytes where "INFS_OBJECT_MAGIC = ascii ''INFOBJ01''"
definition INFS_DIRECTORY_PAGE_MAGIC :: bytes where
  "INFS_DIRECTORY_PAGE_MAGIC = ascii ''INFSDP01''"
definition INFS_DIRECTORY_BRANCH_PAGE_MAGIC :: bytes where
  "INFS_DIRECTORY_BRANCH_PAGE_MAGIC = ascii ''INFSDB01''"
definition INFS_INDEX_PAGE_MAGIC :: bytes where
  "INFS_INDEX_PAGE_MAGIC = ascii ''INFSIP01''"
definition INFS_INDEX_BRANCH_PAGE_MAGIC :: bytes where
  "INFS_INDEX_BRANCH_PAGE_MAGIC = ascii ''INFSIB01''"
definition INFS_EXTENT_PAGE_MAGIC :: bytes where
  "INFS_EXTENT_PAGE_MAGIC = ascii ''INFSEP01''"
definition INFS_EXTENT_INDEX_PAGE_MAGIC :: bytes where
  "INFS_EXTENT_INDEX_PAGE_MAGIC = ascii ''INFSEI01''"
definition INFS_SNAPSHOT_PAGE_MAGIC :: bytes where
  "INFS_SNAPSHOT_PAGE_MAGIC = ascii ''INFSSP01''"
definition INFS_SECURITY_ACE_PAGE_MAGIC :: bytes where
  "INFS_SECURITY_ACE_PAGE_MAGIC = ascii ''INFSAC01''"
definition INFS_ALLOCATION_BRANCH_PAGE_MAGIC :: bytes where
  "INFS_ALLOCATION_BRANCH_PAGE_MAGIC = ascii ''INFSAB01''"
definition INFS_ALLOCATION_LEAF_PAGE_MAGIC :: bytes where
  "INFS_ALLOCATION_LEAF_PAGE_MAGIC = ascii ''INFSAL01''"

abbreviation (input) INFS_FORMAT_MAJOR :: u16 where "INFS_FORMAT_MAJOR \<equiv> 0"
abbreviation (input) INFS_FORMAT_MINOR :: u16 where "INFS_FORMAT_MINOR \<equiv> 19"
abbreviation (input) INFS_LOCATOR_FORMAT_MINOR :: u16 where "INFS_LOCATOR_FORMAT_MINOR \<equiv> 19"
abbreviation (input) INFS_BLOCK_SHIFT :: u16 where "INFS_BLOCK_SHIFT \<equiv> 12"
abbreviation (input) INFS_CHECKSUM_CRC64_ECMA :: u32 where "INFS_CHECKSUM_CRC64_ECMA \<equiv> 1"
abbreviation (input) INFS_LABEL_MAX :: nat where "INFS_LABEL_MAX \<equiv> 64"
abbreviation (input) INFS_NAME_MAX :: nat where "INFS_NAME_MAX \<equiv> 1023"

abbreviation (input) INFS_OBJECT_DIRECTORY :: u16 where "INFS_OBJECT_DIRECTORY \<equiv> 1"
abbreviation (input) INFS_OBJECT_FILE :: u16 where "INFS_OBJECT_FILE \<equiv> 2"
abbreviation (input) INFS_OBJECT_INDEX :: u16 where "INFS_OBJECT_INDEX \<equiv> 3"
abbreviation (input) INFS_OBJECT_CHECKSUM :: u16 where "INFS_OBJECT_CHECKSUM \<equiv> 4"
abbreviation (input) INFS_OBJECT_SYMLINK :: u16 where "INFS_OBJECT_SYMLINK \<equiv> 5"
abbreviation (input) INFS_OBJECT_SNAPSHOT_CATALOG :: u16 where "INFS_OBJECT_SNAPSHOT_CATALOG \<equiv> 6"
abbreviation (input) INFS_OBJECT_PRINCIPAL :: u16 where "INFS_OBJECT_PRINCIPAL \<equiv> 7"
abbreviation (input) INFS_OBJECT_SECURITY :: u16 where "INFS_OBJECT_SECURITY \<equiv> 8"
abbreviation (input) INFS_OBJECT_SECURITY_BINDING :: u16 where "INFS_OBJECT_SECURITY_BINDING \<equiv> 9"
abbreviation (input) INFS_OBJECT_EXTENSION :: u16 where "INFS_OBJECT_EXTENSION \<equiv> 10"
abbreviation (input) INFS_OBJECT_METADATA_SET :: u16 where "INFS_OBJECT_METADATA_SET \<equiv> 11"
abbreviation (input) INFS_OBJECT_NAMED_STREAM :: u16 where "INFS_OBJECT_NAMED_STREAM \<equiv> 12"

abbreviation (input) INFS_OBJECT_VERSION_CLASSIC :: u16 where "INFS_OBJECT_VERSION_CLASSIC \<equiv> 1"
abbreviation (input) INFS_OBJECT_VERSION_PAGED :: u16 where "INFS_OBJECT_VERSION_PAGED \<equiv> 2"
abbreviation (input) INFS_OBJECT_VERSION_TREE :: u16 where "INFS_OBJECT_VERSION_TREE \<equiv> 3"

abbreviation (input) INFS_INCOMPAT_UTF8_NAMES :: u64 where "INFS_INCOMPAT_UTF8_NAMES \<equiv> 0x1"
abbreviation (input) INFS_INCOMPAT_SPARSE_EXTENTS :: u64 where "INFS_INCOMPAT_SPARSE_EXTENTS \<equiv> 0x2"
abbreviation (input) INFS_INCOMPAT_UNICODE_NORM_V1 :: u64 where "INFS_INCOMPAT_UNICODE_NORM_V1 \<equiv> 0x2000"

text \<open>The nineteen feature bits \<open>0x1\<close> .. \<open>0x40000\<close> combined.\<close>

abbreviation (input) INFS_KNOWN_INCOMPAT_FLAGS :: u64 where "INFS_KNOWN_INCOMPAT_FLAGS \<equiv> 0x7FFFF"

text \<open>Capacities, as the macros compute them from the structure sizes.\<close>

abbreviation (input) INFS_METADATA_PAGE_DATA_SIZE :: nat where "INFS_METADATA_PAGE_DATA_SIZE \<equiv> 4016"
abbreviation (input) INFS_ALLOCATION_PAGE_DATA_SIZE :: nat where "INFS_ALLOCATION_PAGE_DATA_SIZE \<equiv> 4024"
abbreviation (input) INFS_ALLOCATION_TREE_FANOUT :: nat where "INFS_ALLOCATION_TREE_FANOUT \<equiv> 503"
abbreviation (input) INFS_ALLOCATION_TREE_ROOT_LEVEL :: nat where "INFS_ALLOCATION_TREE_ROOT_LEVEL \<equiv> 3"
abbreviation (input) INFS_ALLOCATION_BITS_PER_LEAF :: nat where "INFS_ALLOCATION_BITS_PER_LEAF \<equiv> 32192"
abbreviation (input) INFS_INDEX_ENTRIES_PER_PAGE :: nat where "INFS_INDEX_ENTRIES_PER_PAGE \<equiv> 125"
abbreviation (input) INFS_INDEX_PAGE_POINTERS :: nat where "INFS_INDEX_PAGE_POINTERS \<equiv> 499"
abbreviation (input) INFS_SYMLINK_TARGET_MAX :: nat where "INFS_SYMLINK_TARGET_MAX \<equiv> 3856"
abbreviation (input) INFS_SNAPSHOT_RECORDS_PER_PAGE :: nat where "INFS_SNAPSHOT_RECORDS_PER_PAGE \<equiv> 26"
abbreviation (input) INFS_SNAPSHOT_PAGE_POINTERS :: nat where "INFS_SNAPSHOT_PAGE_POINTERS \<equiv> 499"
abbreviation (input) INFS_SNAPSHOTS_PER_CATALOG :: nat where
  "INFS_SNAPSHOTS_PER_CATALOG \<equiv> INFS_SNAPSHOT_RECORDS_PER_PAGE * INFS_SNAPSHOT_PAGE_POINTERS"
abbreviation (input) INFS_PRINCIPAL_BINDINGS_PER_OBJECT :: nat where
  "INFS_PRINCIPAL_BINDINGS_PER_OBJECT \<equiv> 52"
abbreviation (input) INFS_SECURITY_INLINE_ACES :: nat where "INFS_SECURITY_INLINE_ACES \<equiv> 122"
abbreviation (input) INFS_SECURITY_ACES_PER_PAGE :: nat where "INFS_SECURITY_ACES_PER_PAGE \<equiv> 125"
abbreviation (input) INFS_SECURITY_PAGE_POINTERS :: nat where "INFS_SECURITY_PAGE_POINTERS \<equiv> 490"
abbreviation (input) INFS_SECURITY_MAX_ACES :: nat where
  "INFS_SECURITY_MAX_ACES \<equiv> INFS_SECURITY_ACES_PER_PAGE * INFS_SECURITY_PAGE_POINTERS"
abbreviation (input) INFS_EXTENSION_DATA_MAX :: nat where "INFS_EXTENSION_DATA_MAX \<equiv> 3936"
abbreviation (input) INFS_METADATA_SET_DATA_MAX :: nat where "INFS_METADATA_SET_DATA_MAX \<equiv> 3968"
abbreviation (input) INFS_SECURITY_VERSION :: u16 where "INFS_SECURITY_VERSION \<equiv> 2"
abbreviation (input) INFS_SECURITY_HASH_SLOTS :: nat where "INFS_SECURITY_HASH_SLOTS \<equiv> 32"
abbreviation (input) INFS_SECURITY_BINDING_MAX :: nat where "INFS_SECURITY_BINDING_MAX \<equiv> 68"
abbreviation (input) INFS_EXTENSION_VERSION :: u16 where "INFS_EXTENSION_VERSION \<equiv> 1"
abbreviation (input) INFS_KNOWN_EXTENSION_FLAGS :: u16 where "INFS_KNOWN_EXTENSION_FLAGS \<equiv> 3"
abbreviation (input) INFS_METADATA_SET_VERSION :: u16 where "INFS_METADATA_SET_VERSION \<equiv> 1"

section \<open>Packed structures\<close>

record infs_timestamp_disk =
  ts_seconds :: u64
  ts_nanoseconds :: u32
  ts_reserved :: u32

definition timestamp_of :: "ext_lib \<Rightarrow> bytes \<Rightarrow> infs_timestamp_disk" where
  "timestamp_of E bs = \<lparr>
     ts_seconds = ld64 E (get_bytes 0 8 bs), ts_nanoseconds = ld32 E (get_bytes 8 4 bs),
     ts_reserved = ld32 E (get_bytes 12 4 bs) \<rparr>"

definition timestamp_bytes :: "ext_lib \<Rightarrow> infs_timestamp_disk \<Rightarrow> bytes" where
  "timestamp_bytes E r =
     st64 E (ts_seconds r) @ st32 E (ts_nanoseconds r) @ st32 E (ts_reserved r)"

definition timestamp_wf :: "infs_timestamp_disk \<Rightarrow> bool" where
  "timestamp_wf r \<longleftrightarrow> True"

record infs_attributes_disk =
  at_logical_size :: u64
  at_link_count :: u64
  at_portable_flags :: u64
  at_birth_time :: infs_timestamp_disk
  at_access_time :: infs_timestamp_disk
  at_modification_time :: infs_timestamp_disk
  at_change_time :: infs_timestamp_disk
  at_security_object_id :: bytes
  at_extended_attributes_object_id :: bytes

definition attributes_of :: "ext_lib \<Rightarrow> bytes \<Rightarrow> infs_attributes_disk" where
  "attributes_of E bs = \<lparr>
     at_logical_size = ld64 E (get_bytes 0 8 bs), at_link_count = ld64 E (get_bytes 8 8 bs),
     at_portable_flags = ld64 E (get_bytes 16 8 bs),
     at_birth_time = timestamp_of E (get_bytes 24 16 bs),
     at_access_time = timestamp_of E (get_bytes 40 16 bs),
     at_modification_time = timestamp_of E (get_bytes 56 16 bs),
     at_change_time = timestamp_of E (get_bytes 72 16 bs),
     at_security_object_id = get_bytes 88 16 bs,
     at_extended_attributes_object_id = get_bytes 104 16 bs \<rparr>"

definition attributes_bytes :: "ext_lib \<Rightarrow> infs_attributes_disk \<Rightarrow> bytes" where
  "attributes_bytes E r =
     st64 E (at_logical_size r) @ st64 E (at_link_count r) @ st64 E (at_portable_flags r) @
     timestamp_bytes E (at_birth_time r) @ timestamp_bytes E (at_access_time r) @
     timestamp_bytes E (at_modification_time r) @ timestamp_bytes E (at_change_time r) @
     at_security_object_id r @ at_extended_attributes_object_id r"

definition attributes_wf :: "infs_attributes_disk \<Rightarrow> bool" where
  "attributes_wf r \<longleftrightarrow> timestamp_wf (at_birth_time r) \<and> timestamp_wf (at_access_time r) \<and>
     timestamp_wf (at_modification_time r) \<and> timestamp_wf (at_change_time r) \<and>
     length (at_security_object_id r) = 16 \<and>
     length (at_extended_attributes_object_id r) = 16"

record infs_posix_compat_disk =
  px_permissions :: u32
  px_uid :: u32
  px_gid :: u32
  px_flags :: u32

definition posix_compat_of :: "ext_lib \<Rightarrow> bytes \<Rightarrow> infs_posix_compat_disk" where
  "posix_compat_of E bs = \<lparr>
     px_permissions = ld32 E (get_bytes 0 4 bs), px_uid = ld32 E (get_bytes 4 4 bs),
     px_gid = ld32 E (get_bytes 8 4 bs), px_flags = ld32 E (get_bytes 12 4 bs) \<rparr>"

definition posix_compat_bytes :: "ext_lib \<Rightarrow> infs_posix_compat_disk \<Rightarrow> bytes" where
  "posix_compat_bytes E r =
     st32 E (px_permissions r) @ st32 E (px_uid r) @ st32 E (px_gid r) @ st32 E (px_flags r)"

definition posix_compat_wf :: "infs_posix_compat_disk \<Rightarrow> bool" where
  "posix_compat_wf r \<longleftrightarrow> True"

record infs_superblock_disk =
  sb_magic :: bytes
  sb_format_major :: u16
  sb_format_minor :: u16
  sb_header_size :: u16
  sb_block_shift :: u16
  sb_checksum_type :: u32
  sb_generation :: u64
  sb_total_blocks :: u64
  sb_free_blocks :: u64
  sb_allocation_root_block :: u64
  sb_allocation_leaf_count :: u64
  sb_object_index_block :: u64
  sb_root_object_block :: u64
  sb_checkpoint_block :: "u64 list"
  sb_filesystem_uuid :: bytes
  sb_root_object_id :: bytes
  sb_compat_flags :: u64
  sb_ro_compat_flags :: u64
  sb_incompat_flags :: u64
  sb_label :: bytes
  sb_checksum :: bytes

definition superblock_of :: "ext_lib \<Rightarrow> bytes \<Rightarrow> infs_superblock_disk" where
  "superblock_of E bs = \<lparr>
     sb_magic = get_bytes 0 8 bs, sb_format_major = ld16 E (get_bytes 8 2 bs),
     sb_format_minor = ld16 E (get_bytes 10 2 bs),
     sb_header_size = ld16 E (get_bytes 12 2 bs),
     sb_block_shift = ld16 E (get_bytes 14 2 bs),
     sb_checksum_type = ld32 E (get_bytes 16 4 bs),
     sb_generation = ld64 E (get_bytes 20 8 bs),
     sb_total_blocks = ld64 E (get_bytes 28 8 bs),
     sb_free_blocks = ld64 E (get_bytes 36 8 bs),
     sb_allocation_root_block = ld64 E (get_bytes 44 8 bs),
     sb_allocation_leaf_count = ld64 E (get_bytes 52 8 bs),
     sb_object_index_block = ld64 E (get_bytes 60 8 bs),
     sb_root_object_block = ld64 E (get_bytes 68 8 bs),
     sb_checkpoint_block = [ld64 E (get_bytes 76 8 bs), ld64 E (get_bytes 84 8 bs), ld64 E (get_bytes 92 8 bs)],
     sb_filesystem_uuid = get_bytes 100 16 bs, sb_root_object_id = get_bytes 116 16 bs,
     sb_compat_flags = ld64 E (get_bytes 132 8 bs),
     sb_ro_compat_flags = ld64 E (get_bytes 140 8 bs),
     sb_incompat_flags = ld64 E (get_bytes 148 8 bs), sb_label = get_bytes 156 64 bs,
     sb_checksum = get_bytes 220 32 bs \<rparr>"

definition superblock_bytes :: "ext_lib \<Rightarrow> infs_superblock_disk \<Rightarrow> bytes" where
  "superblock_bytes E r =
     sb_magic r @ st16 E (sb_format_major r) @ st16 E (sb_format_minor r) @
     st16 E (sb_header_size r) @ st16 E (sb_block_shift r) @ st32 E (sb_checksum_type r) @
     st64 E (sb_generation r) @ st64 E (sb_total_blocks r) @ st64 E (sb_free_blocks r) @
     st64 E (sb_allocation_root_block r) @ st64 E (sb_allocation_leaf_count r) @
     st64 E (sb_object_index_block r) @ st64 E (sb_root_object_block r) @
     st64 E (sb_checkpoint_block r ! 0) @ st64 E (sb_checkpoint_block r ! 1) @
     st64 E (sb_checkpoint_block r ! 2) @ sb_filesystem_uuid r @ sb_root_object_id r @
     st64 E (sb_compat_flags r) @ st64 E (sb_ro_compat_flags r) @
     st64 E (sb_incompat_flags r) @ sb_label r @ sb_checksum r"

definition superblock_wf :: "infs_superblock_disk \<Rightarrow> bool" where
  "superblock_wf r \<longleftrightarrow> length (sb_magic r) = 8 \<and> length (sb_checkpoint_block r) = 3 \<and>
     length (sb_filesystem_uuid r) = 16 \<and> length (sb_root_object_id r) = 16 \<and>
     length (sb_label r) = 64 \<and> length (sb_checksum r) = 32"

record infs_object_header_disk =
  oh_magic :: bytes
  oh_object_type :: u16
  oh_object_version :: u16
  oh_header_size :: u32
  oh_generation :: u64
  oh_object_id :: bytes
  oh_parent_id :: bytes
  oh_payload_size :: u32
  oh_checksum_type :: u32
  oh_checksum :: bytes

definition object_header_of :: "ext_lib \<Rightarrow> bytes \<Rightarrow> infs_object_header_disk" where
  "object_header_of E bs = \<lparr>
     oh_magic = get_bytes 0 8 bs, oh_object_type = ld16 E (get_bytes 8 2 bs),
     oh_object_version = ld16 E (get_bytes 10 2 bs),
     oh_header_size = ld32 E (get_bytes 12 4 bs), oh_generation = ld64 E (get_bytes 16 8 bs),
     oh_object_id = get_bytes 24 16 bs, oh_parent_id = get_bytes 40 16 bs,
     oh_payload_size = ld32 E (get_bytes 56 4 bs),
     oh_checksum_type = ld32 E (get_bytes 60 4 bs), oh_checksum = get_bytes 64 32 bs \<rparr>"

definition object_header_bytes :: "ext_lib \<Rightarrow> infs_object_header_disk \<Rightarrow> bytes" where
  "object_header_bytes E r =
     oh_magic r @ st16 E (oh_object_type r) @ st16 E (oh_object_version r) @
     st32 E (oh_header_size r) @ st64 E (oh_generation r) @ oh_object_id r @ oh_parent_id r @
     st32 E (oh_payload_size r) @ st32 E (oh_checksum_type r) @ oh_checksum r"

definition object_header_wf :: "infs_object_header_disk \<Rightarrow> bool" where
  "object_header_wf r \<longleftrightarrow> length (oh_magic r) = 8 \<and> length (oh_object_id r) = 16 \<and>
     length (oh_parent_id r) = 16 \<and> length (oh_checksum r) = 32"

record infs_metadata_page_disk =
  mp_magic :: bytes
  mp_generation :: u64
  mp_owner_object_id :: bytes
  mp_entry_count :: u32
  mp_bytes_used :: u32
  mp_checksum_type :: u32
  mp_reserved :: u32
  mp_checksum :: bytes

definition metadata_page_of :: "ext_lib \<Rightarrow> bytes \<Rightarrow> infs_metadata_page_disk" where
  "metadata_page_of E bs = \<lparr>
     mp_magic = get_bytes 0 8 bs, mp_generation = ld64 E (get_bytes 8 8 bs),
     mp_owner_object_id = get_bytes 16 16 bs, mp_entry_count = ld32 E (get_bytes 32 4 bs),
     mp_bytes_used = ld32 E (get_bytes 36 4 bs),
     mp_checksum_type = ld32 E (get_bytes 40 4 bs), mp_reserved = ld32 E (get_bytes 44 4 bs),
     mp_checksum = get_bytes 48 32 bs \<rparr>"

definition metadata_page_bytes :: "ext_lib \<Rightarrow> infs_metadata_page_disk \<Rightarrow> bytes" where
  "metadata_page_bytes E r =
     mp_magic r @ st64 E (mp_generation r) @ mp_owner_object_id r @
     st32 E (mp_entry_count r) @ st32 E (mp_bytes_used r) @ st32 E (mp_checksum_type r) @
     st32 E (mp_reserved r) @ mp_checksum r"

definition metadata_page_wf :: "infs_metadata_page_disk \<Rightarrow> bool" where
  "metadata_page_wf r \<longleftrightarrow> length (mp_magic r) = 8 \<and> length (mp_owner_object_id r) = 16 \<and>
     length (mp_checksum r) = 32"

record infs_allocation_page_disk =
  ap_magic :: bytes
  ap_generation :: u64
  ap_logical_index :: u64
  ap_level :: u32
  ap_entry_count :: u32
  ap_bytes_used :: u32
  ap_checksum_type :: u32
  ap_checksum :: bytes

definition allocation_page_of :: "ext_lib \<Rightarrow> bytes \<Rightarrow> infs_allocation_page_disk" where
  "allocation_page_of E bs = \<lparr>
     ap_magic = get_bytes 0 8 bs, ap_generation = ld64 E (get_bytes 8 8 bs),
     ap_logical_index = ld64 E (get_bytes 16 8 bs), ap_level = ld32 E (get_bytes 24 4 bs),
     ap_entry_count = ld32 E (get_bytes 28 4 bs), ap_bytes_used = ld32 E (get_bytes 32 4 bs),
     ap_checksum_type = ld32 E (get_bytes 36 4 bs), ap_checksum = get_bytes 40 32 bs \<rparr>"

definition allocation_page_bytes :: "ext_lib \<Rightarrow> infs_allocation_page_disk \<Rightarrow> bytes" where
  "allocation_page_bytes E r =
     ap_magic r @ st64 E (ap_generation r) @ st64 E (ap_logical_index r) @
     st32 E (ap_level r) @ st32 E (ap_entry_count r) @ st32 E (ap_bytes_used r) @
     st32 E (ap_checksum_type r) @ ap_checksum r"

definition allocation_page_wf :: "infs_allocation_page_disk \<Rightarrow> bool" where
  "allocation_page_wf r \<longleftrightarrow> length (ap_magic r) = 8 \<and> length (ap_checksum r) = 32"

record infs_directory_payload_disk =
  dp_attributes :: infs_attributes_disk
  dp_posix :: infs_posix_compat_disk
  dp_entry_count :: u32
  dp_bytes_used :: u32

definition directory_payload_of :: "ext_lib \<Rightarrow> bytes \<Rightarrow> infs_directory_payload_disk" where
  "directory_payload_of E bs = \<lparr>
     dp_attributes = attributes_of E (get_bytes 0 120 bs),
     dp_posix = posix_compat_of E (get_bytes 120 16 bs),
     dp_entry_count = ld32 E (get_bytes 136 4 bs),
     dp_bytes_used = ld32 E (get_bytes 140 4 bs) \<rparr>"

definition directory_payload_bytes :: "ext_lib \<Rightarrow> infs_directory_payload_disk \<Rightarrow> bytes" where
  "directory_payload_bytes E r =
     attributes_bytes E (dp_attributes r) @ posix_compat_bytes E (dp_posix r) @
     st32 E (dp_entry_count r) @ st32 E (dp_bytes_used r)"

definition directory_payload_wf :: "infs_directory_payload_disk \<Rightarrow> bool" where
  "directory_payload_wf r \<longleftrightarrow> attributes_wf (dp_attributes r) \<and> posix_compat_wf (dp_posix r)"

record infs_symlink_payload_disk =
  sl_attributes :: infs_attributes_disk
  sl_posix :: infs_posix_compat_disk
  sl_target_length :: u32
  sl_reserved :: u32

definition symlink_payload_of :: "ext_lib \<Rightarrow> bytes \<Rightarrow> infs_symlink_payload_disk" where
  "symlink_payload_of E bs = \<lparr>
     sl_attributes = attributes_of E (get_bytes 0 120 bs),
     sl_posix = posix_compat_of E (get_bytes 120 16 bs),
     sl_target_length = ld32 E (get_bytes 136 4 bs),
     sl_reserved = ld32 E (get_bytes 140 4 bs) \<rparr>"

definition symlink_payload_bytes :: "ext_lib \<Rightarrow> infs_symlink_payload_disk \<Rightarrow> bytes" where
  "symlink_payload_bytes E r =
     attributes_bytes E (sl_attributes r) @ posix_compat_bytes E (sl_posix r) @
     st32 E (sl_target_length r) @ st32 E (sl_reserved r)"

definition symlink_payload_wf :: "infs_symlink_payload_disk \<Rightarrow> bool" where
  "symlink_payload_wf r \<longleftrightarrow> attributes_wf (sl_attributes r) \<and> posix_compat_wf (sl_posix r)"

record infs_extent_disk =
  ex_logical_block :: u64
  ex_physical_block :: u64
  ex_block_count :: u32
  ex_flags :: u32

definition extent_of :: "ext_lib \<Rightarrow> bytes \<Rightarrow> infs_extent_disk" where
  "extent_of E bs = \<lparr>
     ex_logical_block = ld64 E (get_bytes 0 8 bs),
     ex_physical_block = ld64 E (get_bytes 8 8 bs),
     ex_block_count = ld32 E (get_bytes 16 4 bs), ex_flags = ld32 E (get_bytes 20 4 bs) \<rparr>"

definition extent_bytes :: "ext_lib \<Rightarrow> infs_extent_disk \<Rightarrow> bytes" where
  "extent_bytes E r =
     st64 E (ex_logical_block r) @ st64 E (ex_physical_block r) @ st32 E (ex_block_count r) @
     st32 E (ex_flags r)"

definition extent_wf :: "infs_extent_disk \<Rightarrow> bool" where
  "extent_wf r \<longleftrightarrow> True"

record infs_principal_payload_disk =
  pp_version :: u16
  pp_kind :: u16
  pp_binding_count :: u16
  pp_flags :: u16
  pp_binding_bytes :: u32
  pp_reserved :: u32

definition principal_payload_of :: "ext_lib \<Rightarrow> bytes \<Rightarrow> infs_principal_payload_disk" where
  "principal_payload_of E bs = \<lparr>
     pp_version = ld16 E (get_bytes 0 2 bs), pp_kind = ld16 E (get_bytes 2 2 bs),
     pp_binding_count = ld16 E (get_bytes 4 2 bs), pp_flags = ld16 E (get_bytes 6 2 bs),
     pp_binding_bytes = ld32 E (get_bytes 8 4 bs), pp_reserved = ld32 E (get_bytes 12 4 bs) \<rparr>"

definition principal_payload_bytes :: "ext_lib \<Rightarrow> infs_principal_payload_disk \<Rightarrow> bytes" where
  "principal_payload_bytes E r =
     st16 E (pp_version r) @ st16 E (pp_kind r) @ st16 E (pp_binding_count r) @
     st16 E (pp_flags r) @ st32 E (pp_binding_bytes r) @ st32 E (pp_reserved r)"

definition principal_payload_wf :: "infs_principal_payload_disk \<Rightarrow> bool" where
  "principal_payload_wf r \<longleftrightarrow> True"

record infs_security_binding_disk =
  bd_type :: u16
  bd_flags :: u16
  bd_value_size :: u16
  bd_reserved :: u16
  bd_value :: bytes

definition security_binding_of :: "ext_lib \<Rightarrow> bytes \<Rightarrow> infs_security_binding_disk" where
  "security_binding_of E bs = \<lparr>
     bd_type = ld16 E (get_bytes 0 2 bs), bd_flags = ld16 E (get_bytes 2 2 bs),
     bd_value_size = ld16 E (get_bytes 4 2 bs), bd_reserved = ld16 E (get_bytes 6 2 bs),
     bd_value = get_bytes 8 68 bs \<rparr>"

definition security_binding_bytes :: "ext_lib \<Rightarrow> infs_security_binding_disk \<Rightarrow> bytes" where
  "security_binding_bytes E r =
     st16 E (bd_type r) @ st16 E (bd_flags r) @ st16 E (bd_value_size r) @
     st16 E (bd_reserved r) @ bd_value r"

definition security_binding_wf :: "infs_security_binding_disk \<Rightarrow> bool" where
  "security_binding_wf r \<longleftrightarrow> length (bd_value r) = 68"

record infs_security_payload_disk =
  sp_version :: u16
  sp_flags :: u16
  sp_ace_count :: u32
  sp_page_count :: u32
  sp_identity_slot :: u16
  sp_reserved :: u16
  sp_owner_principal_id :: bytes
  sp_primary_group_principal_id :: bytes
  sp_semantic_digest :: bytes

definition security_payload_of :: "ext_lib \<Rightarrow> bytes \<Rightarrow> infs_security_payload_disk" where
  "security_payload_of E bs = \<lparr>
     sp_version = ld16 E (get_bytes 0 2 bs), sp_flags = ld16 E (get_bytes 2 2 bs),
     sp_ace_count = ld32 E (get_bytes 4 4 bs), sp_page_count = ld32 E (get_bytes 8 4 bs),
     sp_identity_slot = ld16 E (get_bytes 12 2 bs), sp_reserved = ld16 E (get_bytes 14 2 bs),
     sp_owner_principal_id = get_bytes 16 16 bs,
     sp_primary_group_principal_id = get_bytes 32 16 bs,
     sp_semantic_digest = get_bytes 48 32 bs \<rparr>"

definition security_payload_bytes :: "ext_lib \<Rightarrow> infs_security_payload_disk \<Rightarrow> bytes" where
  "security_payload_bytes E r =
     st16 E (sp_version r) @ st16 E (sp_flags r) @ st32 E (sp_ace_count r) @
     st32 E (sp_page_count r) @ st16 E (sp_identity_slot r) @ st16 E (sp_reserved r) @
     sp_owner_principal_id r @ sp_primary_group_principal_id r @ sp_semantic_digest r"

definition security_payload_wf :: "infs_security_payload_disk \<Rightarrow> bool" where
  "security_payload_wf r \<longleftrightarrow> length (sp_owner_principal_id r) = 16 \<and>
     length (sp_primary_group_principal_id r) = 16 \<and> length (sp_semantic_digest r) = 32"

record infs_security_binding_index_payload_disk =
  bi_version :: u16
  bi_slot :: u16
  bi_binding_type :: u16
  bi_binding_size :: u16
  bi_principal_id :: bytes
  bi_binding_digest :: bytes
  bi_value :: bytes
  bi_reserved :: u32

definition security_binding_index_payload_of :: "ext_lib \<Rightarrow> bytes \<Rightarrow> infs_security_binding_index_payload_disk" where
  "security_binding_index_payload_of E bs = \<lparr>
     bi_version = ld16 E (get_bytes 0 2 bs), bi_slot = ld16 E (get_bytes 2 2 bs),
     bi_binding_type = ld16 E (get_bytes 4 2 bs),
     bi_binding_size = ld16 E (get_bytes 6 2 bs), bi_principal_id = get_bytes 8 16 bs,
     bi_binding_digest = get_bytes 24 32 bs, bi_value = get_bytes 56 68 bs,
     bi_reserved = ld32 E (get_bytes 124 4 bs) \<rparr>"

definition security_binding_index_payload_bytes :: "ext_lib \<Rightarrow> infs_security_binding_index_payload_disk \<Rightarrow> bytes" where
  "security_binding_index_payload_bytes E r =
     st16 E (bi_version r) @ st16 E (bi_slot r) @ st16 E (bi_binding_type r) @
     st16 E (bi_binding_size r) @ bi_principal_id r @ bi_binding_digest r @ bi_value r @
     st32 E (bi_reserved r)"

definition security_binding_index_payload_wf :: "infs_security_binding_index_payload_disk \<Rightarrow> bool" where
  "security_binding_index_payload_wf r \<longleftrightarrow> length (bi_principal_id r) = 16 \<and> length (bi_binding_digest r) = 32 \<and>
     length (bi_value r) = 68"

record infs_security_ace_disk =
  ae_principal_id :: bytes
  ae_rights :: u64
  ae_disposition :: u16
  ae_flags :: u16
  ae_reserved :: u32

definition security_ace_of :: "ext_lib \<Rightarrow> bytes \<Rightarrow> infs_security_ace_disk" where
  "security_ace_of E bs = \<lparr>
     ae_principal_id = get_bytes 0 16 bs, ae_rights = ld64 E (get_bytes 16 8 bs),
     ae_disposition = ld16 E (get_bytes 24 2 bs), ae_flags = ld16 E (get_bytes 26 2 bs),
     ae_reserved = ld32 E (get_bytes 28 4 bs) \<rparr>"

definition security_ace_bytes :: "ext_lib \<Rightarrow> infs_security_ace_disk \<Rightarrow> bytes" where
  "security_ace_bytes E r =
     ae_principal_id r @ st64 E (ae_rights r) @ st16 E (ae_disposition r) @
     st16 E (ae_flags r) @ st32 E (ae_reserved r)"

definition security_ace_wf :: "infs_security_ace_disk \<Rightarrow> bool" where
  "security_ace_wf r \<longleftrightarrow> length (ae_principal_id r) = 16"

record infs_extension_payload_disk =
  ep_version :: u16
  ep_flags :: u16
  ep_type_version :: u32
  ep_data_size :: u32
  ep_reserved :: u32
  ep_type_id :: bytes
  ep_data_digest :: bytes

definition extension_payload_of :: "ext_lib \<Rightarrow> bytes \<Rightarrow> infs_extension_payload_disk" where
  "extension_payload_of E bs = \<lparr>
     ep_version = ld16 E (get_bytes 0 2 bs), ep_flags = ld16 E (get_bytes 2 2 bs),
     ep_type_version = ld32 E (get_bytes 4 4 bs), ep_data_size = ld32 E (get_bytes 8 4 bs),
     ep_reserved = ld32 E (get_bytes 12 4 bs), ep_type_id = get_bytes 16 16 bs,
     ep_data_digest = get_bytes 32 32 bs \<rparr>"

definition extension_payload_bytes :: "ext_lib \<Rightarrow> infs_extension_payload_disk \<Rightarrow> bytes" where
  "extension_payload_bytes E r =
     st16 E (ep_version r) @ st16 E (ep_flags r) @ st32 E (ep_type_version r) @
     st32 E (ep_data_size r) @ st32 E (ep_reserved r) @ ep_type_id r @ ep_data_digest r"

definition extension_payload_wf :: "infs_extension_payload_disk \<Rightarrow> bool" where
  "extension_payload_wf r \<longleftrightarrow> length (ep_type_id r) = 16 \<and> length (ep_data_digest r) = 32"

record infs_metadata_set_payload_disk =
  ms_version :: u16
  ms_flags :: u16
  ms_entry_count :: u32
  ms_bytes_used :: u32
  ms_reserved :: u32
  ms_typed_extension_object_id :: bytes

definition metadata_set_payload_of :: "ext_lib \<Rightarrow> bytes \<Rightarrow> infs_metadata_set_payload_disk" where
  "metadata_set_payload_of E bs = \<lparr>
     ms_version = ld16 E (get_bytes 0 2 bs), ms_flags = ld16 E (get_bytes 2 2 bs),
     ms_entry_count = ld32 E (get_bytes 4 4 bs), ms_bytes_used = ld32 E (get_bytes 8 4 bs),
     ms_reserved = ld32 E (get_bytes 12 4 bs),
     ms_typed_extension_object_id = get_bytes 16 16 bs \<rparr>"

definition metadata_set_payload_bytes :: "ext_lib \<Rightarrow> infs_metadata_set_payload_disk \<Rightarrow> bytes" where
  "metadata_set_payload_bytes E r =
     st16 E (ms_version r) @ st16 E (ms_flags r) @ st32 E (ms_entry_count r) @
     st32 E (ms_bytes_used r) @ st32 E (ms_reserved r) @ ms_typed_extension_object_id r"

definition metadata_set_payload_wf :: "infs_metadata_set_payload_disk \<Rightarrow> bool" where
  "metadata_set_payload_wf r \<longleftrightarrow> length (ms_typed_extension_object_id r) = 16"

record infs_metadata_stream_entry_disk =
  me_record_size :: u16
  me_name_length :: u16
  me_flags :: u32
  me_stream_object_id :: bytes

definition metadata_stream_entry_of :: "ext_lib \<Rightarrow> bytes \<Rightarrow> infs_metadata_stream_entry_disk" where
  "metadata_stream_entry_of E bs = \<lparr>
     me_record_size = ld16 E (get_bytes 0 2 bs), me_name_length = ld16 E (get_bytes 2 2 bs),
     me_flags = ld32 E (get_bytes 4 4 bs), me_stream_object_id = get_bytes 8 16 bs \<rparr>"

definition metadata_stream_entry_bytes :: "ext_lib \<Rightarrow> infs_metadata_stream_entry_disk \<Rightarrow> bytes" where
  "metadata_stream_entry_bytes E r =
     st16 E (me_record_size r) @ st16 E (me_name_length r) @ st32 E (me_flags r) @
     me_stream_object_id r"

definition metadata_stream_entry_wf :: "infs_metadata_stream_entry_disk \<Rightarrow> bool" where
  "metadata_stream_entry_wf r \<longleftrightarrow> length (me_stream_object_id r) = 16"

record infs_index_payload_disk =
  ip_entry_count :: u32
  ip_reserved :: u32

definition index_payload_of :: "ext_lib \<Rightarrow> bytes \<Rightarrow> infs_index_payload_disk" where
  "index_payload_of E bs = \<lparr>
     ip_entry_count = ld32 E (get_bytes 0 4 bs), ip_reserved = ld32 E (get_bytes 4 4 bs) \<rparr>"

definition index_payload_bytes :: "ext_lib \<Rightarrow> infs_index_payload_disk \<Rightarrow> bytes" where
  "index_payload_bytes E r =
     st32 E (ip_entry_count r) @ st32 E (ip_reserved r)"

definition index_payload_wf :: "infs_index_payload_disk \<Rightarrow> bool" where
  "index_payload_wf r \<longleftrightarrow> True"

record infs_index_entry_disk =
  ie_object_id :: bytes
  ie_object_block :: u64
  ie_object_type :: u16
  ie_flags :: u16
  ie_reserved :: u32

definition index_entry_of :: "ext_lib \<Rightarrow> bytes \<Rightarrow> infs_index_entry_disk" where
  "index_entry_of E bs = \<lparr>
     ie_object_id = get_bytes 0 16 bs, ie_object_block = ld64 E (get_bytes 16 8 bs),
     ie_object_type = ld16 E (get_bytes 24 2 bs), ie_flags = ld16 E (get_bytes 26 2 bs),
     ie_reserved = ld32 E (get_bytes 28 4 bs) \<rparr>"

definition index_entry_bytes :: "ext_lib \<Rightarrow> infs_index_entry_disk \<Rightarrow> bytes" where
  "index_entry_bytes E r =
     ie_object_id r @ st64 E (ie_object_block r) @ st16 E (ie_object_type r) @
     st16 E (ie_flags r) @ st32 E (ie_reserved r)"

definition index_entry_wf :: "infs_index_entry_disk \<Rightarrow> bool" where
  "index_entry_wf r \<longleftrightarrow> length (ie_object_id r) = 16"

record infs_snapshot_catalog_payload_disk =
  sc_snapshot_count :: u32
  sc_reserved :: u32

definition snapshot_catalog_payload_of :: "ext_lib \<Rightarrow> bytes \<Rightarrow> infs_snapshot_catalog_payload_disk" where
  "snapshot_catalog_payload_of E bs = \<lparr>
     sc_snapshot_count = ld32 E (get_bytes 0 4 bs), sc_reserved = ld32 E (get_bytes 4 4 bs) \<rparr>"

definition snapshot_catalog_payload_bytes :: "ext_lib \<Rightarrow> infs_snapshot_catalog_payload_disk \<Rightarrow> bytes" where
  "snapshot_catalog_payload_bytes E r =
     st32 E (sc_snapshot_count r) @ st32 E (sc_reserved r)"

definition snapshot_catalog_payload_wf :: "infs_snapshot_catalog_payload_disk \<Rightarrow> bool" where
  "snapshot_catalog_payload_wf r \<longleftrightarrow> True"

section \<open>The structure interface\<close>

locale struct_codec =
  fixes of_bytes :: "bytes \<Rightarrow> 'r"
    and to_bytes :: "'r \<Rightarrow> bytes"
    and wf :: "'r \<Rightarrow> bool"
    and sz :: nat
  assumes to_bytes_size: "wf r \<Longrightarrow> length (to_bytes r) = sz"
    and of_to: "wf r \<Longrightarrow> of_bytes (to_bytes r) = r"
    and to_of: "length bs = sz \<Longrightarrow> to_bytes (of_bytes bs) = bs"
    and of_wf: "length bs = sz \<Longrightarrow> wf (of_bytes bs)"
begin

text \<open>Loading a structure from a buffer, after storing one at the same or another place.\<close>

lemma load_store_same:
  "wf r \<Longrightarrow> off + sz \<le> length buf \<Longrightarrow>
   of_bytes (get_bytes off sz (put_bytes off (to_bytes r) buf)) = r"
  by (simp add: get_put_same to_bytes_size of_to)

lemma load_store_other:
  "wf r \<Longrightarrow> off + sz \<le> length buf \<Longrightarrow> o' + n \<le> off \<or> off + sz \<le> o' \<Longrightarrow>
   get_bytes o' n (put_bytes off (to_bytes r) buf) = get_bytes o' n buf"
  by (auto simp: get_put_before get_put_after to_bytes_size)

lemma store_load:
  "off + sz \<le> length buf \<Longrightarrow> put_bytes off (to_bytes (of_bytes (get_bytes off sz buf))) buf = buf"
  by (simp add: to_of put_get_id)

lemma to_bytes_inject: "wf r \<Longrightarrow> wf r' \<Longrightarrow> to_bytes r = to_bytes r' \<longleftrightarrow> r = r'"
  by (metis of_to)

end

section \<open>Every structure is one\<close>

lemma ext_laws:
  assumes "ext_ok E"
  shows "length (st16 E a) = 2" "length (st32 E b) = 4" "length (st64 E c) = 8"
    "ld16 E (st16 E a) = a" "ld32 E (st32 E b) = b" "ld64 E (st64 E c) = c"
    "length x = 2 \<Longrightarrow> st16 E (ld16 E x) = x" "length y = 4 \<Longrightarrow> st32 E (ld32 E y) = y"
    "length z = 8 \<Longrightarrow> st64 E (ld64 E z) = z"
  using assms unfolding ext_ok_def byte_codec_def by blast+

lemma struct_codec_laws:
  assumes "struct_codec f g w n"
  shows "w r \<Longrightarrow> length (g r) = n" "w r \<Longrightarrow> f (g r) = r" "length bs = n \<Longrightarrow> g (f bs) = bs"
    "length bs = n \<Longrightarrow> w (f bs)"
  using assms unfolding struct_codec_def by blast+

lemma get_join:
  "b = a + n \<Longrightarrow> get_bytes a n bs @ get_bytes b m bs = get_bytes a (n + m) bs"
  by (simp add: get_bytes_def take_add add.commute [of n a])

lemma list3: "length l = 3 \<Longrightarrow> [l ! 0, l ! Suc 0, l ! 2] = l"
  by (auto simp: length_Suc_conv numeral_3_eq_3 numeral_2_eq_2)

lemma timestamp_codec:
  assumes "ext_ok E"
  shows "struct_codec (timestamp_of E) (timestamp_bytes E) timestamp_wf 16"
proof
  note laws = ext_laws [OF assms]
  show "timestamp_wf r \<Longrightarrow> length (timestamp_bytes E r) = 16" for r
    by (simp add: timestamp_bytes_def timestamp_wf_def laws)
  show "timestamp_wf r \<Longrightarrow> timestamp_of E (timestamp_bytes E r) = r" for r
    by (simp add: timestamp_of_def timestamp_bytes_def timestamp_wf_def laws buffer_simps)
  show "length bs = 16 \<Longrightarrow> timestamp_bytes E (timestamp_of E bs) = bs" for bs
    by (simp add: timestamp_of_def timestamp_bytes_def laws get_join get_whole)
  show "length bs = 16 \<Longrightarrow> timestamp_wf (timestamp_of E bs)" for bs
    by (simp add: timestamp_of_def timestamp_wf_def laws)
qed

lemmas timestamp_laws = struct_codec_laws [OF timestamp_codec]

lemma attributes_codec:
  assumes "ext_ok E"
  shows "struct_codec (attributes_of E) (attributes_bytes E) attributes_wf 120"
proof
  note laws = ext_laws [OF assms] timestamp_laws [OF assms]
  show "attributes_wf r \<Longrightarrow> length (attributes_bytes E r) = 120" for r
    by (simp add: attributes_bytes_def attributes_wf_def laws)
  show "attributes_wf r \<Longrightarrow> attributes_of E (attributes_bytes E r) = r" for r
    by (simp add: attributes_of_def attributes_bytes_def attributes_wf_def laws buffer_simps)
  show "length bs = 120 \<Longrightarrow> attributes_bytes E (attributes_of E bs) = bs" for bs
    by (simp add: attributes_of_def attributes_bytes_def laws get_join get_whole)
  show "length bs = 120 \<Longrightarrow> attributes_wf (attributes_of E bs)" for bs
    by (simp add: attributes_of_def attributes_wf_def laws)
qed

lemmas attributes_laws = struct_codec_laws [OF attributes_codec]

lemma posix_compat_codec:
  assumes "ext_ok E"
  shows "struct_codec (posix_compat_of E) (posix_compat_bytes E) posix_compat_wf 16"
proof
  note laws = ext_laws [OF assms]
  show "posix_compat_wf r \<Longrightarrow> length (posix_compat_bytes E r) = 16" for r
    by (simp add: posix_compat_bytes_def posix_compat_wf_def laws)
  show "posix_compat_wf r \<Longrightarrow> posix_compat_of E (posix_compat_bytes E r) = r" for r
    by (simp add: posix_compat_of_def posix_compat_bytes_def posix_compat_wf_def laws buffer_simps)
  show "length bs = 16 \<Longrightarrow> posix_compat_bytes E (posix_compat_of E bs) = bs" for bs
    by (simp add: posix_compat_of_def posix_compat_bytes_def laws get_join get_whole)
  show "length bs = 16 \<Longrightarrow> posix_compat_wf (posix_compat_of E bs)" for bs
    by (simp add: posix_compat_of_def posix_compat_wf_def laws)
qed

lemmas posix_compat_laws = struct_codec_laws [OF posix_compat_codec]

lemma superblock_codec:
  assumes "ext_ok E"
  shows "struct_codec (superblock_of E) (superblock_bytes E) superblock_wf 252"
proof
  note laws = ext_laws [OF assms]
  show "superblock_wf r \<Longrightarrow> length (superblock_bytes E r) = 252" for r
    by (simp add: superblock_bytes_def superblock_wf_def laws)
  show "superblock_wf r \<Longrightarrow> superblock_of E (superblock_bytes E r) = r" for r
    by (simp add: superblock_of_def superblock_bytes_def superblock_wf_def laws buffer_simps list3)
  show "length bs = 252 \<Longrightarrow> superblock_bytes E (superblock_of E bs) = bs" for bs
    by (simp add: superblock_of_def superblock_bytes_def laws get_join get_whole)
  show "length bs = 252 \<Longrightarrow> superblock_wf (superblock_of E bs)" for bs
    by (simp add: superblock_of_def superblock_wf_def laws)
qed

lemmas superblock_laws = struct_codec_laws [OF superblock_codec]

lemma object_header_codec:
  assumes "ext_ok E"
  shows "struct_codec (object_header_of E) (object_header_bytes E) object_header_wf 96"
proof
  note laws = ext_laws [OF assms]
  show "object_header_wf r \<Longrightarrow> length (object_header_bytes E r) = 96" for r
    by (simp add: object_header_bytes_def object_header_wf_def laws)
  show "object_header_wf r \<Longrightarrow> object_header_of E (object_header_bytes E r) = r" for r
    by (simp add: object_header_of_def object_header_bytes_def object_header_wf_def laws buffer_simps)
  show "length bs = 96 \<Longrightarrow> object_header_bytes E (object_header_of E bs) = bs" for bs
    by (simp add: object_header_of_def object_header_bytes_def laws get_join get_whole)
  show "length bs = 96 \<Longrightarrow> object_header_wf (object_header_of E bs)" for bs
    by (simp add: object_header_of_def object_header_wf_def laws)
qed

lemmas object_header_laws = struct_codec_laws [OF object_header_codec]

lemma metadata_page_codec:
  assumes "ext_ok E"
  shows "struct_codec (metadata_page_of E) (metadata_page_bytes E) metadata_page_wf 80"
proof
  note laws = ext_laws [OF assms]
  show "metadata_page_wf r \<Longrightarrow> length (metadata_page_bytes E r) = 80" for r
    by (simp add: metadata_page_bytes_def metadata_page_wf_def laws)
  show "metadata_page_wf r \<Longrightarrow> metadata_page_of E (metadata_page_bytes E r) = r" for r
    by (simp add: metadata_page_of_def metadata_page_bytes_def metadata_page_wf_def laws buffer_simps)
  show "length bs = 80 \<Longrightarrow> metadata_page_bytes E (metadata_page_of E bs) = bs" for bs
    by (simp add: metadata_page_of_def metadata_page_bytes_def laws get_join get_whole)
  show "length bs = 80 \<Longrightarrow> metadata_page_wf (metadata_page_of E bs)" for bs
    by (simp add: metadata_page_of_def metadata_page_wf_def laws)
qed

lemmas metadata_page_laws = struct_codec_laws [OF metadata_page_codec]

lemma allocation_page_codec:
  assumes "ext_ok E"
  shows "struct_codec (allocation_page_of E) (allocation_page_bytes E) allocation_page_wf 72"
proof
  note laws = ext_laws [OF assms]
  show "allocation_page_wf r \<Longrightarrow> length (allocation_page_bytes E r) = 72" for r
    by (simp add: allocation_page_bytes_def allocation_page_wf_def laws)
  show "allocation_page_wf r \<Longrightarrow> allocation_page_of E (allocation_page_bytes E r) = r" for r
    by (simp add: allocation_page_of_def allocation_page_bytes_def allocation_page_wf_def laws buffer_simps)
  show "length bs = 72 \<Longrightarrow> allocation_page_bytes E (allocation_page_of E bs) = bs" for bs
    by (simp add: allocation_page_of_def allocation_page_bytes_def laws get_join get_whole)
  show "length bs = 72 \<Longrightarrow> allocation_page_wf (allocation_page_of E bs)" for bs
    by (simp add: allocation_page_of_def allocation_page_wf_def laws)
qed

lemmas allocation_page_laws = struct_codec_laws [OF allocation_page_codec]

lemma directory_payload_codec:
  assumes "ext_ok E"
  shows "struct_codec (directory_payload_of E) (directory_payload_bytes E) directory_payload_wf 144"
proof
  note laws = ext_laws [OF assms] attributes_laws [OF assms] posix_compat_laws [OF assms]
  show "directory_payload_wf r \<Longrightarrow> length (directory_payload_bytes E r) = 144" for r
    by (simp add: directory_payload_bytes_def directory_payload_wf_def laws)
  show "directory_payload_wf r \<Longrightarrow> directory_payload_of E (directory_payload_bytes E r) = r" for r
    by (simp add: directory_payload_of_def directory_payload_bytes_def directory_payload_wf_def laws buffer_simps)
  show "length bs = 144 \<Longrightarrow> directory_payload_bytes E (directory_payload_of E bs) = bs" for bs
    by (simp add: directory_payload_of_def directory_payload_bytes_def laws get_join get_whole)
  show "length bs = 144 \<Longrightarrow> directory_payload_wf (directory_payload_of E bs)" for bs
    by (simp add: directory_payload_of_def directory_payload_wf_def laws)
qed

lemmas directory_payload_laws = struct_codec_laws [OF directory_payload_codec]

lemma symlink_payload_codec:
  assumes "ext_ok E"
  shows "struct_codec (symlink_payload_of E) (symlink_payload_bytes E) symlink_payload_wf 144"
proof
  note laws = ext_laws [OF assms] attributes_laws [OF assms] posix_compat_laws [OF assms]
  show "symlink_payload_wf r \<Longrightarrow> length (symlink_payload_bytes E r) = 144" for r
    by (simp add: symlink_payload_bytes_def symlink_payload_wf_def laws)
  show "symlink_payload_wf r \<Longrightarrow> symlink_payload_of E (symlink_payload_bytes E r) = r" for r
    by (simp add: symlink_payload_of_def symlink_payload_bytes_def symlink_payload_wf_def laws buffer_simps)
  show "length bs = 144 \<Longrightarrow> symlink_payload_bytes E (symlink_payload_of E bs) = bs" for bs
    by (simp add: symlink_payload_of_def symlink_payload_bytes_def laws get_join get_whole)
  show "length bs = 144 \<Longrightarrow> symlink_payload_wf (symlink_payload_of E bs)" for bs
    by (simp add: symlink_payload_of_def symlink_payload_wf_def laws)
qed

lemmas symlink_payload_laws = struct_codec_laws [OF symlink_payload_codec]

lemma extent_codec:
  assumes "ext_ok E"
  shows "struct_codec (extent_of E) (extent_bytes E) extent_wf 24"
proof
  note laws = ext_laws [OF assms]
  show "extent_wf r \<Longrightarrow> length (extent_bytes E r) = 24" for r
    by (simp add: extent_bytes_def extent_wf_def laws)
  show "extent_wf r \<Longrightarrow> extent_of E (extent_bytes E r) = r" for r
    by (simp add: extent_of_def extent_bytes_def extent_wf_def laws buffer_simps)
  show "length bs = 24 \<Longrightarrow> extent_bytes E (extent_of E bs) = bs" for bs
    by (simp add: extent_of_def extent_bytes_def laws get_join get_whole)
  show "length bs = 24 \<Longrightarrow> extent_wf (extent_of E bs)" for bs
    by (simp add: extent_of_def extent_wf_def laws)
qed

lemmas extent_laws = struct_codec_laws [OF extent_codec]

lemma principal_payload_codec:
  assumes "ext_ok E"
  shows "struct_codec (principal_payload_of E) (principal_payload_bytes E) principal_payload_wf 16"
proof
  note laws = ext_laws [OF assms]
  show "principal_payload_wf r \<Longrightarrow> length (principal_payload_bytes E r) = 16" for r
    by (simp add: principal_payload_bytes_def principal_payload_wf_def laws)
  show "principal_payload_wf r \<Longrightarrow> principal_payload_of E (principal_payload_bytes E r) = r" for r
    by (simp add: principal_payload_of_def principal_payload_bytes_def principal_payload_wf_def laws buffer_simps)
  show "length bs = 16 \<Longrightarrow> principal_payload_bytes E (principal_payload_of E bs) = bs" for bs
    by (simp add: principal_payload_of_def principal_payload_bytes_def laws get_join get_whole)
  show "length bs = 16 \<Longrightarrow> principal_payload_wf (principal_payload_of E bs)" for bs
    by (simp add: principal_payload_of_def principal_payload_wf_def laws)
qed

lemmas principal_payload_laws = struct_codec_laws [OF principal_payload_codec]

lemma security_binding_codec:
  assumes "ext_ok E"
  shows "struct_codec (security_binding_of E) (security_binding_bytes E) security_binding_wf 76"
proof
  note laws = ext_laws [OF assms]
  show "security_binding_wf r \<Longrightarrow> length (security_binding_bytes E r) = 76" for r
    by (simp add: security_binding_bytes_def security_binding_wf_def laws)
  show "security_binding_wf r \<Longrightarrow> security_binding_of E (security_binding_bytes E r) = r" for r
    by (simp add: security_binding_of_def security_binding_bytes_def security_binding_wf_def laws buffer_simps)
  show "length bs = 76 \<Longrightarrow> security_binding_bytes E (security_binding_of E bs) = bs" for bs
    by (simp add: security_binding_of_def security_binding_bytes_def laws get_join get_whole)
  show "length bs = 76 \<Longrightarrow> security_binding_wf (security_binding_of E bs)" for bs
    by (simp add: security_binding_of_def security_binding_wf_def laws)
qed

lemmas security_binding_laws = struct_codec_laws [OF security_binding_codec]

lemma security_payload_codec:
  assumes "ext_ok E"
  shows "struct_codec (security_payload_of E) (security_payload_bytes E) security_payload_wf 80"
proof
  note laws = ext_laws [OF assms]
  show "security_payload_wf r \<Longrightarrow> length (security_payload_bytes E r) = 80" for r
    by (simp add: security_payload_bytes_def security_payload_wf_def laws)
  show "security_payload_wf r \<Longrightarrow> security_payload_of E (security_payload_bytes E r) = r" for r
    by (simp add: security_payload_of_def security_payload_bytes_def security_payload_wf_def laws buffer_simps)
  show "length bs = 80 \<Longrightarrow> security_payload_bytes E (security_payload_of E bs) = bs" for bs
    by (simp add: security_payload_of_def security_payload_bytes_def laws get_join get_whole)
  show "length bs = 80 \<Longrightarrow> security_payload_wf (security_payload_of E bs)" for bs
    by (simp add: security_payload_of_def security_payload_wf_def laws)
qed

lemmas security_payload_laws = struct_codec_laws [OF security_payload_codec]

lemma security_binding_index_payload_codec:
  assumes "ext_ok E"
  shows "struct_codec (security_binding_index_payload_of E) (security_binding_index_payload_bytes E) security_binding_index_payload_wf 128"
proof
  note laws = ext_laws [OF assms]
  show "security_binding_index_payload_wf r \<Longrightarrow> length (security_binding_index_payload_bytes E r) = 128" for r
    by (simp add: security_binding_index_payload_bytes_def security_binding_index_payload_wf_def laws)
  show "security_binding_index_payload_wf r \<Longrightarrow> security_binding_index_payload_of E (security_binding_index_payload_bytes E r) = r" for r
    by (simp add: security_binding_index_payload_of_def security_binding_index_payload_bytes_def security_binding_index_payload_wf_def laws buffer_simps)
  show "length bs = 128 \<Longrightarrow> security_binding_index_payload_bytes E (security_binding_index_payload_of E bs) = bs" for bs
    by (simp add: security_binding_index_payload_of_def security_binding_index_payload_bytes_def laws get_join get_whole)
  show "length bs = 128 \<Longrightarrow> security_binding_index_payload_wf (security_binding_index_payload_of E bs)" for bs
    by (simp add: security_binding_index_payload_of_def security_binding_index_payload_wf_def laws)
qed

lemmas security_binding_index_payload_laws = struct_codec_laws [OF security_binding_index_payload_codec]

lemma security_ace_codec:
  assumes "ext_ok E"
  shows "struct_codec (security_ace_of E) (security_ace_bytes E) security_ace_wf 32"
proof
  note laws = ext_laws [OF assms]
  show "security_ace_wf r \<Longrightarrow> length (security_ace_bytes E r) = 32" for r
    by (simp add: security_ace_bytes_def security_ace_wf_def laws)
  show "security_ace_wf r \<Longrightarrow> security_ace_of E (security_ace_bytes E r) = r" for r
    by (simp add: security_ace_of_def security_ace_bytes_def security_ace_wf_def laws buffer_simps)
  show "length bs = 32 \<Longrightarrow> security_ace_bytes E (security_ace_of E bs) = bs" for bs
    by (simp add: security_ace_of_def security_ace_bytes_def laws get_join get_whole)
  show "length bs = 32 \<Longrightarrow> security_ace_wf (security_ace_of E bs)" for bs
    by (simp add: security_ace_of_def security_ace_wf_def laws)
qed

lemmas security_ace_laws = struct_codec_laws [OF security_ace_codec]

lemma extension_payload_codec:
  assumes "ext_ok E"
  shows "struct_codec (extension_payload_of E) (extension_payload_bytes E) extension_payload_wf 64"
proof
  note laws = ext_laws [OF assms]
  show "extension_payload_wf r \<Longrightarrow> length (extension_payload_bytes E r) = 64" for r
    by (simp add: extension_payload_bytes_def extension_payload_wf_def laws)
  show "extension_payload_wf r \<Longrightarrow> extension_payload_of E (extension_payload_bytes E r) = r" for r
    by (simp add: extension_payload_of_def extension_payload_bytes_def extension_payload_wf_def laws buffer_simps)
  show "length bs = 64 \<Longrightarrow> extension_payload_bytes E (extension_payload_of E bs) = bs" for bs
    by (simp add: extension_payload_of_def extension_payload_bytes_def laws get_join get_whole)
  show "length bs = 64 \<Longrightarrow> extension_payload_wf (extension_payload_of E bs)" for bs
    by (simp add: extension_payload_of_def extension_payload_wf_def laws)
qed

lemmas extension_payload_laws = struct_codec_laws [OF extension_payload_codec]

lemma metadata_set_payload_codec:
  assumes "ext_ok E"
  shows "struct_codec (metadata_set_payload_of E) (metadata_set_payload_bytes E) metadata_set_payload_wf 32"
proof
  note laws = ext_laws [OF assms]
  show "metadata_set_payload_wf r \<Longrightarrow> length (metadata_set_payload_bytes E r) = 32" for r
    by (simp add: metadata_set_payload_bytes_def metadata_set_payload_wf_def laws)
  show "metadata_set_payload_wf r \<Longrightarrow> metadata_set_payload_of E (metadata_set_payload_bytes E r) = r" for r
    by (simp add: metadata_set_payload_of_def metadata_set_payload_bytes_def metadata_set_payload_wf_def laws buffer_simps)
  show "length bs = 32 \<Longrightarrow> metadata_set_payload_bytes E (metadata_set_payload_of E bs) = bs" for bs
    by (simp add: metadata_set_payload_of_def metadata_set_payload_bytes_def laws get_join get_whole)
  show "length bs = 32 \<Longrightarrow> metadata_set_payload_wf (metadata_set_payload_of E bs)" for bs
    by (simp add: metadata_set_payload_of_def metadata_set_payload_wf_def laws)
qed

lemmas metadata_set_payload_laws = struct_codec_laws [OF metadata_set_payload_codec]

lemma metadata_stream_entry_codec:
  assumes "ext_ok E"
  shows "struct_codec (metadata_stream_entry_of E) (metadata_stream_entry_bytes E) metadata_stream_entry_wf 24"
proof
  note laws = ext_laws [OF assms]
  show "metadata_stream_entry_wf r \<Longrightarrow> length (metadata_stream_entry_bytes E r) = 24" for r
    by (simp add: metadata_stream_entry_bytes_def metadata_stream_entry_wf_def laws)
  show "metadata_stream_entry_wf r \<Longrightarrow> metadata_stream_entry_of E (metadata_stream_entry_bytes E r) = r" for r
    by (simp add: metadata_stream_entry_of_def metadata_stream_entry_bytes_def metadata_stream_entry_wf_def laws buffer_simps)
  show "length bs = 24 \<Longrightarrow> metadata_stream_entry_bytes E (metadata_stream_entry_of E bs) = bs" for bs
    by (simp add: metadata_stream_entry_of_def metadata_stream_entry_bytes_def laws get_join get_whole)
  show "length bs = 24 \<Longrightarrow> metadata_stream_entry_wf (metadata_stream_entry_of E bs)" for bs
    by (simp add: metadata_stream_entry_of_def metadata_stream_entry_wf_def laws)
qed

lemmas metadata_stream_entry_laws = struct_codec_laws [OF metadata_stream_entry_codec]

lemma index_payload_codec:
  assumes "ext_ok E"
  shows "struct_codec (index_payload_of E) (index_payload_bytes E) index_payload_wf 8"
proof
  note laws = ext_laws [OF assms]
  show "index_payload_wf r \<Longrightarrow> length (index_payload_bytes E r) = 8" for r
    by (simp add: index_payload_bytes_def index_payload_wf_def laws)
  show "index_payload_wf r \<Longrightarrow> index_payload_of E (index_payload_bytes E r) = r" for r
    by (simp add: index_payload_of_def index_payload_bytes_def index_payload_wf_def laws buffer_simps)
  show "length bs = 8 \<Longrightarrow> index_payload_bytes E (index_payload_of E bs) = bs" for bs
    by (simp add: index_payload_of_def index_payload_bytes_def laws get_join get_whole)
  show "length bs = 8 \<Longrightarrow> index_payload_wf (index_payload_of E bs)" for bs
    by (simp add: index_payload_of_def index_payload_wf_def laws)
qed

lemmas index_payload_laws = struct_codec_laws [OF index_payload_codec]

lemma index_entry_codec:
  assumes "ext_ok E"
  shows "struct_codec (index_entry_of E) (index_entry_bytes E) index_entry_wf 32"
proof
  note laws = ext_laws [OF assms]
  show "index_entry_wf r \<Longrightarrow> length (index_entry_bytes E r) = 32" for r
    by (simp add: index_entry_bytes_def index_entry_wf_def laws)
  show "index_entry_wf r \<Longrightarrow> index_entry_of E (index_entry_bytes E r) = r" for r
    by (simp add: index_entry_of_def index_entry_bytes_def index_entry_wf_def laws buffer_simps)
  show "length bs = 32 \<Longrightarrow> index_entry_bytes E (index_entry_of E bs) = bs" for bs
    by (simp add: index_entry_of_def index_entry_bytes_def laws get_join get_whole)
  show "length bs = 32 \<Longrightarrow> index_entry_wf (index_entry_of E bs)" for bs
    by (simp add: index_entry_of_def index_entry_wf_def laws)
qed

lemmas index_entry_laws = struct_codec_laws [OF index_entry_codec]

lemma snapshot_catalog_payload_codec:
  assumes "ext_ok E"
  shows "struct_codec (snapshot_catalog_payload_of E) (snapshot_catalog_payload_bytes E) snapshot_catalog_payload_wf 8"
proof
  note laws = ext_laws [OF assms]
  show "snapshot_catalog_payload_wf r \<Longrightarrow> length (snapshot_catalog_payload_bytes E r) = 8" for r
    by (simp add: snapshot_catalog_payload_bytes_def snapshot_catalog_payload_wf_def laws)
  show "snapshot_catalog_payload_wf r \<Longrightarrow> snapshot_catalog_payload_of E (snapshot_catalog_payload_bytes E r) = r" for r
    by (simp add: snapshot_catalog_payload_of_def snapshot_catalog_payload_bytes_def snapshot_catalog_payload_wf_def laws buffer_simps)
  show "length bs = 8 \<Longrightarrow> snapshot_catalog_payload_bytes E (snapshot_catalog_payload_of E bs) = bs" for bs
    by (simp add: snapshot_catalog_payload_of_def snapshot_catalog_payload_bytes_def laws get_join get_whole)
  show "length bs = 8 \<Longrightarrow> snapshot_catalog_payload_wf (snapshot_catalog_payload_of E bs)" for bs
    by (simp add: snapshot_catalog_payload_of_def snapshot_catalog_payload_wf_def laws)
qed

lemmas snapshot_catalog_payload_laws = struct_codec_laws [OF snapshot_catalog_payload_codec]

section \<open>The structures over a concrete library\<close>

interpretation le_timestamp: struct_codec "timestamp_of le_lib" "timestamp_bytes le_lib" timestamp_wf 16
  by (rule timestamp_codec) simp

interpretation le_attributes: struct_codec "attributes_of le_lib" "attributes_bytes le_lib" attributes_wf 120
  by (rule attributes_codec) simp

interpretation le_posix_compat: struct_codec "posix_compat_of le_lib" "posix_compat_bytes le_lib" posix_compat_wf 16
  by (rule posix_compat_codec) simp

interpretation le_superblock: struct_codec "superblock_of le_lib" "superblock_bytes le_lib" superblock_wf 252
  by (rule superblock_codec) simp

interpretation le_object_header: struct_codec "object_header_of le_lib" "object_header_bytes le_lib" object_header_wf 96
  by (rule object_header_codec) simp

interpretation le_metadata_page: struct_codec "metadata_page_of le_lib" "metadata_page_bytes le_lib" metadata_page_wf 80
  by (rule metadata_page_codec) simp

interpretation le_allocation_page: struct_codec "allocation_page_of le_lib" "allocation_page_bytes le_lib" allocation_page_wf 72
  by (rule allocation_page_codec) simp

interpretation le_directory_payload: struct_codec "directory_payload_of le_lib" "directory_payload_bytes le_lib" directory_payload_wf 144
  by (rule directory_payload_codec) simp

interpretation le_symlink_payload: struct_codec "symlink_payload_of le_lib" "symlink_payload_bytes le_lib" symlink_payload_wf 144
  by (rule symlink_payload_codec) simp

interpretation le_extent: struct_codec "extent_of le_lib" "extent_bytes le_lib" extent_wf 24
  by (rule extent_codec) simp

interpretation le_principal_payload: struct_codec "principal_payload_of le_lib" "principal_payload_bytes le_lib" principal_payload_wf 16
  by (rule principal_payload_codec) simp

interpretation le_security_binding: struct_codec "security_binding_of le_lib" "security_binding_bytes le_lib" security_binding_wf 76
  by (rule security_binding_codec) simp

interpretation le_security_payload: struct_codec "security_payload_of le_lib" "security_payload_bytes le_lib" security_payload_wf 80
  by (rule security_payload_codec) simp

interpretation le_security_binding_index_payload: struct_codec "security_binding_index_payload_of le_lib" "security_binding_index_payload_bytes le_lib" security_binding_index_payload_wf 128
  by (rule security_binding_index_payload_codec) simp

interpretation le_security_ace: struct_codec "security_ace_of le_lib" "security_ace_bytes le_lib" security_ace_wf 32
  by (rule security_ace_codec) simp

interpretation le_extension_payload: struct_codec "extension_payload_of le_lib" "extension_payload_bytes le_lib" extension_payload_wf 64
  by (rule extension_payload_codec) simp

interpretation le_metadata_set_payload: struct_codec "metadata_set_payload_of le_lib" "metadata_set_payload_bytes le_lib" metadata_set_payload_wf 32
  by (rule metadata_set_payload_codec) simp

interpretation le_metadata_stream_entry: struct_codec "metadata_stream_entry_of le_lib" "metadata_stream_entry_bytes le_lib" metadata_stream_entry_wf 24
  by (rule metadata_stream_entry_codec) simp

interpretation le_index_payload: struct_codec "index_payload_of le_lib" "index_payload_bytes le_lib" index_payload_wf 8
  by (rule index_payload_codec) simp

interpretation le_index_entry: struct_codec "index_entry_of le_lib" "index_entry_bytes le_lib" index_entry_wf 32
  by (rule index_entry_codec) simp

interpretation le_snapshot_catalog_payload: struct_codec "snapshot_catalog_payload_of le_lib" "snapshot_catalog_payload_bytes le_lib" snapshot_catalog_payload_wf 8
  by (rule snapshot_catalog_payload_codec) simp

end
