(* ===== verification/Checksum.thy ===== *)
theory Checksum
  imports Byte_Codec
begin

text \<open>
  The integrity primitives of \<open>src/src/checksum.c\<close>: the table-driven CRC64-ECMA that protects
  every metadata block, and the portable SHA-256 that protects file data.

  The lemmas show that the table computes polynomial division bit by bit
  (\<open>crc64_loop_eq_ref\<close>), that the checksum separates any two messages that differ
  inside a window of eight consecutive bytes (\<open>crc64_window\<close>), and that the streaming
  SHA-256 with its 128-byte tail buffer is the compression function folded over the padded
  message (\<open>sha256_scalar_eq_padded\<close>).
\<close>

section \<open>CRC64-ECMA\<close>

definition crc64_ecma_table :: "u64 list" where
  "crc64_ecma_table =
    [0x0000000000000000, 0x42F0E1EBA9EA3693, 0x85E1C3D753D46D26, 0xC711223CFA3E5BB5,
     0x493366450E42ECDF, 0x0BC387AEA7A8DA4C, 0xCCD2A5925D9681F9, 0x8E224479F47CB76A,
     0x9266CC8A1C85D9BE, 0xD0962D61B56FEF2D, 0x17870F5D4F51B498, 0x5577EEB6E6BB820B,
     0xDB55AACF12C73561, 0x99A54B24BB2D03F2, 0x5EB4691841135847, 0x1C4488F3E8F96ED4,
     0x663D78FF90E185EF, 0x24CD9914390BB37C, 0xE3DCBB28C335E8C9, 0xA12C5AC36ADFDE5A,
     0x2F0E1EBA9EA36930, 0x6DFEFF5137495FA3, 0xAAEFDD6DCD770416, 0xE81F3C86649D3285,
     0xF45BB4758C645C51, 0xB6AB559E258E6AC2, 0x71BA77A2DFB03177, 0x334A9649765A07E4,
     0xBD68D2308226B08E, 0xFF9833DB2BCC861D, 0x388911E7D1F2DDA8, 0x7A79F00C7818EB3B,
     0xCC7AF1FF21C30BDE, 0x8E8A101488293D4D, 0x499B3228721766F8, 0x0B6BD3C3DBFD506B,
     0x854997BA2F81E701, 0xC7B97651866BD192, 0x00A8546D7C558A27, 0x4258B586D5BFBCB4,
     0x5E1C3D753D46D260, 0x1CECDC9E94ACE4F3, 0xDBFDFEA26E92BF46, 0x990D1F49C77889D5,
     0x172F5B3033043EBF, 0x55DFBADB9AEE082C, 0x92CE98E760D05399, 0xD03E790CC93A650A,
     0xAA478900B1228E31, 0xE8B768EB18C8B8A2, 0x2FA64AD7E2F6E317, 0x6D56AB3C4B1CD584,
     0xE374EF45BF6062EE, 0xA1840EAE168A547D, 0x66952C92ECB40FC8, 0x2465CD79455E395B,
     0x3821458AADA7578F, 0x7AD1A461044D611C, 0xBDC0865DFE733AA9, 0xFF3067B657990C3A,
     0x711223CFA3E5BB50, 0x33E2C2240A0F8DC3, 0xF4F3E018F031D676, 0xB60301F359DBE0E5,
     0xDA050215EA6C212F, 0x98F5E3FE438617BC, 0x5FE4C1C2B9B84C09, 0x1D14202910527A9A,
     0x93366450E42ECDF0, 0xD1C685BB4DC4FB63, 0x16D7A787B7FAA0D6, 0x5427466C1E109645,
     0x4863CE9FF6E9F891, 0x0A932F745F03CE02, 0xCD820D48A53D95B7, 0x8F72ECA30CD7A324,
     0x0150A8DAF8AB144E, 0x43A04931514122DD, 0x84B16B0DAB7F7968, 0xC6418AE602954FFB,
     0xBC387AEA7A8DA4C0, 0xFEC89B01D3679253, 0x39D9B93D2959C9E6, 0x7B2958D680B3FF75,
     0xF50B1CAF74CF481F, 0xB7FBFD44DD257E8C, 0x70EADF78271B2539, 0x321A3E938EF113AA,
     0x2E5EB66066087D7E, 0x6CAE578BCFE24BED, 0xABBF75B735DC1058, 0xE94F945C9C3626CB,
     0x676DD025684A91A1, 0x259D31CEC1A0A732, 0xE28C13F23B9EFC87, 0xA07CF2199274CA14,
     0x167FF3EACBAF2AF1, 0x548F120162451C62, 0x939E303D987B47D7, 0xD16ED1D631917144,
     0x5F4C95AFC5EDC62E, 0x1DBC74446C07F0BD, 0xDAAD56789639AB08, 0x985DB7933FD39D9B,
     0x84193F60D72AF34F, 0xC6E9DE8B7EC0C5DC, 0x01F8FCB784FE9E69, 0x43081D5C2D14A8FA,
     0xCD2A5925D9681F90, 0x8FDAB8CE70822903, 0x48CB9AF28ABC72B6, 0x0A3B7B1923564425,
     0x70428B155B4EAF1E, 0x32B26AFEF2A4998D, 0xF5A348C2089AC238, 0xB753A929A170F4AB,
     0x3971ED50550C43C1, 0x7B810CBBFCE67552, 0xBC902E8706D82EE7, 0xFE60CF6CAF321874,
     0xE224479F47CB76A0, 0xA0D4A674EE214033, 0x67C58448141F1B86, 0x253565A3BDF52D15,
     0xAB1721DA49899A7F, 0xE9E7C031E063ACEC, 0x2EF6E20D1A5DF759, 0x6C0603E6B3B7C1CA,
     0xF6FAE5C07D3274CD, 0xB40A042BD4D8425E, 0x731B26172EE619EB, 0x31EBC7FC870C2F78,
     0xBFC9838573709812, 0xFD39626EDA9AAE81, 0x3A28405220A4F534, 0x78D8A1B9894EC3A7,
     0x649C294A61B7AD73, 0x266CC8A1C85D9BE0, 0xE17DEA9D3263C055, 0xA38D0B769B89F6C6,
     0x2DAF4F0F6FF541AC, 0x6F5FAEE4C61F773F, 0xA84E8CD83C212C8A, 0xEABE6D3395CB1A19,
     0x90C79D3FEDD3F122, 0xD2377CD44439C7B1, 0x15265EE8BE079C04, 0x57D6BF0317EDAA97,
     0xD9F4FB7AE3911DFD, 0x9B041A914A7B2B6E, 0x5C1538ADB04570DB, 0x1EE5D94619AF4648,
     0x02A151B5F156289C, 0x4051B05E58BC1E0F, 0x87409262A28245BA, 0xC5B073890B687329,
     0x4B9237F0FF14C443, 0x0962D61B56FEF2D0, 0xCE73F427ACC0A965, 0x8C8315CC052A9FF6,
     0x3A80143F5CF17F13, 0x7870F5D4F51B4980, 0xBF61D7E80F251235, 0xFD913603A6CF24A6,
     0x73B3727A52B393CC, 0x31439391FB59A55F, 0xF652B1AD0167FEEA, 0xB4A25046A88DC879,
     0xA8E6D8B54074A6AD, 0xEA16395EE99E903E, 0x2D071B6213A0CB8B, 0x6FF7FA89BA4AFD18,
     0xE1D5BEF04E364A72, 0xA3255F1BE7DC7CE1, 0x64347D271DE22754, 0x26C49CCCB40811C7,
     0x5CBD6CC0CC10FAFC, 0x1E4D8D2B65FACC6F, 0xD95CAF179FC497DA, 0x9BAC4EFC362EA149,
     0x158E0A85C2521623, 0x577EEB6E6BB820B0, 0x906FC95291867B05, 0xD29F28B9386C4D96,
     0xCEDBA04AD0952342, 0x8C2B41A1797F15D1, 0x4B3A639D83414E64, 0x09CA82762AAB78F7,
     0x87E8C60FDED7CF9D, 0xC51827E4773DF90E, 0x020905D88D03A2BB, 0x40F9E43324E99428,
     0x2CFFE7D5975E55E2, 0x6E0F063E3EB46371, 0xA91E2402C48A38C4, 0xEBEEC5E96D600E57,
     0x65CC8190991CB93D, 0x273C607B30F68FAE, 0xE02D4247CAC8D41B, 0xA2DDA3AC6322E288,
     0xBE992B5F8BDB8C5C, 0xFC69CAB42231BACF, 0x3B78E888D80FE17A, 0x7988096371E5D7E9,
     0xF7AA4D1A85996083, 0xB55AACF12C735610, 0x724B8ECDD64D0DA5, 0x30BB6F267FA73B36,
     0x4AC29F2A07BFD00D, 0x08327EC1AE55E69E, 0xCF235CFD546BBD2B, 0x8DD3BD16FD818BB8,
     0x03F1F96F09FD3CD2, 0x41011884A0170A41, 0x86103AB85A2951F4, 0xC4E0DB53F3C36767,
     0xD8A453A01B3A09B3, 0x9A54B24BB2D03F20, 0x5D45907748EE6495, 0x1FB5719CE1045206,
     0x919735E51578E56C, 0xD367D40EBC92D3FF, 0x1476F63246AC884A, 0x568617D9EF46BED9,
     0xE085162AB69D5E3C, 0xA275F7C11F7768AF, 0x6564D5FDE549331A, 0x279434164CA30589,
     0xA9B6706FB8DFB2E3, 0xEB46918411358470, 0x2C57B3B8EB0BDFC5, 0x6EA7525342E1E956,
     0x72E3DAA0AA188782, 0x30133B4B03F2B111, 0xF7021977F9CCEAA4, 0xB5F2F89C5026DC37,
     0x3BD0BCE5A45A6B5D, 0x79205D0E0DB05DCE, 0xBE317F32F78E067B, 0xFCC19ED95E6430E8,
     0x86B86ED5267CDBD3, 0xC4488F3E8F96ED40, 0x0359AD0275A8B6F5, 0x41A94CE9DC428066,
     0xCF8B0890283E370C, 0x8D7BE97B81D4019F, 0x4A6ACB477BEA5A2A, 0x089A2AACD2006CB9,
     0x14DEA25F3AF9026D, 0x562E43B4931334FE, 0x913F6188692D6F4B, 0xD3CF8063C0C759D8,
     0x5DEDC41A34BBEEB2, 0x1F1D25F19D51D821, 0xD80C07CD676F8394, 0x9AFCE626CE85B507]"

fun crc64_loop :: "u64 \<Rightarrow> bytes \<Rightarrow> u64" where
  "crc64_loop crc [] = crc"
| "crc64_loop crc (b # p) =
     (let index = (ucast (drop_bit 56 crc XOR ucast b) :: u8)
      in crc64_loop (crc64_ecma_table ! unat index XOR push_bit 8 crc) p)"

definition infs_crc64_ecma :: "bytes \<Rightarrow> u64" where
  "infs_crc64_ecma data = crc64_loop 0 data"

section \<open>SHA-256\<close>

definition rotr32 :: "u32 \<Rightarrow> nat \<Rightarrow> u32" where
  "rotr32 v n = drop_bit n v OR push_bit (32 - n) v"

definition sha256_k :: "u32 list" where
  "sha256_k = concat
     [[0x428a2f98, 0x71374491, 0xb5c0fbcf, 0xe9b5dba5],
      [0x3956c25b, 0x59f111f1, 0x923f82a4, 0xab1c5ed5],
      [0xd807aa98, 0x12835b01, 0x243185be, 0x550c7dc3],
      [0x72be5d74, 0x80deb1fe, 0x9bdc06a7, 0xc19bf174],
      [0xe49b69c1, 0xefbe4786, 0x0fc19dc6, 0x240ca1cc],
      [0x2de92c6f, 0x4a7484aa, 0x5cb0a9dc, 0x76f988da],
      [0x983e5152, 0xa831c66d, 0xb00327c8, 0xbf597fc7],
      [0xc6e00bf3, 0xd5a79147, 0x06ca6351, 0x14292967],
      [0x27b70a85, 0x2e1b2138, 0x4d2c6dfc, 0x53380d13],
      [0x650a7354, 0x766a0abb, 0x81c2c92e, 0x92722c85],
      [0xa2bfe8a1, 0xa81a664b, 0xc24b8b70, 0xc76c51a3],
      [0xd192e819, 0xd6990624, 0xf40e3585, 0x106aa070],
      [0x19a4c116, 0x1e376c08, 0x2748774c, 0x34b0bcb5],
      [0x391c0cb3, 0x4ed8aa4a, 0x5b9cca4f, 0x682e6ff3],
      [0x748f82ee, 0x78a5636f, 0x84c87814, 0x8cc70208],
      [0x90befffa, 0xa4506ceb, 0xbef9a3f7, 0xc67178f2]]"

type_synonym sha_regs = "u32 \<times> u32 \<times> u32 \<times> u32 \<times> u32 \<times> u32 \<times> u32 \<times> u32"

definition sha256_load :: "ext_lib \<Rightarrow> bytes \<Rightarrow> u32 list" where
  "sha256_load E block = map (\<lambda>i. be_ld32 E (get_bytes (i * 4) 4 block)) [0..<16]"

definition sha256_expand :: "u32 list \<Rightarrow> nat \<Rightarrow> u32 list" where
  "sha256_expand w i =
     (let s0 = rotr32 (w ! (i - 15)) 7 XOR rotr32 (w ! (i - 15)) 18 XOR drop_bit 3 (w ! (i - 15));
          s1 = rotr32 (w ! (i - 2)) 17 XOR rotr32 (w ! (i - 2)) 19 XOR drop_bit 10 (w ! (i - 2))
      in w @ [w ! (i - 16) + s0 + w ! (i - 7) + s1])"

fun sha256_round :: "u32 list \<Rightarrow> sha_regs \<Rightarrow> nat \<Rightarrow> sha_regs" where
  "sha256_round w (a, b, c, d, e, f, g, h) i =
     (let s1 = rotr32 e 6 XOR rotr32 e 11 XOR rotr32 e 25;
          ch = (e AND f) XOR (NOT e AND g);
          t1 = h + s1 + ch + sha256_k ! i + w ! i;
          s0 = rotr32 a 2 XOR rotr32 a 13 XOR rotr32 a 22;
          maj = (a AND b) XOR (a AND c) XOR (b AND c);
          t2 = s0 + maj
      in (t1 + t2, a, b, c, d + t1, e, f, g))"

fun sha256_add :: "sha_regs \<Rightarrow> sha_regs \<Rightarrow> sha_regs" where
  "sha256_add (s0, s1, s2, s3, s4, s5, s6, s7) (a, b, c, d, e, f, g, h) =
     (s0 + a, s1 + b, s2 + c, s3 + d, s4 + e, s5 + f, s6 + g, s7 + h)"

definition sha256_compress :: "ext_lib \<Rightarrow> sha_regs \<Rightarrow> bytes \<Rightarrow> sha_regs" where
  "sha256_compress E state block =
     (let w = foldl sha256_expand (sha256_load E block) [16..<64]
      in sha256_add state (foldl (sha256_round w) state [0..<64]))"

definition sha256_init :: sha_regs where
  "sha256_init = (0x6a09e667, 0xbb67ae85, 0x3c6ef372, 0xa54ff53a, 0x510e527f, 0x9b05688c, 0x1f83d9ab, 0x5be0cd19)"

function sha256_absorb :: "ext_lib \<Rightarrow> sha_regs \<Rightarrow> bytes \<Rightarrow> sha_regs \<times> bytes" where
  "sha256_absorb E state p =
     (if 64 \<le> length p then sha256_absorb E (sha256_compress E state (take 64 p)) (drop 64 p)
      else (state, p))"
  by pat_completeness auto
termination
  by (relation "measure (\<lambda>(E, state, p). length p)") auto

fun sha256_output :: "ext_lib \<Rightarrow> sha_regs \<Rightarrow> bytes" where
  "sha256_output E (a, b, c, d, e, f, g, h) =
     be_st32 E a @ be_st32 E b @ be_st32 E c @ be_st32 E d @
     be_st32 E e @ be_st32 E f @ be_st32 E g @ be_st32 E h"

definition infs_sha256_scalar :: "ext_lib \<Rightarrow> bytes \<Rightarrow> bytes" where
  "infs_sha256_scalar E data =
     (let (state, p) = sha256_absorb E sha256_init data;
          len = length p;
          tail = put_bytes 0 p (zeros 128);
          tail = put_bytes len [0x80] tail;
          padded = (if len < 56 then 64 else 128);
          bit_len = word_of_nat (length data) * 8;
          tail = put_bytes (padded - 8) (be_st64 E bit_len) tail;
          state = sha256_compress E state (get_bytes 0 64 tail);
          state = (if padded = 128 then sha256_compress E state (get_bytes 64 64 tail) else state)
      in sha256_output E state)"

text \<open>
  The three build variants of the accelerated path: \<open>None\<close> is the return value 0, \<open>Some\<close> the
  filled output buffer. \<open>ULONG_MAX\<close> is the 32-bit one of the Windows build.
\<close>

definition infs_sha256_accelerated :: "ext_lib \<Rightarrow> bytes \<Rightarrow> bytes option" where
  "infs_sha256_accelerated E data =
     (case sha256_lib E of
        BCrypt_Provider open_status hash \<Rightarrow>
          if length data > 0xFFFFFFFF then None
          else if open_status < 0 then None
          else let (status, out) = hash data in if status \<ge> 0 then Some out else None
      | OpenSSL_Provider digest \<Rightarrow>
          let (ret, produced, out) = digest data
          in if ret = 1 \<and> produced = 32 then Some out else None
      | No_Provider \<Rightarrow> None)"

text \<open>A null data pointer is \<open>None\<close>; the digest is what the (non-null) output buffer holds.\<close>

definition infs_sha256 :: "ext_lib \<Rightarrow> bytes option \<Rightarrow> nat \<Rightarrow> bytes" where
  "infs_sha256 E data len =
     (if data = None \<and> len \<noteq> 0 then zeros 32
      else
        let bs = (case data of None \<Rightarrow> [] | Some p \<Rightarrow> take len p)
        in case infs_sha256_accelerated E bs of
             Some out \<Rightarrow> out
           | None \<Rightarrow> infs_sha256_scalar E bs)"

declare sha256_absorb.simps [simp del]

section \<open>Reference definitions\<close>

text \<open>Polynomial division by the ECMA-182 generator, one bit at a time.\<close>

definition crc64_bit :: "u64 \<Rightarrow> u64" where
  "crc64_bit c = (if bit c 63 then push_bit 1 c XOR 0x42F0E1EBA9EA3693 else push_bit 1 c)"

definition crc64_byte :: "u64 \<Rightarrow> u64" where
  "crc64_byte c = (crc64_bit ^^ 8) c"

fun crc64_ref :: "u64 \<Rightarrow> bytes \<Rightarrow> u64" where
  "crc64_ref crc [] = crc"
| "crc64_ref crc (b # p) = crc64_ref (crc64_byte (crc XOR push_bit 56 (ucast b))) p"

text \<open>FIPS 180-4 padding, and the compression function folded over 64-byte chunks.\<close>

definition sha256_pad :: "ext_lib \<Rightarrow> bytes \<Rightarrow> bytes" where
  "sha256_pad E data =
     data @ [0x80] @ zeros ((119 - length data mod 64) mod 64) @
     be_st64 E (word_of_nat (length data) * 8)"

function sha256_fold :: "ext_lib \<Rightarrow> sha_regs \<Rightarrow> bytes \<Rightarrow> sha_regs" where
  "sha256_fold E state p =
     (if p = [] then state
      else sha256_fold E (sha256_compress E state (take 64 p)) (drop 64 p))"
  by pat_completeness auto
termination
  by (relation "measure (\<lambda>(E, state, p). length p)") auto

declare sha256_fold.simps [simp del]

section \<open>Reference definitions and examples\<close>

text \<open>
  The division is linear, so the two runs differ by a run over the difference of the
  messages. From a zero difference, at most eight difference bytes act like one initial
  64-bit word (\<open>window_word\<close>), and a byte step loses no information.
\<close>

fun window_word :: "bytes \<Rightarrow> u64" where
  "window_word [] = 0"
| "window_word (b # bs) = push_bit 56 (ucast b) XOR drop_bit 8 (window_word bs)"

section \<open>The table computes polynomial division\<close>

lemma crc64_bit_xor: "crc64_bit (a XOR b) = crc64_bit a XOR crc64_bit b"
  unfolding crc64_bit_def by (simp only: bit_xor_iff push_bit_xor) (auto simp: ac_simps)

lemma crc64_bit_zero_iff: "crc64_bit c = 0 \<longleftrightarrow> c = 0"
proof
  assume z: "crc64_bit c = 0"
  have nb: "\<not> bit c 63"
  proof
    assume "bit c 63"
    then have "bit (crc64_bit c) 0"
      unfolding crc64_bit_def by (simp only: bit_xor_iff bit_push_bit_iff if_True) simp
    with z show False by simp
  qed
  show "c = 0"
  proof (rule bit_word_eqI)
    fix n assume n: "n < LENGTH(64)"
    show "bit c n = bit (0 :: u64) n"
    proof (cases "n = 63")
      case True
      then show ?thesis using nb by simp
    next
      case False
      then have "bit c n = bit (crc64_bit c) (Suc n)"
        using n nb unfolding crc64_bit_def by (simp only: bit_push_bit_iff if_False) simp
      then show ?thesis using z by simp
    qed
  qed
qed (simp add: crc64_bit_def)

lemma crc64_pow_xor: "(crc64_bit ^^ k) (a XOR b) = (crc64_bit ^^ k) a XOR (crc64_bit ^^ k) b"
  by (induction k) (simp_all add: crc64_bit_xor)

lemma crc64_pow_zero_iff: "(crc64_bit ^^ k) c = 0 \<longleftrightarrow> c = 0"
  by (induction k) (simp_all add: crc64_bit_zero_iff)

lemma crc64_byte_xor: "crc64_byte (a XOR b) = crc64_byte a XOR crc64_byte b"
  by (simp add: crc64_byte_def crc64_pow_xor)

lemma crc64_byte_zero_iff: "crc64_byte c = 0 \<longleftrightarrow> c = 0"
  by (simp add: crc64_byte_def crc64_pow_zero_iff)

lemma crc64_pow_shift:
  "k \<le> 64 \<Longrightarrow> (\<And>n. 64 - k \<le> n \<Longrightarrow> \<not> bit c n) \<Longrightarrow> (crc64_bit ^^ k) c = push_bit k c"
proof (induction k)
  case 0
  then show ?case by simp
next
  case (Suc k)
  have "(crc64_bit ^^ k) c = push_bit k c"
    using Suc.prems by (intro Suc.IH) auto
  moreover have "\<not> bit (push_bit k c) 63"
    using Suc.prems by (simp add: bit_push_bit_iff)
  ultimately have "(crc64_bit ^^ Suc k) c = push_bit 1 (push_bit k c)"
    by (simp only: funpow.simps o_apply crc64_bit_def if_False)
  then show ?case by (simp only: push_bit_push_bit plus_1_eq_Suc)
qed

lemma crc64_byte_shift: "(\<And>n. 56 \<le> n \<Longrightarrow> \<not> bit c n) \<Longrightarrow> crc64_byte c = push_bit 8 c"
  by (simp add: crc64_byte_def crc64_pow_shift)

lemma crc64_table_doubling:
  "crc64_ecma_table =
     concat (map (\<lambda>t. [crc64_bit t, crc64_bit t XOR 0x42F0E1EBA9EA3693]) (take 128 crc64_ecma_table))"
  by (simp add: crc64_bit_def crc64_ecma_table_def)

lemma nth_concat_pairs:
  "i < length xs \<Longrightarrow> concat (map (\<lambda>t. [f t, g t]) xs) ! (2 * i) = f (xs ! i) \<and>
                    concat (map (\<lambda>t. [f t, g t]) xs) ! Suc (2 * i) = g (xs ! i)"
proof (induction xs arbitrary: i)
  case Nil
  then show ?case by simp
next
  case (Cons x xs)
  then show ?case by (cases i) auto
qed

lemma crc64_table_even_odd:
  assumes "i < 128"
  shows "crc64_ecma_table ! (2 * i) = crc64_bit (crc64_ecma_table ! i)"
    and "crc64_ecma_table ! Suc (2 * i) = crc64_bit (crc64_ecma_table ! i) XOR 0x42F0E1EBA9EA3693"
proof -
  have "length crc64_ecma_table = 256" by (simp add: crc64_ecma_table_def)
  then have "i < length (take 128 crc64_ecma_table)" using assms by simp
  from nth_concat_pairs [OF this, of crc64_bit "\<lambda>t. crc64_bit t XOR 0x42F0E1EBA9EA3693"]
  show "crc64_ecma_table ! (2 * i) = crc64_bit (crc64_ecma_table ! i)"
    and "crc64_ecma_table ! Suc (2 * i) = crc64_bit (crc64_ecma_table ! i) XOR 0x42F0E1EBA9EA3693"
    using assms unfolding crc64_table_doubling [symmetric] by simp_all
qed

lemma crc64_byte_bit: "crc64_byte (crc64_bit x) = crc64_bit (crc64_byte x)"
  by (simp add: crc64_byte_def funpow_swap1)

lemma crc64_byte_one: "crc64_byte (push_bit 56 1) = 0x42F0E1EBA9EA3693"
proof -
  have e: "(8 :: nat) = Suc (Suc (Suc (Suc (Suc (Suc (Suc (Suc 0)))))))" by simp
  show ?thesis
    unfolding crc64_byte_def e funpow.simps o_apply id_apply by (simp add: crc64_bit_def)
qed

lemma crc64_top_even:
  assumes "i < 128"
  shows "crc64_byte (push_bit 56 (word_of_nat (2 * i))) =
         crc64_bit (crc64_byte (push_bit 56 (word_of_nat i)))"
proof -
  let ?x = "push_bit 56 (word_of_nat i) :: u64"
  have "\<not> bit i 7" using assms by (simp add: bit_iff_odd)
  then have "\<not> bit (word_of_nat i :: u64) 7" by (simp add: bit_of_nat_iff)
  then have "crc64_bit ?x = push_bit 1 ?x"
    unfolding crc64_bit_def by (simp only: bit_push_bit_iff) simp
  also have "\<dots> = push_bit 56 (word_of_nat (2 * i))"
    by (simp add: mult.commute push_bit_eq_mult)
  finally show ?thesis by (metis crc64_byte_bit)
qed

lemma crc64_top_odd:
  "crc64_byte (push_bit 56 (word_of_nat (Suc (2 * i)))) =
   crc64_byte (push_bit 56 (word_of_nat (2 * i))) XOR 0x42F0E1EBA9EA3693"
proof -
  have "(word_of_nat (Suc (2 * i)) :: u64) = word_of_nat (2 * i) XOR 1"
    by (simp add: xor_one_eq)
  then show ?thesis
    by (simp only: push_bit_xor crc64_byte_xor crc64_byte_one)
qed

lemma crc64_table_top:
  "i < 256 \<Longrightarrow> crc64_ecma_table ! i = crc64_byte (push_bit 56 (word_of_nat i))"
proof (induction i rule: less_induct)
  case (less i)
  show ?case
  proof (cases "i = 0")
    case True
    then show ?thesis by (simp add: crc64_ecma_table_def crc64_byte_zero_iff)
  next
    case False
    define j where "j = i div 2"
    have j: "j < i" "j < 128" using False less.prems by (auto simp: j_def)
    have IH: "crc64_ecma_table ! j = crc64_byte (push_bit 56 (word_of_nat j))"
      using j by (intro less.IH) auto
    have "i = 2 * j \<or> i = Suc (2 * j)" by (auto simp: j_def)
    then show ?thesis
      using crc64_table_even_odd [OF j(2)] crc64_top_even [OF j(2)] crc64_top_odd [of j] IH
      by (elim disjE) simp_all
  qed
qed

lemma crc64_table_nth:
  "crc64_ecma_table ! unat (i :: u8) = crc64_byte (push_bit 56 (ucast i))"
proof -
  have "unat i < 256" using unsigned_less [of i] by simp
  then show ?thesis by (simp add: crc64_table_top)
qed

lemma split_top_byte: "c = push_bit 56 (ucast (ucast (drop_bit 56 c) :: u8)) XOR take_bit 56 (c :: u64)"
  by (rule bit_word_eqI) (auto simp: bit_xor_iff bit_push_bit_iff bit_take_bit_iff bit_ucast_iff bit_drop_bit_eq)

text \<open>One table step is eight steps of the division.\<close>

lemma crc64_table_step:
  "crc64_ecma_table ! unat (ucast (drop_bit 56 crc XOR ucast b) :: u8) XOR push_bit 8 crc =
   crc64_byte (crc XOR push_bit 56 (ucast (b :: u8)))"
proof -
  let ?i = "ucast (drop_bit 56 crc XOR ucast b) :: u8"
  have i: "push_bit 56 (ucast ?i) = push_bit 56 (ucast (ucast (drop_bit 56 crc) :: u8)) XOR
           (push_bit 56 (ucast b) :: u64)"
    by (rule bit_word_eqI) (auto simp: bit_xor_iff bit_push_bit_iff bit_ucast_iff bit_drop_bit_eq)
  have low: "crc64_byte (take_bit 56 crc) = push_bit 8 crc"
  proof -
    have "crc64_byte (take_bit 56 crc) = push_bit 8 (take_bit 56 crc)"
      by (rule crc64_byte_shift) (simp add: bit_take_bit_iff)
    also have "\<dots> = push_bit 8 crc"
      by (rule bit_word_eqI) (auto simp: bit_push_bit_iff bit_take_bit_iff)
    finally show ?thesis .
  qed
  have "crc XOR push_bit 56 (ucast b) = push_bit 56 (ucast ?i) XOR take_bit 56 crc"
    unfolding i by (subst (1) split_top_byte [of crc]) (simp only: xor.assoc xor.commute [of "take_bit 56 crc"])
  then show ?thesis by (simp add: crc64_byte_xor low crc64_table_nth)
qed

lemma crc64_loop_eq_ref: "crc64_loop crc p = crc64_ref crc p"
  by (induction p arbitrary: crc) (simp_all add: crc64_table_step)

section \<open>Any damage inside eight consecutive bytes changes the checksum\<close>

lemma xor_interchange: "(a XOR b) XOR (c XOR d) = (a XOR c) XOR (b XOR (d :: 'w::len word))"
  by (simp add: ac_simps)

lemma crc64_ref_diff:
  "length x = length y \<Longrightarrow>
   crc64_ref s x XOR crc64_ref t y = crc64_ref (s XOR t) (map2 (XOR) x y)"
proof (induction x y arbitrary: s t rule: list_induct2)
  case Nil
  then show ?case by simp
next
  case (Cons b x c y)
  have p: "(push_bit 56 (ucast (b XOR c)) :: u64) = push_bit 56 (ucast b) XOR push_bit 56 (ucast c)"
    by (rule bit_word_eqI) (auto simp: bit_xor_iff bit_push_bit_iff bit_ucast_iff)
  have "crc64_byte (s XOR push_bit 56 (ucast b)) XOR crc64_byte (t XOR push_bit 56 (ucast c)) =
        crc64_byte ((s XOR t) XOR push_bit 56 (ucast (b XOR c)))"
    unfolding crc64_byte_xor [symmetric] p by (simp only: xor_interchange)
  then show ?case by (simp add: Cons.IH)
qed

lemma crc64_ref_append: "crc64_ref s (x @ y) = crc64_ref (crc64_ref s x) y"
  by (induction x arbitrary: s) simp_all

lemma crc64_ref_zeros: "crc64_ref s (zeros n) = 0 \<longleftrightarrow> s = 0"
  by (induction n arbitrary: s) (simp_all add: zeros_def crc64_byte_zero_iff)

lemma map2_xor_self: "map2 (XOR) x x = zeros (length (x :: bytes))"
  by (induction x) (simp_all add: zeros_def)

lemma bit_window_word:
  "bit (window_word bs) n \<longleftrightarrow>
     n < 64 \<and> (63 - n) div 8 < length bs \<and> bit (bs ! ((63 - n) div 8)) (n mod 8)"
proof (induction bs arbitrary: n)
  case Nil
  then show ?case by simp
next
  case (Cons b bs)
  show ?case
  proof (cases "n < 64")
    case False
    then show ?thesis using bit_imp_le_length [of "window_word (b # bs)" n] by auto
  next
    case True
    show ?thesis
    proof (cases "56 \<le> n")
      case hi: True
      have "(63 - n) div 8 = 0" "n - 56 = n mod 8"
        using True hi by (auto simp: le_mod_geq)
      then show ?thesis
        using True hi Cons.IH [of "8 + n"] mod_less_divisor [of 8 n]
        by (auto simp: bit_xor_iff bit_push_bit_iff bit_ucast_iff bit_drop_bit_eq
            simp del: mod_less_divisor)
    next
      case lo: False
      have "(63 - n) div 8 = Suc ((63 - (8 + n)) div 8)"
        using lo by (simp add: le_div_geq Suc_diff_le)
      then show ?thesis
        using True lo Cons.IH [of "8 + n"]
        by (simp add: bit_xor_iff bit_push_bit_iff bit_drop_bit_eq)
    qed
  qed
qed

lemma window_index:
  assumes "i < 8" "j < 8"
  shows "8 * (7 - i) + j < 64 \<and> (63 - (8 * (7 - i) + j)) div 8 = i \<and> (8 * (7 - i) + j) mod 8 = (j :: nat)"
proof -
  define d where "d = 7 - j"
  have d: "j + d = 7" using assms(2) by (simp add: d_def)
  have "63 - (8 * (7 - i) + j) = 8 * i + d" using assms d by auto
  then show ?thesis using assms d by simp
qed
lemma window_word_zero:
  assumes "length bs \<le> 8" "window_word bs = 0"
  shows "bs = zeros (length bs)"
proof (rule nth_equalityI)
  fix i assume i: "i < length bs"
  show "bs ! i = zeros (length bs) ! i"
  proof (rule bit_word_eqI)
    fix j :: nat assume "j < LENGTH(8)"
    then have j: "j < 8" by simp
    let ?n = "8 * (7 - i) + j"
    have "?n < 64" "(63 - ?n) div 8 = i" "?n mod 8 = j"
      using window_index [of i j] i j assms(1) by auto
    then have "bit (bs ! i) j \<longleftrightarrow> bit (window_word bs) ?n"
      using i by (simp only: bit_window_word) simp
    then show "bit (bs ! i) j = bit (zeros (length bs) ! i) j"
      using assms(2) i by (simp add: zeros_def)
  qed
qed simp

lemma crc64_ref_window:
  "length e \<le> 8 \<Longrightarrow> crc64_ref s e = (crc64_byte ^^ length e) (s XOR window_word e)"
proof (induction e arbitrary: s)
  case Nil
  then show ?case by simp
next
  case (Cons b e)
  have top: "crc64_byte (drop_bit 8 (window_word e)) = window_word e"
  proof -
    have "crc64_byte (drop_bit 8 (window_word e)) = push_bit 8 (drop_bit 8 (window_word e))"
      by (rule crc64_byte_shift) (simp add: bit_drop_bit_eq bit_window_word)
    also have "\<dots> = window_word e"
    proof (rule bit_word_eqI)
      fix n :: nat assume n: "n < LENGTH(64)"
      have "n < 8 \<Longrightarrow> (63 - n) div 8 = 7" by (simp add: div_nat_eqI)
      then have "n < 8 \<Longrightarrow> \<not> bit (window_word e) n"
        using Cons.prems by (simp add: bit_window_word)
      then show "bit (push_bit 8 (drop_bit 8 (window_word e))) n = bit (window_word e) n"
        using n by (cases "n < 8") (auto simp: bit_push_bit_iff bit_drop_bit_eq)
    qed
    finally show ?thesis .
  qed
  have "crc64_byte (s XOR push_bit 56 (ucast b)) XOR window_word e =
        crc64_byte (s XOR window_word (b # e))"
    by (simp add: crc64_byte_xor top ac_simps)
  then show ?case using Cons by (simp add: funpow_swap1)
qed

lemma crc64_byte_pow_zero: "(crc64_byte ^^ k) c = 0 \<longleftrightarrow> c = 0"
  by (induction k) (simp_all add: crc64_byte_zero_iff)

lemma word_xor_zero_iff: "x XOR y = 0 \<longleftrightarrow> x = (y :: 'w::len word)"
proof
  assume "x XOR y = 0"
  then have "(x XOR y) XOR y = 0 XOR y" by simp
  then show "x = y" by (simp only: xor.assoc xor_self_eq xor.right_neutral xor.left_neutral)
qed simp

lemma map2_xor_zeros:
  "length x = length y \<Longrightarrow> map2 (XOR) x y = zeros (length x) \<longleftrightarrow> x = (y :: bytes)"
  by (induction x y rule: list_induct2) (simp_all add: zeros_def word_xor_zero_iff)

lemma crc64_window:
  assumes "length x = length y" "length x \<le> 8" "x \<noteq> y"
  shows "infs_crc64_ecma (pre @ x @ post) \<noteq> infs_crc64_ecma (pre @ y @ post)"
proof
  assume "infs_crc64_ecma (pre @ x @ post) = infs_crc64_ecma (pre @ y @ post)"
  moreover have len: "length (pre @ x @ post) = length (pre @ y @ post)" using assms(1) by simp
  ultimately have "crc64_ref 0 (map2 (XOR) (pre @ x @ post) (pre @ y @ post)) = 0"
    using crc64_ref_diff [OF len, of 0 0] by (simp add: infs_crc64_ecma_def crc64_loop_eq_ref)
  then have "crc64_ref (crc64_ref 0 (zeros (length pre))) (map2 (XOR) x y) = 0"
    using assms(1) by (simp add: zip_append map2_xor_self crc64_ref_append crc64_ref_zeros)
  then have "crc64_ref 0 (map2 (XOR) x y) = 0"
    using crc64_ref_zeros [of 0 "length pre"] by simp
  then have "window_word (map2 (XOR) x y) = 0"
    using assms(1,2) by (simp add: crc64_ref_window crc64_byte_pow_zero)
  then have "map2 (XOR) x y = zeros (length x)"
    using window_word_zero [of "map2 (XOR) x y"] assms(1,2) by simp
  with assms(1,3) map2_xor_zeros [OF assms(1)] show False by simp
qed

lemma crc64_agree_outside:
  assumes "agree_outside off n x y" "n \<le> 8" "x \<noteq> y"
  shows "infs_crc64_ecma x \<noteq> infs_crc64_ecma y"
proof -
  have split: "zs = take off zs @ get_bytes off n zs @ drop (off + n) zs" for zs :: bytes
    by (simp add: get_bytes_def add.commute flip: drop_drop)
  have "get_bytes off n x \<noteq> get_bytes off n y"
    using assms split [of x] split [of y] by (auto simp: agree_outside_def)
  moreover have "length (get_bytes off n x) = length (get_bytes off n y)"
    using assms(1) by (simp add: agree_outside_def)
  moreover have "length (get_bytes off n x) \<le> 8" using assms(2) by simp
  ultimately have "infs_crc64_ecma (take off x @ get_bytes off n x @ drop (off + n) x) \<noteq>
        infs_crc64_ecma (take off x @ get_bytes off n y @ drop (off + n) x)"
    by (intro crc64_window) simp_all
  then show ?thesis
    using assms(1) split [of x] split [of y] by (simp add: agree_outside_def)
qed

section \<open>Streaming SHA-256 is the padded fold\<close>

lemma sha256_absorb_fold:
  assumes "sha256_absorb E s p = (s', r)"
  shows "length r < 64 \<and> length r = length p mod 64 \<and> (\<exists>q. p = q @ r) \<and>
         sha256_fold E s (p @ t) = sha256_fold E s' (r @ t)"
  using assms
proof (induction E s p arbitrary: s' r rule: sha256_absorb.induct)
  case (1 E s p)
  show ?case
  proof (cases "64 \<le> length p")
    case False
    then show ?thesis using "1.prems" by (auto simp: sha256_absorb.simps [of E s p])
  next
    case True
    then have rest: "sha256_absorb E (sha256_compress E s (take 64 p)) (drop 64 p) = (s', r)"
      using "1.prems" by (simp add: sha256_absorb.simps [of E s p])
    note IH = "1.IH" [OF True rest]
    have "sha256_fold E s (p @ t) =
          sha256_fold E (sha256_compress E s (take 64 p)) (drop 64 p @ t)"
      using True by (subst sha256_fold.simps) auto
    moreover obtain q where "drop 64 p = q @ r" using IH by blast
    then have "\<exists>q. p = q @ r" by (metis append.assoc append_take_drop_id)
    ultimately show ?thesis using IH True by (simp add: le_mod_geq)
  qed
qed

lemma sha256_fold_one: "length p = 64 \<Longrightarrow> sha256_fold E s p = sha256_compress E s p"
  by (subst sha256_fold.simps, subst sha256_fold.simps) auto

lemma sha256_fold_two:
  "length p = 128 \<Longrightarrow>
   sha256_fold E s p = sha256_compress E (sha256_compress E s (get_bytes 0 64 p)) (get_bytes 64 64 p)"
  by (subst sha256_fold.simps) (auto simp: sha256_fold_one get_bytes_def)


lemma put_bytes_at_append: "put_bytes (length a) ys (a @ b) = a @ ys @ drop (length ys) b"
  by (simp add: put_bytes_def)

lemma drop_zeros: "drop k (zeros n) = zeros (n - k)"
  by (simp add: zeros_def)

lemma zeros_split: "k \<le> n \<Longrightarrow> zeros n = zeros k @ zeros (n - k)"
  by (simp add: zeros_def flip: replicate_add)

text \<open>The 128-byte tail buffer after the three writes of \<open>infs_sha256_scalar\<close>.\<close>

lemma sha256_tail:
  assumes "length r < k" "k \<le> 120" "length L = 8"
  shows "put_bytes k L (put_bytes (length r) [b] (put_bytes 0 r (zeros 128))) =
         r @ [b] @ zeros (k - 1 - length r) @ L @ zeros (120 - k)"
proof -
  have "put_bytes 0 r (zeros 128) = r @ zeros (128 - length r)"
    using put_bytes_at_append [of "[]" r "zeros 128"] by (simp add: drop_zeros)
  then have "put_bytes (length r) [b] (put_bytes 0 r (zeros 128)) = r @ [b] @ zeros (127 - length r)"
    by (simp only: put_bytes_at_append drop_zeros) (simp add: zeros_def)
  also have "\<dots> = (r @ [b] @ zeros (k - 1 - length r)) @ zeros (128 - k)"
    using assms zeros_split [of "k - 1 - length r" "127 - length r"] by simp
  finally show ?thesis
    using assms put_bytes_at_append [of "r @ [b] @ zeros (k - 1 - length r)" L "zeros (128 - k)"]
    by (simp add: drop_zeros)
qed

lemma sha256_scalar_unfold:
  assumes "sha256_absorb E sha256_init data = (s, r)"
  shows "infs_sha256_scalar E data =
    (let L = be_st64 E (word_of_nat (length data) * 8) in
     if length r < 56
     then sha256_output E (sha256_compress E s
            (get_bytes 0 64 (put_bytes 56 L (put_bytes (length r) [0x80] (put_bytes 0 r (zeros 128))))))
     else (let t = put_bytes 120 L (put_bytes (length r) [0x80] (put_bytes 0 r (zeros 128))) in
           sha256_output E (sha256_compress E (sha256_compress E s (get_bytes 0 64 t))
             (get_bytes 64 64 t))))"
  using assms by (simp add: infs_sha256_scalar_def Let_def)

lemma sha256_scalar_eq_padded:
  assumes be: "\<And>v. length (be_st64 E v) = 8"
  shows "infs_sha256_scalar E data = sha256_output E (sha256_fold E sha256_init (sha256_pad E data))"
proof -
  obtain s r where a: "sha256_absorb E sha256_init data = (s, r)" by fastforce
  define L where "L = be_st64 E (word_of_nat (length data) * 8)"
  define z where "z = (119 - length data mod 64) mod 64"
  define sfx where "sfx = [0x80] @ zeros z @ L"
  note A = sha256_absorb_fold [OF a, of sfx]
  let ?n = "length r"
  have n: "?n < 64" "length data mod 64 = ?n" using A by auto
  have L: "length L = 8" using be by (simp add: L_def)
  have fold: "sha256_fold E sha256_init (sha256_pad E data) = sha256_fold E s (r @ sfx)"
    using A by (simp add: sha256_pad_def sfx_def L_def z_def)
  note U = sha256_scalar_unfold [OF a, unfolded Let_def, folded L_def]
  show ?thesis
  proof (cases "?n < 56")
    case True
    have z: "z = 55 - ?n" using True n by (simp add: z_def le_mod_geq)
    have len: "length (r @ sfx) = 64" using True L by (simp add: sfx_def z)
    have t: "put_bytes 56 L (put_bytes ?n [0x80] (put_bytes 0 r (zeros 128))) = (r @ sfx) @ zeros 64"
      using sha256_tail [of r 56 L] True L by (simp add: sfx_def z)
    have "get_bytes 0 64 ((r @ sfx) @ zeros 64) = r @ sfx"
      using len by (simp only: get_bytes_def) simp
    then show ?thesis unfolding U fold t sha256_fold_one [OF len] using True by (simp only: if_True)
  next
    case False
    have z: "z = 119 - ?n" using False n by (simp add: z_def)
    have len: "length (r @ sfx) = 128" using False n L by (simp add: sfx_def z)
    have t: "put_bytes 120 L (put_bytes ?n [0x80] (put_bytes 0 r (zeros 128))) = r @ sfx"
      using sha256_tail [of r 120 L] False n L by (simp add: sfx_def z zeros_def)
    show ?thesis unfolding U fold t sha256_fold_two [OF len] using False by (simp only: if_False)
  qed
qed

section \<open>Properties\<close>

text \<open>C7: The table-driven checksum loop of \<open>infs_crc64_ecma\<close> computes, for every input, the
  remainder of bitwise polynomial division by the ECMA-182 generator; in particular all 256
  table entries are right.\<close>

theorem crc64_is_polynomial_division: "infs_crc64_ecma data = crc64_ref 0 data"
  by (simp add: infs_crc64_ecma_def crc64_loop_eq_ref)

text \<open>C8: The streaming implementation of SHA-256 (absorb whole chunks in place, finish in a
  128-byte tail buffer holding one or two blocks) computes the compression function folded
  over the FIPS 180-4 padded message, for every input. The public entry returns that digest
  whenever the accelerated path reports failure or is not built in, the accelerated path's
  output when it reports success, and zeros for a null buffer with a nonzero length.\<close>

theorem sha256_is_padded_fold:
  assumes "\<And>v. length (be_st64 E v) = 8"
  shows "infs_sha256_scalar E data = sha256_output E (sha256_fold E sha256_init (sha256_pad E data)) \<and>
    infs_sha256 E (Some data) (length data) =
      (case infs_sha256_accelerated E data of
         None \<Rightarrow> sha256_output E (sha256_fold E sha256_init (sha256_pad E data))
       | Some out \<Rightarrow> out) \<and>
    infs_sha256 E None (Suc n) = zeros 32"
  by (auto simp: infs_sha256_def sha256_scalar_eq_padded [OF assms] split: option.splits)

theorem sha256_is_padded_fold_witness:
  "infs_sha256 le_lib (Some [0x61, 0x62, 0x63]) 3 =
   sha256_output le_lib (sha256_fold le_lib sha256_init (sha256_pad le_lib [0x61, 0x62, 0x63]))"
proof -
  have "length (be_st64 le_lib v) = 8" "infs_sha256_accelerated le_lib data = None" for v data
    by (simp_all add: le_lib_def infs_sha256_accelerated_def)
  then show ?thesis
    using sha256_is_padded_fold [of le_lib "[0x61, 0x62, 0x63]"] by (simp add: numeral_3_eq_3)
qed

end
