(* ===== verification/Security.thy ===== *)
theory Security
  imports Format Checksum
begin

unbundle bit_operations_syntax

text \<open>
  The portable security model: \<open>src/security.c\<close>, \<open>include/infilfs/security.h\<close> and the two
  projections \<open>include/infilfs/posix_security.h\<close> and \<open>include/infilfs/win32_security.h\<close>.
  Identities are 16-byte lists, rights and flags are words; a descriptor's ACE array is a list
  (the array and its count), and the failing \<open>calloc\<close> of the inheritance routine is an
  argument. The lemmas give the access check a declarative reading (for every requested right
  the first applicable entry decides), characterise what a child inherits entry by
  entry, and show that the bindings and projections round-trip.
\<close>

section \<open>Identities\<close>

definition infs_principal_owner_id :: bytes where
  "infs_principal_owner_id = [0, 0, 0, 0, 0, 0, 0, 0, 0, 0, 0, 0, 0, 0, 0, 1]"
definition infs_principal_group_id :: bytes where
  "infs_principal_group_id = [0, 0, 0, 0, 0, 0, 0, 0, 0, 0, 0, 0, 0, 0, 0, 2]"
definition infs_principal_everyone_id :: bytes where
  "infs_principal_everyone_id = [0, 0, 0, 0, 0, 0, 0, 0, 0, 0, 0, 0, 0, 0, 0, 3]"
definition infs_principal_creator_owner_id :: bytes where
  "infs_principal_creator_owner_id = [0, 0, 0, 0, 0, 0, 0, 0, 0, 0, 0, 0, 0, 0, 0, 4]"
definition infs_principal_creator_group_id :: bytes where
  "infs_principal_creator_group_id = [0, 0, 0, 0, 0, 0, 0, 0, 0, 0, 0, 0, 0, 0, 0, 5]"

definition id_nonzero :: "bytes \<Rightarrow> bool" where
  "id_nonzero pid \<longleftrightarrow> or_bytes (take 16 pid) \<noteq> 0"

definition id_equal :: "bytes \<Rightarrow> bytes \<Rightarrow> bool" where
  "id_equal a b \<longleftrightarrow> take 16 a = take 16 b"

definition infs_security_principal_id_is_reserved :: "bytes \<Rightarrow> bool" where
  "infs_security_principal_id_is_reserved principal_id \<longleftrightarrow>
     list_all (\<lambda>b. b = 0) (take 15 principal_id) \<and>
     principal_id ! 15 \<noteq> 0 \<and> principal_id ! 15 \<le> 31"

definition infs_security_principal_id_is_well_known :: "bytes \<Rightarrow> bool" where
  "infs_security_principal_id_is_well_known principal_id \<longleftrightarrow>
     id_equal principal_id infs_principal_owner_id \<or>
     id_equal principal_id infs_principal_group_id \<or>
     id_equal principal_id infs_principal_everyone_id \<or>
     id_equal principal_id infs_principal_creator_owner_id \<or>
     id_equal principal_id infs_principal_creator_group_id"

definition infs_security_principal_id_is_creator :: "bytes \<Rightarrow> bool" where
  "infs_security_principal_id_is_creator principal_id \<longleftrightarrow>
     id_equal principal_id infs_principal_creator_owner_id \<or>
     id_equal principal_id infs_principal_creator_group_id"

section \<open>Bindings\<close>

record infs_security_binding =
  b_type :: u16
  b_flags :: u16
  b_size :: u16
  b_value :: bytes

abbreviation (input) INFS_BINDING_POSIX_UID :: u16 where "INFS_BINDING_POSIX_UID \<equiv> 1"
abbreviation (input) INFS_BINDING_POSIX_GID :: u16 where "INFS_BINDING_POSIX_GID \<equiv> 2"
abbreviation (input) INFS_BINDING_WINDOWS_SID :: u16 where "INFS_BINDING_WINDOWS_SID \<equiv> 3"
abbreviation (input) INFS_BINDING_OPAQUE :: u16 where "INFS_BINDING_OPAQUE \<equiv> 0xffff"
abbreviation (input) INFS_PRINCIPAL_USER :: u16 where "INFS_PRINCIPAL_USER \<equiv> 1"
abbreviation (input) INFS_PRINCIPAL_SERVICE :: u16 where "INFS_PRINCIPAL_SERVICE \<equiv> 3"

definition infs_security_windows_sid_valid :: "bytes \<Rightarrow> nat \<Rightarrow> bool" where
  "infs_security_windows_sid_valid sid sz \<longleftrightarrow>
     8 \<le> sz \<and> sz \<le> 68 \<and> sid ! 0 = 1 \<and> unat (sid ! 1) \<le> 15 \<and>
     sz = 8 + unat (sid ! 1) * 4"

definition infs_security_binding_is_valid :: "infs_security_binding \<Rightarrow> bool" where
  "infs_security_binding_is_valid binding \<longleftrightarrow>
     b_flags binding = 0 \<and> b_size binding \<noteq> 0 \<and> unat (b_size binding) \<le> INFS_SECURITY_BINDING_MAX \<and>
     (if b_type binding = INFS_BINDING_POSIX_UID \<or> b_type binding = INFS_BINDING_POSIX_GID
      then b_size binding = 20 \<and> id_nonzero (b_value binding)
      else if b_type binding = INFS_BINDING_WINDOWS_SID
      then infs_security_windows_sid_valid (b_value binding) (unat (b_size binding))
      else b_type binding = INFS_BINDING_OPAQUE)"

definition infs_security_binding_init_posix ::
    "u16 \<Rightarrow> bytes \<Rightarrow> u32 \<Rightarrow> infs_security_binding infs_result" where
  "infs_security_binding_init_posix type authority_id numeric_id =
     (if \<not> id_nonzero authority_id \<or>
         (type \<noteq> INFS_BINDING_POSIX_UID \<and> type \<noteq> INFS_BINDING_POSIX_GID)
      then Inl INFS_STATUS_INVALID_ARGUMENT
      else
        let value = put_bytes 0 (take 16 authority_id) (zeros INFS_SECURITY_BINDING_MAX);
            value = value[16 := ucast numeric_id];
            value = value[17 := ucast (drop_bit 8 numeric_id)];
            value = value[18 := ucast (drop_bit 16 numeric_id)];
            value = value[19 := ucast (drop_bit 24 numeric_id)]
        in Inr \<lparr> b_type = type, b_flags = 0, b_size = 20, b_value = value \<rparr>)"

definition infs_security_binding_get_posix ::
    "infs_security_binding \<Rightarrow> (bytes \<times> u32) infs_result" where
  "infs_security_binding_get_posix binding =
     (if (b_type binding \<noteq> INFS_BINDING_POSIX_UID \<and> b_type binding \<noteq> INFS_BINDING_POSIX_GID) \<or>
         \<not> infs_security_binding_is_valid binding
      then Inl INFS_STATUS_INVALID_ARGUMENT
      else
        let value = b_value binding
        in Inr (take 16 value,
                ucast (value ! 16) OR push_bit 8 (ucast (value ! 17)) OR
                push_bit 16 (ucast (value ! 18)) OR push_bit 24 (ucast (value ! 19))))"

definition infs_security_binding_init_windows_sid ::
    "bytes \<Rightarrow> nat \<Rightarrow> infs_security_binding infs_result" where
  "infs_security_binding_init_windows_sid sid sz =
     (if \<not> infs_security_windows_sid_valid sid sz then Inl INFS_STATUS_INVALID_ARGUMENT
      else Inr \<lparr> b_type = INFS_BINDING_WINDOWS_SID, b_flags = 0, b_size = word_of_nat sz,
                 b_value = put_bytes 0 (take sz sid) (zeros INFS_SECURITY_BINDING_MAX) \<rparr>)"

definition security_derived_object_id :: "ext_lib \<Rightarrow> bytes \<Rightarrow> bytes \<Rightarrow> u16 \<Rightarrow> bytes" where
  "security_derived_object_id E domain digest slot =
     (let material = take 16 domain @ take 32 digest @ [ucast slot, ucast (drop_bit 8 slot)]
      in take 16 (infs_sha256 E (Some material) 50))"

definition infs_security_binding_digest ::
    "ext_lib \<Rightarrow> infs_security_binding \<Rightarrow> bytes infs_result" where
  "infs_security_binding_digest E binding =
     (if \<not> infs_security_binding_is_valid binding then Inl INFS_STATUS_INVALID_ARGUMENT
      else
        let material = ascii ''INFS-BIND-V2'' @ zeros 4 @
              [ucast (b_type binding), ucast (drop_bit 8 (b_type binding)),
               ucast (b_size binding), ucast (drop_bit 8 (b_size binding))] @
              take (unat (b_size binding)) (b_value binding)
        in Inr (infs_sha256 E (Some material) (20 + unat (b_size binding))))"

definition infs_security_binding_index_object_id :: "ext_lib \<Rightarrow> bytes \<Rightarrow> u16 \<Rightarrow> bytes" where
  "infs_security_binding_index_object_id E digest slot =
     security_derived_object_id E (ascii ''INFS-BIND-ID2'' @ zeros 3) digest slot"

definition infs_security_descriptor_object_id :: "ext_lib \<Rightarrow> bytes \<Rightarrow> u16 \<Rightarrow> bytes" where
  "infs_security_descriptor_object_id E digest slot =
     security_derived_object_id E (ascii ''INFS-DESC-ID2'' @ zeros 3) digest slot"

section \<open>Access control entries and descriptors\<close>

type_synonym infs_rights_mask = u64

abbreviation (input) INFS_RIGHT_ALL :: infs_rights_mask where "INFS_RIGHT_ALL \<equiv> 0x1FFFF"

record infs_security_ace =
  a_principal_id :: bytes
  a_rights :: infs_rights_mask
  a_disposition :: u16
  a_flags :: u16

record infs_security_descriptor =
  d_owner_principal_id :: bytes
  d_primary_group_principal_id :: bytes
  d_flags :: u16
  d_aces :: "infs_security_ace list"

abbreviation (input) INFS_ACE_ALLOW :: u16 where "INFS_ACE_ALLOW \<equiv> 1"
abbreviation (input) INFS_ACE_DENY :: u16 where "INFS_ACE_DENY \<equiv> 2"
abbreviation (input) INFS_ACE_INHERIT_FILE :: u16 where "INFS_ACE_INHERIT_FILE \<equiv> 0x1"
abbreviation (input) INFS_ACE_INHERIT_DIRECTORY :: u16 where "INFS_ACE_INHERIT_DIRECTORY \<equiv> 0x2"
abbreviation (input) INFS_ACE_INHERIT_ONLY :: u16 where "INFS_ACE_INHERIT_ONLY \<equiv> 0x4"
abbreviation (input) INFS_ACE_NO_PROPAGATE :: u16 where "INFS_ACE_NO_PROPAGATE \<equiv> 0x8"
abbreviation (input) INFS_ACE_INHERITED :: u16 where "INFS_ACE_INHERITED \<equiv> 0x10"
abbreviation (input) INFS_ACE_KNOWN_FLAGS :: u16 where "INFS_ACE_KNOWN_FLAGS \<equiv> 0x1f"
abbreviation (input) INFS_SECURITY_DACL_PRESENT :: u16 where "INFS_SECURITY_DACL_PRESENT \<equiv> 0x1"
abbreviation (input) INFS_SECURITY_AUTO_INHERIT :: u16 where "INFS_SECURITY_AUTO_INHERIT \<equiv> 0x4"
abbreviation (input) INFS_SECURITY_KNOWN_FLAGS :: u16 where "INFS_SECURITY_KNOWN_FLAGS \<equiv> 0x7"

definition infs_security_ace_is_valid :: "infs_security_ace \<Rightarrow> bool" where
  "infs_security_ace_is_valid ace \<longleftrightarrow>
     id_nonzero (a_principal_id ace) \<and> a_rights ace \<noteq> 0 \<and>
     a_rights ace AND NOT INFS_RIGHT_ALL = 0 \<and>
     (a_disposition ace = INFS_ACE_ALLOW \<or> a_disposition ace = INFS_ACE_DENY) \<and>
     a_flags ace AND NOT INFS_ACE_KNOWN_FLAGS = 0 \<and>
     \<not> (infs_security_principal_id_is_reserved (a_principal_id ace) \<and>
        \<not> infs_security_principal_id_is_well_known (a_principal_id ace)) \<and>
     (infs_security_principal_id_is_creator (a_principal_id ace) \<longrightarrow>
        a_flags ace AND (INFS_ACE_INHERIT_FILE OR INFS_ACE_INHERIT_DIRECTORY) \<noteq> 0 \<and>
        a_flags ace AND INFS_ACE_INHERIT_ONLY \<noteq> 0)"

definition infs_security_descriptor_is_valid :: "infs_security_descriptor \<Rightarrow> bool" where
  "infs_security_descriptor_is_valid descriptor \<longleftrightarrow>
     id_nonzero (d_owner_principal_id descriptor) \<and>
     id_nonzero (d_primary_group_principal_id descriptor) \<and>
     \<not> infs_security_principal_id_is_reserved (d_owner_principal_id descriptor) \<and>
     \<not> infs_security_principal_id_is_reserved (d_primary_group_principal_id descriptor) \<and>
     d_flags descriptor AND NOT INFS_SECURITY_KNOWN_FLAGS = 0 \<and>
     d_flags descriptor AND INFS_SECURITY_DACL_PRESENT \<noteq> 0 \<and>
     list_all infs_security_ace_is_valid (d_aces descriptor)"

fun subject_has_principal :: "bytes list \<Rightarrow> bytes \<Rightarrow> bool" where
  "subject_has_principal [] pid = False"
| "subject_has_principal (i # ids) pid = (if take 16 i = take 16 pid then True
                                          else subject_has_principal ids pid)"

definition ace_applies :: "infs_security_descriptor \<Rightarrow> bytes list \<Rightarrow> bytes \<Rightarrow> bool" where
  "ace_applies descriptor subject_ids ace_principal_id =
     (if id_equal ace_principal_id infs_principal_everyone_id then True
      else if id_equal ace_principal_id infs_principal_owner_id
      then subject_has_principal subject_ids (d_owner_principal_id descriptor)
      else if id_equal ace_principal_id infs_principal_group_id
      then subject_has_principal subject_ids (d_primary_group_principal_id descriptor)
      else if infs_security_principal_id_is_creator ace_principal_id \<or>
              (infs_security_principal_id_is_reserved ace_principal_id \<and>
               \<not> infs_security_principal_id_is_well_known ace_principal_id)
      then False
      else subject_has_principal subject_ids ace_principal_id)"

fun access_loop ::
    "infs_security_descriptor \<Rightarrow> bytes list \<Rightarrow> infs_security_ace list \<Rightarrow> infs_rights_mask \<Rightarrow> bool" where
  "access_loop descriptor ids [] remaining = False"
| "access_loop descriptor ids (ace # aces) remaining =
     (if a_flags ace AND INFS_ACE_INHERIT_ONLY \<noteq> 0 \<or>
         \<not> ace_applies descriptor ids (a_principal_id ace)
      then access_loop descriptor ids aces remaining
      else
        let hit = remaining AND a_rights ace
        in if hit = 0 then access_loop descriptor ids aces remaining
           else if a_disposition ace = INFS_ACE_DENY then False
           else
             let remaining = remaining AND NOT hit
             in if remaining = 0 then True else access_loop descriptor ids aces remaining)"

definition infs_security_access_allowed ::
    "infs_security_descriptor \<Rightarrow> bytes list \<Rightarrow> infs_rights_mask \<Rightarrow> bool" where
  "infs_security_access_allowed descriptor principal_ids requested =
     (if \<not> infs_security_descriptor_is_valid descriptor \<or>
         requested AND NOT INFS_RIGHT_ALL \<noteq> 0 \<or>
         length principal_ids > (2 ^ 64 - 1) div 16
      then False
      else if requested = 0 then True
      else access_loop descriptor principal_ids (d_aces descriptor) requested)"

section \<open>Inheritance\<close>

text \<open>The first pass counts the entries the second pass copies.\<close>

definition inherit_counted :: "bool \<Rightarrow> u16 \<Rightarrow> bool" where
  "inherit_counted child_is_directory flags =
     (if child_is_directory then
        let file_only_no_propagate =
              flags AND INFS_ACE_INHERIT_FILE \<noteq> 0 \<and>
              flags AND INFS_ACE_INHERIT_DIRECTORY = 0 \<and>
              flags AND INFS_ACE_NO_PROPAGATE \<noteq> 0
        in \<not> file_only_no_propagate \<and>
           flags AND (INFS_ACE_INHERIT_DIRECTORY OR INFS_ACE_INHERIT_FILE) \<noteq> 0
      else flags AND INFS_ACE_INHERIT_FILE \<noteq> 0)"

definition inherit_copied :: "bool \<Rightarrow> u16 \<Rightarrow> bool" where
  "inherit_copied child_is_directory flags =
     (let inherit = (if child_is_directory
            then flags AND (INFS_ACE_INHERIT_DIRECTORY OR INFS_ACE_INHERIT_FILE) \<noteq> 0
            else flags AND INFS_ACE_INHERIT_FILE \<noteq> 0)
      in if child_is_directory \<and> flags AND INFS_ACE_INHERIT_FILE \<noteq> 0 \<and>
            flags AND INFS_ACE_INHERIT_DIRECTORY = 0 \<and> flags AND INFS_ACE_NO_PROPAGATE \<noteq> 0
         then False else inherit)"

definition inherit_flags :: "bool \<Rightarrow> u16 \<Rightarrow> u16" where
  "inherit_flags child_is_directory flags =
     (let tflags = flags OR INFS_ACE_INHERITED
      in if \<not> child_is_directory
         then tflags AND NOT (INFS_ACE_INHERIT_FILE OR INFS_ACE_INHERIT_DIRECTORY OR
                              INFS_ACE_INHERIT_ONLY OR INFS_ACE_NO_PROPAGATE)
         else
           let tflags = (if flags AND INFS_ACE_INHERIT_DIRECTORY \<noteq> 0
                         then tflags AND NOT INFS_ACE_INHERIT_ONLY
                         else tflags OR INFS_ACE_INHERIT_ONLY)
           in if flags AND INFS_ACE_NO_PROPAGATE \<noteq> 0
              then tflags AND NOT (INFS_ACE_INHERIT_FILE OR INFS_ACE_INHERIT_DIRECTORY OR
                                   INFS_ACE_NO_PROPAGATE)
              else tflags)"

definition inherit_ace :: "bool \<Rightarrow> bytes \<Rightarrow> bytes \<Rightarrow> infs_security_ace \<Rightarrow> infs_security_ace" where
  "inherit_ace child_is_directory owner_id group_id source = source \<lparr>
     a_principal_id :=
       (if id_equal (a_principal_id source) infs_principal_creator_owner_id then owner_id
        else if id_equal (a_principal_id source) infs_principal_creator_group_id then group_id
        else a_principal_id source),
     a_flags := inherit_flags child_is_directory (a_flags source) \<rparr>"

definition infs_security_inherit_descriptor ::
    "(nat \<Rightarrow> bool) \<Rightarrow> infs_security_descriptor \<Rightarrow> bool \<Rightarrow> bytes \<Rightarrow> bytes \<Rightarrow>
     infs_security_descriptor infs_result" where
  "infs_security_inherit_descriptor calloc_ok parent child_is_directory owner_id group_id =
     (if \<not> infs_security_descriptor_is_valid parent \<or>
         \<not> id_nonzero owner_id \<or> \<not> id_nonzero group_id \<or>
         infs_security_principal_id_is_reserved owner_id \<or>
         infs_security_principal_id_is_reserved group_id
      then Inl INFS_STATUS_INVALID_ARGUMENT
      else
        let child = \<lparr> d_owner_principal_id = take 16 owner_id,
                      d_primary_group_principal_id = take 16 group_id,
                      d_flags = INFS_SECURITY_DACL_PRESENT OR
                                (d_flags parent AND INFS_SECURITY_AUTO_INHERIT),
                      d_aces = [] \<rparr>;
            count = length (filter (\<lambda>a. inherit_counted child_is_directory (a_flags a)) (d_aces parent))
        in if count = 0 then Inr child
           else if \<not> calloc_ok count then Inl INFS_STATUS_NO_MEMORY
           else Inr (child \<lparr> d_aces :=
                  map (inherit_ace child_is_directory (take 16 owner_id) (take 16 group_id))
                    (filter (\<lambda>a. inherit_copied child_is_directory (a_flags a)) (d_aces parent)) \<rparr>))"

section \<open>Rights as single bits\<close>

definition INFS_RIGHT_READ_DATA :: infs_rights_mask where "INFS_RIGHT_READ_DATA = 2 ^ 0"
definition INFS_RIGHT_WRITE_DATA :: infs_rights_mask where "INFS_RIGHT_WRITE_DATA = 2 ^ 1"
definition INFS_RIGHT_APPEND_DATA :: infs_rights_mask where "INFS_RIGHT_APPEND_DATA = 2 ^ 2"
definition INFS_RIGHT_EXECUTE :: infs_rights_mask where "INFS_RIGHT_EXECUTE = 2 ^ 3"
definition INFS_RIGHT_LIST_DIRECTORY :: infs_rights_mask where "INFS_RIGHT_LIST_DIRECTORY = 2 ^ 4"
definition INFS_RIGHT_TRAVERSE_DIRECTORY :: infs_rights_mask where "INFS_RIGHT_TRAVERSE_DIRECTORY = 2 ^ 5"
definition INFS_RIGHT_CREATE_FILE :: infs_rights_mask where "INFS_RIGHT_CREATE_FILE = 2 ^ 6"
definition INFS_RIGHT_CREATE_DIRECTORY :: infs_rights_mask where "INFS_RIGHT_CREATE_DIRECTORY = 2 ^ 7"
definition INFS_RIGHT_DELETE :: infs_rights_mask where "INFS_RIGHT_DELETE = 2 ^ 8"
definition INFS_RIGHT_DELETE_CHILD :: infs_rights_mask where "INFS_RIGHT_DELETE_CHILD = 2 ^ 9"
definition INFS_RIGHT_READ_ATTRIBUTES :: infs_rights_mask where "INFS_RIGHT_READ_ATTRIBUTES = 2 ^ 10"
definition INFS_RIGHT_WRITE_ATTRIBUTES :: infs_rights_mask where "INFS_RIGHT_WRITE_ATTRIBUTES = 2 ^ 11"
definition INFS_RIGHT_READ_NAMED_METADATA :: infs_rights_mask where "INFS_RIGHT_READ_NAMED_METADATA = 2 ^ 12"
definition INFS_RIGHT_WRITE_NAMED_METADATA :: infs_rights_mask where "INFS_RIGHT_WRITE_NAMED_METADATA = 2 ^ 13"
definition INFS_RIGHT_READ_PERMISSIONS :: infs_rights_mask where "INFS_RIGHT_READ_PERMISSIONS = 2 ^ 14"
definition INFS_RIGHT_CHANGE_PERMISSIONS :: infs_rights_mask where "INFS_RIGHT_CHANGE_PERMISSIONS = 2 ^ 15"
definition INFS_RIGHT_TAKE_OWNERSHIP :: infs_rights_mask where "INFS_RIGHT_TAKE_OWNERSHIP = 2 ^ 16"

definition INFS_WIN32_FILE_READ_DATA :: u32 where "INFS_WIN32_FILE_READ_DATA = 2 ^ 0"
definition INFS_WIN32_FILE_LIST_DIRECTORY :: u32 where "INFS_WIN32_FILE_LIST_DIRECTORY = 2 ^ 0"
definition INFS_WIN32_FILE_WRITE_DATA :: u32 where "INFS_WIN32_FILE_WRITE_DATA = 2 ^ 1"
definition INFS_WIN32_FILE_ADD_FILE :: u32 where "INFS_WIN32_FILE_ADD_FILE = 2 ^ 1"
definition INFS_WIN32_FILE_APPEND_DATA :: u32 where "INFS_WIN32_FILE_APPEND_DATA = 2 ^ 2"
definition INFS_WIN32_FILE_ADD_SUBDIRECTORY :: u32 where "INFS_WIN32_FILE_ADD_SUBDIRECTORY = 2 ^ 2"
definition INFS_WIN32_FILE_READ_EA :: u32 where "INFS_WIN32_FILE_READ_EA = 2 ^ 3"
definition INFS_WIN32_FILE_WRITE_EA :: u32 where "INFS_WIN32_FILE_WRITE_EA = 2 ^ 4"
definition INFS_WIN32_FILE_EXECUTE :: u32 where "INFS_WIN32_FILE_EXECUTE = 2 ^ 5"
definition INFS_WIN32_FILE_TRAVERSE :: u32 where "INFS_WIN32_FILE_TRAVERSE = 2 ^ 5"
definition INFS_WIN32_FILE_DELETE_CHILD :: u32 where "INFS_WIN32_FILE_DELETE_CHILD = 2 ^ 6"
definition INFS_WIN32_FILE_READ_ATTRIBUTES :: u32 where "INFS_WIN32_FILE_READ_ATTRIBUTES = 2 ^ 7"
definition INFS_WIN32_FILE_WRITE_ATTRIBUTES :: u32 where "INFS_WIN32_FILE_WRITE_ATTRIBUTES = 2 ^ 8"
definition INFS_WIN32_DELETE :: u32 where "INFS_WIN32_DELETE = 2 ^ 16"
definition INFS_WIN32_READ_CONTROL :: u32 where "INFS_WIN32_READ_CONTROL = 2 ^ 17"
definition INFS_WIN32_WRITE_DAC :: u32 where "INFS_WIN32_WRITE_DAC = 2 ^ 18"
definition INFS_WIN32_WRITE_OWNER :: u32 where "INFS_WIN32_WRITE_OWNER = 2 ^ 19"
definition INFS_WIN32_SYNCHRONIZE :: u32 where "INFS_WIN32_SYNCHRONIZE = 2 ^ 20"
definition INFS_WIN32_ACCESS_SYSTEM_SECURITY :: u32 where "INFS_WIN32_ACCESS_SYSTEM_SECURITY = 2 ^ 24"
definition INFS_WIN32_MAXIMUM_ALLOWED :: u32 where "INFS_WIN32_MAXIMUM_ALLOWED = 2 ^ 25"
definition INFS_WIN32_GENERIC_ALL :: u32 where "INFS_WIN32_GENERIC_ALL = 2 ^ 28"
definition INFS_WIN32_GENERIC_EXECUTE :: u32 where "INFS_WIN32_GENERIC_EXECUTE = 2 ^ 29"
definition INFS_WIN32_GENERIC_WRITE :: u32 where "INFS_WIN32_GENERIC_WRITE = 2 ^ 30"
definition INFS_WIN32_GENERIC_READ :: u32 where "INFS_WIN32_GENERIC_READ = 2 ^ 31"

text \<open>\<open>if (cond) rights |= flag\<close>.\<close>

definition or_if :: "bool \<Rightarrow> 'w::len word \<Rightarrow> 'w word \<Rightarrow> 'w word" where
  "or_if c m r = (if c then r OR m else r)"

section \<open>The POSIX projection\<close>

datatype infs_posix_subject_class =
  INFS_POSIX_SUBJECT_OWNER | INFS_POSIX_SUBJECT_GROUP | INFS_POSIX_SUBJECT_OTHER

definition infs_posix_acl_perms_to_rights :: "u32 \<Rightarrow> bool \<Rightarrow> infs_rights_mask" where
  "infs_posix_acl_perms_to_rights perms directory =
     (let perms = perms AND 7; rights = 0
      in if directory then
           let rights = or_if (perms AND 4 \<noteq> 0) INFS_RIGHT_LIST_DIRECTORY rights;
               rights = or_if (perms AND 2 \<noteq> 0) (INFS_RIGHT_CREATE_FILE OR
                          INFS_RIGHT_CREATE_DIRECTORY OR INFS_RIGHT_DELETE_CHILD) rights
           in or_if (perms AND 1 \<noteq> 0) INFS_RIGHT_TRAVERSE_DIRECTORY rights
         else
           let rights = or_if (perms AND 4 \<noteq> 0) INFS_RIGHT_READ_DATA rights;
               rights = or_if (perms AND 2 \<noteq> 0) (INFS_RIGHT_WRITE_DATA OR
                          INFS_RIGHT_APPEND_DATA) rights
           in or_if (perms AND 1 \<noteq> 0) INFS_RIGHT_EXECUTE rights)"

definition infs_posix_mode_to_rights ::
    "u32 \<Rightarrow> infs_posix_subject_class \<Rightarrow> bool \<Rightarrow> infs_rights_mask" where
  "infs_posix_mode_to_rights mode subject directory =
     (let shift = (case subject of INFS_POSIX_SUBJECT_OWNER \<Rightarrow> 6
                     | INFS_POSIX_SUBJECT_GROUP \<Rightarrow> 3 | INFS_POSIX_SUBJECT_OTHER \<Rightarrow> 0)
      in infs_posix_acl_perms_to_rights (drop_bit shift mode AND 7) directory)"

section \<open>The Windows projection\<close>

definition infs_win32_expand_generic_access :: "u32 \<Rightarrow> u32" where
  "infs_win32_expand_generic_access amask =
     (let expanded = amask AND NOT (INFS_WIN32_GENERIC_ALL OR INFS_WIN32_GENERIC_EXECUTE OR
                                   INFS_WIN32_GENERIC_WRITE OR INFS_WIN32_GENERIC_READ);
          expanded = or_if (amask AND INFS_WIN32_GENERIC_READ \<noteq> 0) 0x00120089 expanded;
          expanded = or_if (amask AND INFS_WIN32_GENERIC_WRITE \<noteq> 0) 0x00120116 expanded;
          expanded = or_if (amask AND INFS_WIN32_GENERIC_EXECUTE \<noteq> 0) 0x001200a0 expanded
      in or_if (amask AND INFS_WIN32_GENERIC_ALL \<noteq> 0) 0x001f01ff expanded)"

definition infs_win32_access_mask_to_rights :: "u32 \<Rightarrow> bool \<Rightarrow> infs_rights_mask" where
  "infs_win32_access_mask_to_rights access_mask directory =
     (let amask = infs_win32_expand_generic_access access_mask;
          rights = (if directory then
            (let rights = 0;
                 rights = or_if (amask AND INFS_WIN32_FILE_LIST_DIRECTORY \<noteq> 0) INFS_RIGHT_LIST_DIRECTORY rights;
                 rights = or_if (amask AND INFS_WIN32_FILE_ADD_FILE \<noteq> 0) INFS_RIGHT_CREATE_FILE rights;
                 rights = or_if (amask AND INFS_WIN32_FILE_ADD_SUBDIRECTORY \<noteq> 0) INFS_RIGHT_CREATE_DIRECTORY rights;
                 rights = or_if (amask AND INFS_WIN32_FILE_TRAVERSE \<noteq> 0) INFS_RIGHT_TRAVERSE_DIRECTORY rights;
                 rights = or_if (amask AND INFS_WIN32_FILE_DELETE_CHILD \<noteq> 0) INFS_RIGHT_DELETE_CHILD rights
             in rights)
          else
            (let rights = 0;
                 rights = or_if (amask AND INFS_WIN32_FILE_READ_DATA \<noteq> 0) INFS_RIGHT_READ_DATA rights;
                 rights = or_if (amask AND INFS_WIN32_FILE_WRITE_DATA \<noteq> 0) INFS_RIGHT_WRITE_DATA rights;
                 rights = or_if (amask AND INFS_WIN32_FILE_APPEND_DATA \<noteq> 0) INFS_RIGHT_APPEND_DATA rights;
                 rights = or_if (amask AND INFS_WIN32_FILE_EXECUTE \<noteq> 0) INFS_RIGHT_EXECUTE rights
             in rights));
          rights = or_if (amask AND INFS_WIN32_FILE_READ_EA \<noteq> 0) INFS_RIGHT_READ_NAMED_METADATA rights;
          rights = or_if (amask AND INFS_WIN32_FILE_WRITE_EA \<noteq> 0) INFS_RIGHT_WRITE_NAMED_METADATA rights;
          rights = or_if (amask AND INFS_WIN32_FILE_READ_ATTRIBUTES \<noteq> 0) INFS_RIGHT_READ_ATTRIBUTES rights;
          rights = or_if (amask AND INFS_WIN32_FILE_WRITE_ATTRIBUTES \<noteq> 0) INFS_RIGHT_WRITE_ATTRIBUTES rights;
          rights = or_if (amask AND INFS_WIN32_DELETE \<noteq> 0) INFS_RIGHT_DELETE rights;
          rights = or_if (amask AND INFS_WIN32_READ_CONTROL \<noteq> 0) INFS_RIGHT_READ_PERMISSIONS rights;
          rights = or_if (amask AND INFS_WIN32_WRITE_DAC \<noteq> 0) INFS_RIGHT_CHANGE_PERMISSIONS rights;
          rights = or_if (amask AND INFS_WIN32_WRITE_OWNER \<noteq> 0) INFS_RIGHT_TAKE_OWNERSHIP rights
      in rights)"

definition infs_win32_rights_to_access_mask :: "infs_rights_mask \<Rightarrow> bool \<Rightarrow> u32" where
  "infs_win32_rights_to_access_mask rights directory =
     (let amask = (if directory then
            (let amask = 0;
                 amask = or_if (rights AND INFS_RIGHT_LIST_DIRECTORY \<noteq> 0) INFS_WIN32_FILE_LIST_DIRECTORY amask;
                 amask = or_if (rights AND INFS_RIGHT_CREATE_FILE \<noteq> 0) INFS_WIN32_FILE_ADD_FILE amask;
                 amask = or_if (rights AND INFS_RIGHT_CREATE_DIRECTORY \<noteq> 0) INFS_WIN32_FILE_ADD_SUBDIRECTORY amask;
                 amask = or_if (rights AND INFS_RIGHT_TRAVERSE_DIRECTORY \<noteq> 0) INFS_WIN32_FILE_TRAVERSE amask;
                 amask = or_if (rights AND INFS_RIGHT_DELETE_CHILD \<noteq> 0) INFS_WIN32_FILE_DELETE_CHILD amask
             in amask)
          else
            (let amask = 0;
                 amask = or_if (rights AND INFS_RIGHT_READ_DATA \<noteq> 0) INFS_WIN32_FILE_READ_DATA amask;
                 amask = or_if (rights AND INFS_RIGHT_WRITE_DATA \<noteq> 0) INFS_WIN32_FILE_WRITE_DATA amask;
                 amask = or_if (rights AND INFS_RIGHT_APPEND_DATA \<noteq> 0) INFS_WIN32_FILE_APPEND_DATA amask;
                 amask = or_if (rights AND INFS_RIGHT_EXECUTE \<noteq> 0) INFS_WIN32_FILE_EXECUTE amask
             in amask));
          amask = or_if (rights AND INFS_RIGHT_READ_NAMED_METADATA \<noteq> 0) INFS_WIN32_FILE_READ_EA amask;
          amask = or_if (rights AND INFS_RIGHT_WRITE_NAMED_METADATA \<noteq> 0) INFS_WIN32_FILE_WRITE_EA amask;
          amask = or_if (rights AND INFS_RIGHT_READ_ATTRIBUTES \<noteq> 0) INFS_WIN32_FILE_READ_ATTRIBUTES amask;
          amask = or_if (rights AND INFS_RIGHT_WRITE_ATTRIBUTES \<noteq> 0) INFS_WIN32_FILE_WRITE_ATTRIBUTES amask;
          amask = or_if (rights AND INFS_RIGHT_DELETE \<noteq> 0) INFS_WIN32_DELETE amask;
          amask = or_if (rights AND INFS_RIGHT_READ_PERMISSIONS \<noteq> 0) INFS_WIN32_READ_CONTROL amask;
          amask = or_if (rights AND INFS_RIGHT_CHANGE_PERMISSIONS \<noteq> 0) INFS_WIN32_WRITE_DAC amask;
          amask = or_if (rights AND INFS_RIGHT_TAKE_OWNERSHIP \<noteq> 0) INFS_WIN32_WRITE_OWNER amask
      in amask)"

section \<open>The access check decides by the first applicable entry\<close>

text \<open>An entry counts for a subject when it is not inherit-only and names the subject.\<close>

definition ace_effective :: "infs_security_descriptor \<Rightarrow> bytes list \<Rightarrow> infs_security_ace \<Rightarrow> bool" where
  "ace_effective d ids a \<longleftrightarrow>
     a_flags a AND INFS_ACE_INHERIT_ONLY = 0 \<and> ace_applies d ids (a_principal_id a)"

definition decider ::
    "infs_security_descriptor \<Rightarrow> bytes list \<Rightarrow> infs_security_ace list \<Rightarrow> nat \<Rightarrow> infs_security_ace option" where
  "decider d ids aces r = find (\<lambda>a. ace_effective d ids a \<and> bit (a_rights a) r) aces"

definition right_granted ::
    "infs_security_descriptor \<Rightarrow> bytes list \<Rightarrow> infs_security_ace list \<Rightarrow> nat \<Rightarrow> bool" where
  "right_granted d ids aces r \<longleftrightarrow>
     (\<exists>a. decider d ids aces r = Some a \<and> a_disposition a \<noteq> INFS_ACE_DENY)"

section \<open>Reference definitions and examples\<close>

text \<open>The rights the Windows projection can express, for directories and for files.\<close>

definition win32_expressible :: "bool \<Rightarrow> nat set" where
  "win32_expressible directory =
     (if directory then {4, 5, 6, 7, 9} else {0, 1, 2, 3}) \<union> {8, 10, 11, 12, 13, 14, 15, 16}"

text \<open>
  What a child inherits, flag by flag. Flag bits 0 to 4 are: inherited by files, inherited by
  directories, inherit-only, no-propagate, inherited.
\<close>

definition ace_reaches :: "bool \<Rightarrow> infs_security_ace \<Rightarrow> bool" where
  "ace_reaches child_is_directory a \<longleftrightarrow>
     (if child_is_directory
      then bit (a_flags a) 1 \<or> (bit (a_flags a) 0 \<and> \<not> bit (a_flags a) 3)
      else bit (a_flags a) 0)"

definition child_flag :: "bool \<Rightarrow> infs_security_ace \<Rightarrow> nat \<Rightarrow> bool" where
  "child_flag child_is_directory a n \<longleftrightarrow>
     n = 4 \<or>
     (child_is_directory \<and>
       (n = 0 \<and> bit (a_flags a) 0 \<and> \<not> bit (a_flags a) 3 \<or>
        n = 1 \<and> bit (a_flags a) 1 \<and> \<not> bit (a_flags a) 3 \<or>
        n = 2 \<and> \<not> bit (a_flags a) 1))"

definition inherited_from ::
    "bool \<Rightarrow> bytes \<Rightarrow> bytes \<Rightarrow> infs_security_ace \<Rightarrow> infs_security_ace \<Rightarrow> bool" where
  "inherited_from child_is_directory owner grp a c \<longleftrightarrow>
     a_disposition c = a_disposition a \<and> a_rights c = a_rights a \<and>
     a_principal_id c =
       (if id_equal (a_principal_id a) infs_principal_creator_owner_id then owner
        else if id_equal (a_principal_id a) infs_principal_creator_group_id then grp
        else a_principal_id a) \<and>
     (\<forall>n. bit (a_flags c) n = child_flag child_is_directory a n)"

definition example_owner :: bytes where "example_owner = [7, 7, 7, 7, 7, 7, 7, 7, 7, 7, 7, 7, 7, 7, 7, 7]"

definition example_descriptor :: infs_security_descriptor where
  "example_descriptor = \<lparr> d_owner_principal_id = example_owner,
     d_primary_group_principal_id = example_owner, d_flags = 1,
     d_aces = [\<lparr> a_principal_id = infs_principal_everyone_id, a_rights = 2, a_disposition = 2, a_flags = 0 \<rparr>,
               \<lparr> a_principal_id = infs_principal_owner_id, a_rights = 3, a_disposition = 1, a_flags = 0 \<rparr>] \<rparr>"

definition example_parent :: infs_security_descriptor where
  "example_parent = example_descriptor \<lparr> d_aces :=
     [\<lparr> a_principal_id = infs_principal_creator_owner_id, a_rights = 1, a_disposition = 1, a_flags = 5 \<rparr>,
      \<lparr> a_principal_id = infs_principal_everyone_id, a_rights = 2, a_disposition = 2, a_flags = 2 \<rparr>] \<rparr>"

lemma right_granted_Nil [simp]: "\<not> right_granted d ids [] r"
  by (simp add: right_granted_def decider_def)

lemma right_granted_Cons:
  "right_granted d ids (a # aces) r \<longleftrightarrow>
     (if ace_effective d ids a \<and> bit (a_rights a) r then a_disposition a \<noteq> INFS_ACE_DENY
      else right_granted d ids aces r)"
  by (auto simp: right_granted_def decider_def)

lemma word_zero_iff_bits: "(w :: 'w::len word) = 0 \<longleftrightarrow> (\<forall>n. \<not> bit w n)"
  by (auto simp: bit_eq_iff dest: bit_imp_le_length)

lemma access_loop_iff:
  "remaining \<noteq> 0 \<Longrightarrow>
   access_loop d ids aces remaining \<longleftrightarrow> (\<forall>r. bit remaining r \<longrightarrow> right_granted d ids aces r)"
proof (induction aces arbitrary: remaining)
  case Nil
  then show ?case by (auto simp: word_zero_iff_bits)
next
  case (Cons a aces)
  let ?hit = "remaining AND a_rights a"
  show ?case
  proof (cases "ace_effective d ids a \<and> ?hit \<noteq> 0")
    case False
    then have "bit remaining r \<Longrightarrow> right_granted d ids (a # aces) r = right_granted d ids aces r" for r
      by (auto simp: right_granted_Cons word_zero_iff_bits bit_and_iff)
    then show ?thesis
      using False Cons by (auto simp: ace_effective_def)
  next
    case True
    then obtain h where h: "bit remaining h" "bit (a_rights a) h"
      by (auto simp: word_zero_iff_bits bit_and_iff)
    have grant: "right_granted d ids (a # aces) r \<longleftrightarrow>
        (if bit (a_rights a) r then a_disposition a \<noteq> INFS_ACE_DENY else right_granted d ids aces r)" for r
      using True by (simp add: right_granted_Cons)
    have rest: "bit (remaining AND NOT ?hit) r \<longleftrightarrow> bit remaining r \<and> \<not> bit (a_rights a) r" for r
      by (auto simp: bit_and_iff bit_not_iff simp del: bit.de_Morgan_conj dest: bit_imp_le_length)
    have loop: "access_loop d ids (a # aces) remaining \<longleftrightarrow>
        a_disposition a \<noteq> INFS_ACE_DENY \<and>
        (remaining AND NOT ?hit = 0 \<or> access_loop d ids aces (remaining AND NOT ?hit))"
      using True by (simp add: ace_effective_def Let_def)
    show ?thesis
    proof (cases "remaining AND NOT ?hit = 0")
      case fin: True
      then have "\<not> (bit remaining r \<and> \<not> bit (a_rights a) r)" for r
        using rest [of r] by (metis bit_0_eq bot_apply bot_bool_def)
      then show ?thesis unfolding loop using fin grant h by auto
    next
      case False
      then show ?thesis unfolding loop Cons.IH [OF False] using grant rest h by auto
    qed
  qed
qed

section \<open>Inheritance keeps descriptors valid\<close>

lemma inherit_counted_copied: "inherit_counted c f = inherit_copied c f"
  by (auto simp: inherit_counted_def inherit_copied_def Let_def)

lemma id_nonzero_take [simp]: "id_nonzero (take 16 x) = id_nonzero x"
  by (simp add: id_nonzero_def)

lemma reserved_take [simp]:
  "length x = 16 \<Longrightarrow> infs_security_principal_id_is_reserved (take 16 x) =
   infs_security_principal_id_is_reserved x"
  by simp

lemma creator_reserved:
  "length x = 16 \<Longrightarrow> infs_security_principal_id_is_creator x \<Longrightarrow>
   infs_security_principal_id_is_reserved x"
  by (auto simp: infs_security_principal_id_is_creator_def id_equal_def
      infs_principal_creator_owner_id_def infs_principal_creator_group_id_def
      infs_security_principal_id_is_reserved_def)

lemma and_not_zero_iff: "(x AND NOT m = 0) \<longleftrightarrow> (\<forall>n. bit x n \<longrightarrow> bit m n)"
  for x :: "'w::len word"
  by (auto simp: word_zero_iff_bits bit_and_iff bit_not_iff dest: bit_imp_le_length)

lemma inherit_flags_known:
  assumes "f AND NOT INFS_ACE_KNOWN_FLAGS = 0"
  shows "inherit_flags c f AND NOT INFS_ACE_KNOWN_FLAGS = 0"
proof -
  have "bit (0x10 :: u16) n \<Longrightarrow> bit (0x1f :: u16) n" "bit (0x4 :: u16) n \<Longrightarrow> bit (0x1f :: u16) n" for n
    using and_not_zero_iff [of "0x10 :: u16" "0x1f"] and_not_zero_iff [of "0x4 :: u16" "0x1f"]
    by auto
  then show ?thesis
    using assms unfolding and_not_zero_iff inherit_flags_def Let_def
    by (auto simp: bit_and_iff bit_or_iff)
qed

lemma inherit_flags_inherited: "inherit_flags c f AND INFS_ACE_INHERITED \<noteq> 0"
proof -
  have "bit (inherit_flags c f AND INFS_ACE_INHERITED) 4"
    by (simp add: inherit_flags_def Let_def bit_and_iff bit_or_iff)
  then show ?thesis by (metis bit_0_eq bot_apply bot_bool_def)
qed

lemma inherit_flags_file: "inherit_flags False f AND 0xF = 0"
  by (simp add: inherit_flags_def and.assoc)

lemma flag_bits:
  "bit (1 :: u16) n = (n = 0)" "bit (2 :: u16) n = (n = 1)" "bit (4 :: u16) n = (n = 2)"
  "bit (8 :: u16) n = (n = 3)" "bit (0x10 :: u16) n = (n = 4)" "bit (0x1f :: u16) n = (n < 5)"
proof -
  have e: "bit (2 ^ k :: u16) n = (n = k \<and> k < 16)" for k by (auto simp: bit_exp_iff)
  show "bit (1 :: u16) n = (n = 0)" "bit (2 :: u16) n = (n = 1)" "bit (4 :: u16) n = (n = 2)"
    "bit (8 :: u16) n = (n = 3)" "bit (0x10 :: u16) n = (n = 4)"
    using e [of 0] e [of 1] e [of 2] e [of 3] e [of 4] by simp_all
  have "(0x1f :: u16) = mask 5" by (simp add: mask_eq_exp_minus_1)
  then show "bit (0x1f :: u16) n = (n < 5)" by (simp only: bit_mask_iff) auto
qed

lemma and_flag_zero:
  "(f AND 1 = 0) = (\<not> bit f 0)" "(f AND 2 = 0) = (\<not> bit f 1)" "(f AND 4 = 0) = (\<not> bit f 2)"
  "(f AND 8 = 0) = (\<not> bit f 3)" "(f AND (2 OR 1) = 0) = (\<not> bit f 0 \<and> \<not> bit f 1)" for f :: u16
  unfolding word_zero_iff_bits bit_and_iff bit_or_iff flag_bits by metis+

lemma inherit_copied_reaches: "inherit_copied dir (a_flags a) = ace_reaches dir a"
  unfolding inherit_copied_def ace_reaches_def Let_def and_flag_zero by auto

lemma inherit_flags_child:
  assumes "a_flags a AND NOT INFS_ACE_KNOWN_FLAGS = 0"
  shows "bit (inherit_flags dir (a_flags a)) n = child_flag dir a n"
proof -
  have "\<not> bit (a_flags a) n" if "5 \<le> n" using assms that unfolding and_not_zero_iff flag_bits by auto
  then have n: "n = 0 \<or> n = 1 \<or> n = 2 \<or> n = 3 \<or> n = 4 \<or> 5 \<le> n \<and> \<not> bit (a_flags a) n" by linarith
  have bit_if: "bit (if c then x else y) n = (if c then bit x n else bit y n)" for c and x y :: u16
    by simp
  show ?thesis
    using n unfolding inherit_flags_def child_flag_def Let_def and_flag_zero bit_if bit_and_iff
      bit_or_iff bit_not_iff_eq flag_bits
    by (elim disjE conjE) auto
qed

lemma inherit_ace_from:
  assumes "a_flags a AND NOT INFS_ACE_KNOWN_FLAGS = 0"
  shows "inherited_from dir owner grp a (inherit_ace dir owner grp a)"
  using inherit_flags_child [OF assms] by (simp add: inherited_from_def inherit_ace_def)

lemma inherit_ace_valid:
  assumes "infs_security_ace_is_valid a" "length owner = 16" "length grp = 16"
    "id_nonzero owner" "id_nonzero grp"
    "\<not> infs_security_principal_id_is_reserved owner"
    "\<not> infs_security_principal_id_is_reserved grp"
  shows "infs_security_ace_is_valid (inherit_ace c owner grp a)"
proof -
  let ?t = "inherit_ace c owner grp a"
  have noc: "\<not> infs_security_principal_id_is_creator owner" "\<not> infs_security_principal_id_is_creator grp"
    using assms creator_reserved by blast+
  have nc: "\<not> infs_security_principal_id_is_creator (a_principal_id ?t)"
    using noc by (auto simp: inherit_ace_def infs_security_principal_id_is_creator_def)
  have fl: "a_flags ?t AND NOT INFS_ACE_KNOWN_FLAGS = 0"
    using assms(1) inherit_flags_known [of "a_flags a" c]
    by (simp add: inherit_ace_def infs_security_ace_is_valid_def)
  show ?thesis
    unfolding infs_security_ace_is_valid_def
    using assms(1,4-7) nc fl by (auto simp: inherit_ace_def infs_security_ace_is_valid_def)
qed

lemma dacl_bit: "(1 OR (f AND 4)) AND NOT 7 = (0 :: u16)" "(1 OR (f AND 4)) AND 1 \<noteq> (0 :: u16)"
proof -
  show "(1 OR (f AND 4)) AND NOT 7 = (0 :: u16)"
    unfolding and_not_zero_iff bit_or_iff bit_and_iff
    using and_not_zero_iff [of "1 :: u16" 7] and_not_zero_iff [of "4 :: u16" 7] by auto
  have "bit ((1 OR (f AND 4)) AND 1 :: u16) 0" by (simp add: bit_and_iff bit_or_iff)
  then show "(1 OR (f AND 4)) AND 1 \<noteq> (0 :: u16)" by (metis bit_0_eq bot_apply bot_bool_def)
qed

section \<open>Single-bit tests\<close>

lemma and_exp_nonzero: "(x AND 2 ^ k \<noteq> 0) = bit x k" for x :: "'w::len word"
  by (simp add: and_exp_eq_0_iff_not_bit)

lemma bit_or_if [simp]: "bit (or_if c m r) n \<longleftrightarrow> bit r n \<or> (c \<and> bit m n)"
  by (auto simp: or_if_def bit_or_iff)

lemmas right_defs =
  INFS_RIGHT_READ_DATA_def
  INFS_RIGHT_WRITE_DATA_def
  INFS_RIGHT_APPEND_DATA_def
  INFS_RIGHT_EXECUTE_def
  INFS_RIGHT_LIST_DIRECTORY_def
  INFS_RIGHT_TRAVERSE_DIRECTORY_def
  INFS_RIGHT_CREATE_FILE_def
  INFS_RIGHT_CREATE_DIRECTORY_def
  INFS_RIGHT_DELETE_def
  INFS_RIGHT_DELETE_CHILD_def
  INFS_RIGHT_READ_ATTRIBUTES_def
  INFS_RIGHT_WRITE_ATTRIBUTES_def
  INFS_RIGHT_READ_NAMED_METADATA_def
  INFS_RIGHT_WRITE_NAMED_METADATA_def
  INFS_RIGHT_READ_PERMISSIONS_def
  INFS_RIGHT_CHANGE_PERMISSIONS_def
  INFS_RIGHT_TAKE_OWNERSHIP_def

lemmas win32_defs =
  INFS_WIN32_FILE_READ_DATA_def
  INFS_WIN32_FILE_LIST_DIRECTORY_def
  INFS_WIN32_FILE_WRITE_DATA_def
  INFS_WIN32_FILE_ADD_FILE_def
  INFS_WIN32_FILE_APPEND_DATA_def
  INFS_WIN32_FILE_ADD_SUBDIRECTORY_def
  INFS_WIN32_FILE_READ_EA_def
  INFS_WIN32_FILE_WRITE_EA_def
  INFS_WIN32_FILE_EXECUTE_def
  INFS_WIN32_FILE_TRAVERSE_def
  INFS_WIN32_FILE_DELETE_CHILD_def
  INFS_WIN32_FILE_READ_ATTRIBUTES_def
  INFS_WIN32_FILE_WRITE_ATTRIBUTES_def
  INFS_WIN32_DELETE_def
  INFS_WIN32_READ_CONTROL_def
  INFS_WIN32_WRITE_DAC_def
  INFS_WIN32_WRITE_OWNER_def
  INFS_WIN32_SYNCHRONIZE_def
  INFS_WIN32_ACCESS_SYSTEM_SECURITY_def
  INFS_WIN32_MAXIMUM_ALLOWED_def
  INFS_WIN32_GENERIC_ALL_def
  INFS_WIN32_GENERIC_EXECUTE_def
  INFS_WIN32_GENERIC_WRITE_def
  INFS_WIN32_GENERIC_READ_def

lemma bit_exp64: "bit (2 ^ k :: u64) n \<longleftrightarrow> n = k \<and> k < 64"
  by (auto simp: bit_exp_iff)

lemma bit_exp32: "bit (2 ^ k :: u32) n \<longleftrightarrow> n = k \<and> k < 32"
  by (auto simp: bit_exp_iff)

lemma rights_to_mask_no_generic:
  "28 \<le> n \<Longrightarrow> \<not> bit (infs_win32_rights_to_access_mask rights directory) n"
  unfolding infs_win32_rights_to_access_mask_def Let_def win32_defs
  by (cases directory) (auto simp only: bit_or_if bit_exp32 if_True if_False bit_0_eq bot_apply
      bot_bool_def)

lemma expand_generic_id:
  assumes "\<And>n. 28 \<le> n \<Longrightarrow> \<not> bit m n"
  shows "infs_win32_expand_generic_access m = m"
proof -
  have g: "\<not> bit m 28" "\<not> bit m 29" "\<not> bit m 30" "\<not> bit m 31" by (simp_all add: assms)
  have "bit (m AND NOT (2 ^ 28 OR 2 ^ 29 OR 2 ^ 30 OR 2 ^ 31)) n = bit m n" for n
    using g by (auto simp only: bit_and_iff bit_not_iff bit_or_iff bit_exp32 possible_bit_word
        dest: bit_imp_le_length)
  then have "m AND NOT (2 ^ 28 OR 2 ^ 29 OR 2 ^ 30 OR 2 ^ 31) = m"
    by (intro bit_word_eqI) blast
  then show ?thesis
    using g unfolding infs_win32_expand_generic_access_def Let_def win32_defs and_exp_nonzero
    by (simp only: or_if_def if_False)
qed

lemma win32_rights_roundtrip:
  "bit (infs_win32_access_mask_to_rights (infs_win32_rights_to_access_mask rights d) d) n \<longleftrightarrow>
     bit rights n \<and> n \<in> win32_expressible d"
proof -
  have e: "infs_win32_expand_generic_access (infs_win32_rights_to_access_mask rights d) =
      infs_win32_rights_to_access_mask rights d"
    by (rule expand_generic_id) (rule rights_to_mask_no_generic)
  show ?thesis
    unfolding infs_win32_access_mask_to_rights_def e
    unfolding infs_win32_rights_to_access_mask_def Let_def win32_defs right_defs and_exp_nonzero
      win32_expressible_def
    by (cases d) (simp_all only: if_True if_False bit_or_if bit_exp32 bit_exp64, auto)
qed

lemma win32_expressible_bits:
  "n \<in> win32_expressible d \<longleftrightarrow> bit (if d then 0x1FFF0 else 0x1FD0F :: u64) n"
proof (cases "n < 17")
  case True
  then have "n \<in> {0, 1, 2, 3, 4, 5, 6, 7, 8, 9, 10, 11, 12, 13, 14, 15, 16}"
    by (simp, arith)
  then show ?thesis
    by (elim insertE emptyE) (simp_all add: win32_expressible_def)
next
  case False
  have "(0x1FFF0 :: u64) = take_bit 17 0x1FFF0" "(0x1FD0F :: u64) = take_bit 17 0x1FD0F" by simp_all
  then have "\<not> bit (0x1FFF0 :: u64) n" "\<not> bit (0x1FD0F :: u64) n"
    using False by (metis bit_take_bit_iff)+
  then show ?thesis using False by (auto simp: win32_expressible_def)
qed

section \<open>Bindings round-trip\<close>

lemma posix_value:
  assumes "length a = 16"
  shows "(put_bytes 0 a (zeros 68))[16 := w, 17 := x, 18 := y, 19 := z] =
         a @ [w, x, y, z] @ zeros 48"
proof -
  have "put_bytes 0 a (zeros 68) = a @ [0, 0, 0, 0] @ zeros 48"
    using assms by (simp add: put_bytes_def zeros_def numeral_eq_Suc)
  then show ?thesis using assms by (simp add: list_update_append)
qed

lemma reassemble32:
  fixes v :: u32
  shows "(ucast (ucast v :: u8) OR push_bit 8 (ucast (ucast (drop_bit 8 v) :: u8)) OR
    push_bit 16 (ucast (ucast (drop_bit 16 v) :: u8)) OR
    push_bit 24 (ucast (ucast (drop_bit 24 v) :: u8)) :: u32) = v"
proof (rule bit_word_eqI, goal_cases)
  case (1 n)
  consider "n < 8" | "8 \<le> n" "n < 16" | "16 \<le> n" "n < 24" | "24 \<le> n" by linarith
  then show ?case
    using 1 by cases (auto simp: bit_or_iff bit_push_bit_iff bit_ucast_iff bit_drop_bit_eq)
qed

section \<open>Properties\<close>

text \<open>C9: An access check succeeds exactly when the descriptor is valid, only defined rights are
  requested, and for every requested right the first entry that applies to the subject and
  names that right is an allow entry; entries that are inherit-only never decide.\<close>

theorem access_allowed_iff:
  "infs_security_access_allowed d ids requested \<longleftrightarrow>
     infs_security_descriptor_is_valid d \<and> requested AND NOT INFS_RIGHT_ALL = 0 \<and>
     length ids \<le> (2 ^ 64 - 1) div 16 \<and>
     (\<forall>r. bit requested r \<longrightarrow>
        (\<exists>a. decider d ids (d_aces d) r = Some a \<and> a_disposition a = INFS_ACE_ALLOW))"
proof -
  have "infs_security_descriptor_is_valid d \<Longrightarrow> decider d ids (d_aces d) r = Some a \<Longrightarrow>
        a_disposition a \<noteq> INFS_ACE_DENY \<longleftrightarrow> a_disposition a = INFS_ACE_ALLOW" for r a
    by (auto simp: decider_def find_Some_iff list_all_length infs_security_descriptor_is_valid_def
        infs_security_ace_is_valid_def)
  then have "infs_security_descriptor_is_valid d \<Longrightarrow> right_granted d ids (d_aces d) r \<longleftrightarrow>
      (\<exists>a. decider d ids (d_aces d) r = Some a \<and> a_disposition a = INFS_ACE_ALLOW)" for r
    unfolding right_granted_def by blast
  then show ?thesis
    unfolding infs_security_access_allowed_def
    by (cases "requested = 0") (auto simp: access_loop_iff not_less)
qed

lemmas example_defs = example_descriptor_def example_owner_def infs_principal_everyone_id_def
  infs_principal_owner_id_def infs_principal_group_id_def infs_principal_creator_owner_id_def
  infs_principal_creator_group_id_def infs_security_principal_id_is_reserved_def
  infs_security_principal_id_is_well_known_def infs_security_principal_id_is_creator_def
  id_equal_def id_nonzero_def ace_applies_def ace_effective_def

lemma example_valid: "infs_security_descriptor_is_valid example_descriptor"
  unfolding infs_security_descriptor_is_valid_def infs_security_ace_is_valid_def
  by (simp add: example_defs)

theorem access_allowed_iff_witness:
  "infs_security_access_allowed example_descriptor [example_owner] 1 \<and>
   \<not> infs_security_access_allowed example_descriptor [example_owner] 2"
proof
  have one: "bit (1 :: u64) r \<longleftrightarrow> r = 0" for r by (simp add: bit_1_iff)
  have two: "bit (2 :: u64) 1" by (simp add: bit_1_iff flip: bit_double_iff)
  have d0: "decider example_descriptor [example_owner] (d_aces example_descriptor) 0 =
      Some (d_aces example_descriptor ! 1)"
    unfolding decider_def by (simp add: example_defs)
  have d1: "decider example_descriptor [example_owner] (d_aces example_descriptor) 1 =
      Some (d_aces example_descriptor ! 0)"
    unfolding decider_def by (simp add: example_defs)
  show "infs_security_access_allowed example_descriptor [example_owner] 1"
    unfolding access_allowed_iff using example_valid d0 one by (simp add: example_descriptor_def)
  show "\<not> infs_security_access_allowed example_descriptor [example_owner] 2"
  proof
    assume "infs_security_access_allowed example_descriptor [example_owner] 2"
    then obtain a where "decider example_descriptor [example_owner] (d_aces example_descriptor) 1 = Some a"
      "a_disposition a = 1"
      unfolding access_allowed_iff using two by blast
    with d1 have "a_disposition (d_aces example_descriptor ! 0) = 1" by simp
    then show False by (simp add: example_descriptor_def)
  qed
qed

text \<open>C10: Inheritance computes exactly the descriptor its inheritance flags describe. It succeeds
  when the parent is valid, owner and group are ordinary principals and the entry array can be
  allocated. The child is then a valid descriptor with the requested owner and group and the
  parent's auto-inherit flag, and its entries are, in order, those of the parent that reach the
  child: each keeps its disposition and rights, creator-owner and creator-group are replaced
  by the owner and the group, and every flag is the prescribed one. A file's entries
  propagate no further. A directory's keep propagating unless marked no-propagate, and are
  inherit-only exactly when they are meant for files only. Otherwise it fails with the error
  of the first condition missed.\<close>

theorem inherit_descriptor_exact:
  assumes "length owner = 16" "length grp = 16"
  shows "case infs_security_inherit_descriptor calloc_ok parent dir owner grp of
      Inr child \<Rightarrow>
        infs_security_descriptor_is_valid parent \<and> infs_security_descriptor_is_valid child \<and>
        d_owner_principal_id child = owner \<and> d_primary_group_principal_id child = grp \<and>
        d_flags child = INFS_SECURITY_DACL_PRESENT OR (d_flags parent AND INFS_SECURITY_AUTO_INHERIT) \<and>
        list_all2 (inherited_from dir owner grp) (filter (ace_reaches dir) (d_aces parent)) (d_aces child) \<and>
        (let n = length (filter (ace_reaches dir) (d_aces parent)) in n \<noteq> 0 \<longrightarrow> calloc_ok n)
    | Inl e \<Rightarrow>
        if infs_security_descriptor_is_valid parent \<and> id_nonzero owner \<and> id_nonzero grp \<and>
           \<not> infs_security_principal_id_is_reserved owner \<and> \<not> infs_security_principal_id_is_reserved grp
        then e = INFS_STATUS_NO_MEMORY \<and>
             (let n = length (filter (ace_reaches dir) (d_aces parent)) in n \<noteq> 0 \<and> \<not> calloc_ok n)
        else e = INFS_STATUS_INVALID_ARGUMENT"
proof (cases "infs_security_descriptor_is_valid parent \<and> id_nonzero owner \<and> id_nonzero grp \<and>
    \<not> infs_security_principal_id_is_reserved owner \<and> \<not> infs_security_principal_id_is_reserved grp")
  case ok: True
  have known: "a_flags a AND NOT INFS_ACE_KNOWN_FLAGS = 0" if "a \<in> set (d_aces parent)" for a
    using that ok by (auto simp: infs_security_descriptor_is_valid_def list_all_iff infs_security_ace_is_valid_def)
  have from_parent: "list_all2 (inherited_from dir owner grp) xs (map (inherit_ace dir owner grp) xs)"
    if "set xs \<subseteq> set (d_aces parent)" for xs
    using that known by (induction xs) (auto simp: inherit_ace_from)
  have "infs_security_ace_is_valid (inherit_ace dir owner grp a)" if "a \<in> set (d_aces parent)" for a
    using that ok assms inherit_ace_valid by (auto simp: infs_security_descriptor_is_valid_def list_all_iff)
  then show ?thesis
    using ok assms from_parent [of "filter (ace_reaches dir) (d_aces parent)"] dacl_bit
    by (auto simp: infs_security_inherit_descriptor_def Let_def inherit_counted_copied inherit_copied_reaches
        infs_security_descriptor_is_valid_def list_all_iff)
next
  case False
  then show ?thesis using assms by (auto simp: infs_security_inherit_descriptor_def)
qed

theorem inherit_descriptor_exact_witness:
  "\<exists>child. infs_security_inherit_descriptor (\<lambda>_. True) example_parent False example_owner example_owner =
     Inr child \<and> infs_security_descriptor_is_valid child \<and>
     list_all2 (inherited_from False example_owner example_owner)
       [\<lparr> a_principal_id = infs_principal_creator_owner_id, a_rights = 1, a_disposition = 1, a_flags = 5 \<rparr>]
       (d_aces child)"
proof -
  have p: "infs_security_descriptor_is_valid example_parent"
    unfolding infs_security_descriptor_is_valid_def infs_security_ace_is_valid_def
    by (simp add: example_defs example_parent_def)
  have o: "id_nonzero example_owner" "\<not> infs_security_principal_id_is_reserved example_owner"
    "length example_owner = 16"
    by (simp_all add: example_defs)
  have "filter (ace_reaches False) (d_aces example_parent) =
    [\<lparr> a_principal_id = infs_principal_creator_owner_id, a_rights = 1, a_disposition = 1, a_flags = 5 \<rparr>]"
    by (simp add: example_parent_def ace_reaches_def)
  then show ?thesis
    using inherit_descriptor_exact [OF o(3) o(3), where calloc_ok = "\<lambda>_. True" and parent = example_parent and dir = False] p o
    by (auto split: sum.splits)
qed

text \<open>C11: A POSIX binding is built exactly from a nonzero authority and one of the two POSIX
  types; it is then valid, has the requested type, and gives back exactly that authority and
  numeric id. Any other arguments are refused.\<close>

theorem posix_binding_roundtrip:
  assumes "length authority = 16"
  shows "if id_nonzero authority \<and> type \<in> {INFS_BINDING_POSIX_UID, INFS_BINDING_POSIX_GID}
    then \<exists>b. infs_security_binding_init_posix type authority n = Inr b \<and> b_type b = type \<and>
             infs_security_binding_is_valid b \<and>
             infs_security_binding_get_posix b = Inr (authority, n)
    else infs_security_binding_init_posix type authority n = Inl INFS_STATUS_INVALID_ARGUMENT"
proof -
  have "id_nonzero (authority @ xs) = id_nonzero authority" for xs
    using assms by (simp add: id_nonzero_def)
  then show ?thesis
    using assms
    by (auto simp: infs_security_binding_init_posix_def infs_security_binding_get_posix_def
        infs_security_binding_is_valid_def Let_def posix_value nth_append reassemble32)
qed

theorem posix_binding_roundtrip_witness:
  "\<exists>b. infs_security_binding_init_posix 1 example_owner 1000 = Inr b \<and> b_type b = 1 \<and>
       infs_security_binding_get_posix b = Inr (example_owner, 1000)"
  using posix_binding_roundtrip [of example_owner 1 1000]
  by (auto simp: example_owner_def id_nonzero_def)

text \<open>C12: Projecting portable rights to a Windows access mask and back keeps exactly the rights
  the projection can express for that kind of object: five directory rights or four file rights,
  and the eight rights common to both.\<close>

theorem win32_projection_roundtrip:
  "infs_win32_access_mask_to_rights (infs_win32_rights_to_access_mask rights d) d =
   rights AND (if d then 0x1FFF0 else 0x1FD0F)"
proof (rule bit_word_eqI)
  fix n :: nat assume n: "n < LENGTH(64)"
  have "n \<in> win32_expressible d \<longleftrightarrow> bit (if d then 0x1FFF0 else 0x1FD0F :: u64) n"
    by (rule win32_expressible_bits)
  then show "bit (infs_win32_access_mask_to_rights (infs_win32_rights_to_access_mask rights d) d) n =
      bit (rights AND (if d then 0x1FFF0 else 0x1FD0F)) n"
    by (simp add: win32_rights_roundtrip bit_and_iff)
qed

end
