(* ===== verification/Fs.thy ===== *)
theory Fs
  imports Security
begin

unbundle bit_operations_syntax

text \<open>
  The block codecs of \<open>src/fs.c\<close>: checkpoint superblocks, object blocks with the payload shape
  checks of every object type, metadata pages, allocation-tree pages, and the encoders of the
  root directory and the object index. A block is a list of 4096 bytes; \<open>memset\<close> and
  \<open>memcpy\<close> into it are \<open>put_bytes\<close>, a structure at an offset is read by its \<open>..._of\<close>.
  An encoder returns the new block or a status; a validator is a Boolean function. The pointer
  arguments are values here, so the NULL guards of the sources do not appear; an optional
  argument is an option.

  Every kind of block is sealed the same way, by a CRC-64 over the block with its 32-byte
  checksum field zeroed. The locale \<open>crc_sealed\<close> is that contract; it is interpreted for each
  validator, and gives the detection of every corruption confined to eight bytes outside the
  checksum field, or to the field itself.
\<close>

section \<open>Common helpers\<close>

definition block_crc_with_zeroed_checksum :: "bytes \<Rightarrow> nat \<Rightarrow> nat \<Rightarrow> u64" where
  "block_crc_with_zeroed_checksum block checksum_offset checksum_size =
     infs_crc64_ecma (put_bytes checksum_offset (zeros checksum_size) block)"

definition bytes_are_zero :: "bytes \<Rightarrow> bool" where
  "bytes_are_zero bs \<longleftrightarrow> or_bytes bs = 0"

definition id_is_nonzero :: "bytes \<Rightarrow> bool" where
  "id_is_nonzero i \<longleftrightarrow> \<not> bytes_are_zero (take 16 i)"

definition superblock_label_valid :: "ext_lib \<Rightarrow> bytes \<Rightarrow> bool" where
  "superblock_label_valid E label =
     (let len = length (takeWhile (\<lambda>b. b \<noteq> 0) (take INFS_LABEL_MAX label))
      in if len \<ge> INFS_LABEL_MAX then False
         else if len \<noteq> 0 \<and> \<not> utf8_validate E (take len label) then False
         else list_all (\<lambda>b. b = 0) (get_bytes (len + 1) (INFS_LABEL_MAX - (len + 1)) label))"

definition object_type_valid :: "u16 \<Rightarrow> bool" where
  "object_type_valid type \<longleftrightarrow>
     type = INFS_OBJECT_DIRECTORY \<or> type = INFS_OBJECT_FILE \<or> type = INFS_OBJECT_INDEX \<or>
     type = INFS_OBJECT_CHECKSUM \<or> type = INFS_OBJECT_SYMLINK \<or>
     type = INFS_OBJECT_SNAPSHOT_CATALOG \<or> type = INFS_OBJECT_PRINCIPAL \<or>
     type = INFS_OBJECT_SECURITY \<or> type = INFS_OBJECT_SECURITY_BINDING \<or>
     type = INFS_OBJECT_EXTENSION \<or> type = INFS_OBJECT_METADATA_SET \<or>
     type = INFS_OBJECT_NAMED_STREAM"

definition object_version_valid :: "u16 \<Rightarrow> u16 \<Rightarrow> bool" where
  "object_version_valid type version =
     (if version = INFS_OBJECT_VERSION_CLASSIC then True
      else if version = INFS_OBJECT_VERSION_PAGED then
        type = INFS_OBJECT_DIRECTORY \<or> type = INFS_OBJECT_INDEX \<or> type = INFS_OBJECT_FILE \<or>
        type = INFS_OBJECT_NAMED_STREAM \<or> type = INFS_OBJECT_SNAPSHOT_CATALOG \<or>
        type = INFS_OBJECT_SECURITY
      else version = INFS_OBJECT_VERSION_TREE \<and>
        (type = INFS_OBJECT_INDEX \<or> type = INFS_OBJECT_DIRECTORY \<or>
         type = INFS_OBJECT_FILE \<or> type = INFS_OBJECT_NAMED_STREAM))"

text \<open>The header of an object block, and the payload bytes that follow it.\<close>

definition object_header :: "ext_lib \<Rightarrow> bytes \<Rightarrow> infs_object_header_disk" where
  "object_header E block = object_header_of E (get_bytes 0 96 block)"

definition object_payload :: "bytes \<Rightarrow> u32 \<Rightarrow> bytes" where
  "object_payload block payload_size = get_bytes 96 (unat payload_size) block"

section \<open>Payload shapes\<close>

definition index_payload_shape_valid :: "ext_lib \<Rightarrow> bytes \<Rightarrow> u32 \<Rightarrow> u16 \<Rightarrow> bool" where
  "index_payload_shape_valid E block payload_size object_version =
     (let ps = unat payload_size;
          body = object_payload block payload_size;
          payload = index_payload_of E (get_bytes 0 8 body);
          count = unat (ip_entry_count payload);
          reserved = unat (ip_reserved payload)
      in if ps < 8 then False
         else if object_version = INFS_OBJECT_VERSION_CLASSIC then
           \<not> (reserved \<noteq> 0 \<or> count > (INFS_BLOCK_SIZE - 96 - 8) div 32) \<and> 8 + count * 32 = ps
         else if object_version = INFS_OBJECT_VERSION_TREE then
           \<not> (reserved \<noteq> 0 \<or> count = 0 \<or> ps \<noteq> 8 + 8) \<and> ld64 E (get_bytes 8 8 body) \<noteq> 0
         else
           \<not> (reserved > INFS_INDEX_PAGE_POINTERS \<or> (count = 0 \<and> reserved \<noteq> 0) \<or>
              (count \<noteq> 0 \<and> reserved = 0) \<or> count > reserved * INFS_INDEX_ENTRIES_PER_PAGE) \<and>
           8 + reserved * 8 = ps)"

definition symlink_payload_shape_valid :: "ext_lib \<Rightarrow> bytes \<Rightarrow> u32 \<Rightarrow> bool" where
  "symlink_payload_shape_valid E block payload_size =
     (let ps = unat payload_size;
          body = object_payload block payload_size;
          payload = symlink_payload_of E (get_bytes 0 144 body);
          len = unat (sl_target_length payload);
          target = get_bytes 144 len body
      in if ps < 144 then False
         else if len = 0 \<or> len > INFS_SYMLINK_TARGET_MAX \<or> sl_reserved payload \<noteq> 0 \<or>
                 ps \<noteq> 144 + len \<or>
                 at_logical_size (sl_attributes payload) \<noteq> ucast (sl_target_length payload)
         then False
         else 0 \<notin> set target \<and> utf8_validate E target)"

definition security_binding_disk_valid :: "ext_lib \<Rightarrow> infs_security_binding_disk \<Rightarrow> bool" where
  "security_binding_disk_valid E binding =
     (if bd_reserved binding \<noteq> 0 then False
      else if unat (bd_value_size binding) > INFS_SECURITY_BINDING_MAX then False
      else
        let sz = unat (bd_value_size binding);
            decoded = \<lparr> b_type = bd_type binding, b_flags = bd_flags binding,
                        b_size = bd_value_size binding,
                        b_value = put_bytes 0 (take sz (bd_value binding)) (zeros INFS_SECURITY_BINDING_MAX) \<rparr>
        in infs_security_binding_is_valid decoded \<and>
           list_all (\<lambda>b. b = 0) (drop sz (bd_value binding)))"

definition principal_binding :: "ext_lib \<Rightarrow> bytes \<Rightarrow> nat \<Rightarrow> infs_security_binding_disk" where
  "principal_binding E body i = security_binding_of E (get_bytes (16 + i * 76) 76 body)"

definition principal_payload_shape_valid :: "ext_lib \<Rightarrow> bytes \<Rightarrow> u32 \<Rightarrow> bool" where
  "principal_payload_shape_valid E block payload_size =
     (let ps = unat payload_size;
          header = object_header E block;
          body = object_payload block payload_size;
          payload = principal_payload_of E (get_bytes 0 16 body);
          count = unat (pp_binding_count payload);
          kind = pp_kind payload;
          nbytes = unat (pp_binding_bytes payload)
      in if ps < 16 then False
         else if pp_version payload \<noteq> INFS_SECURITY_VERSION \<or>
                 kind < INFS_PRINCIPAL_USER \<or> kind > INFS_PRINCIPAL_SERVICE \<or>
                 pp_flags payload \<noteq> 0 \<or> pp_reserved payload \<noteq> 0 \<or>
                 nbytes \<noteq> count * 76 \<or> ps \<noteq> 16 + nbytes \<or>
                 count > INFS_PRINCIPAL_BINDINGS_PER_OBJECT \<or>
                 infs_security_principal_id_is_reserved (oh_object_id header) \<or>
                 \<not> bytes_are_zero (oh_parent_id header)
         then False
         else list_all (\<lambda>i.
           let b = principal_binding E body i
           in security_binding_disk_valid E b \<and>
              list_all (\<lambda>j.
                let c = principal_binding E body j
                in \<not> (bd_type b = bd_type c \<and> bd_value_size b = bd_value_size c \<and>
                      take (unat (bd_value_size b)) (bd_value b) =
                      take (unat (bd_value_size b)) (bd_value c))) [0..<i]) [0..<count])"

definition security_binding_index_payload_shape_valid :: "ext_lib \<Rightarrow> bytes \<Rightarrow> u32 \<Rightarrow> bool" where
  "security_binding_index_payload_shape_valid E block payload_size =
     (let ps = unat payload_size;
          header = object_header E block;
          body = object_payload block payload_size;
          payload = security_binding_index_payload_of E (get_bytes 0 128 body);
          slot = bi_slot payload;
          sz = unat (bi_binding_size payload);
          binding = \<lparr> b_type = bi_binding_type payload, b_flags = 0,
                      b_size = bi_binding_size payload,
                      b_value = put_bytes 0 (take sz (bi_value payload)) (zeros INFS_SECURITY_BINDING_MAX) \<rparr>
      in if ps \<noteq> 128 then False
         else if bi_version payload \<noteq> INFS_SECURITY_VERSION \<or>
                 unat slot \<ge> INFS_SECURITY_HASH_SLOTS \<or>
                 sz = 0 \<or> sz > INFS_SECURITY_BINDING_MAX \<or> bi_reserved payload \<noteq> 0 \<or>
                 \<not> id_is_nonzero (bi_principal_id payload) \<or>
                 infs_security_principal_id_is_reserved (bi_principal_id payload) \<or>
                 oh_parent_id header \<noteq> bi_principal_id payload
         then False
         else if b_type binding = INFS_BINDING_OPAQUE \<or> \<not> infs_security_binding_is_valid binding
         then False
         else if \<not> list_all (\<lambda>b. b = 0) (drop sz (bi_value payload)) then False
         else case infs_security_binding_digest E binding of
                Inl _ \<Rightarrow> False
              | Inr digest \<Rightarrow>
                  digest = bi_binding_digest payload \<and>
                  infs_security_binding_index_object_id E digest slot = oh_object_id header)"

definition security_ace_disk_valid :: "infs_security_ace_disk \<Rightarrow> bool" where
  "security_ace_disk_valid ace =
     (if ae_reserved ace \<noteq> 0 then False
      else infs_security_ace_is_valid \<lparr> a_principal_id = ae_principal_id ace, a_rights = ae_rights ace,
             a_disposition = ae_disposition ace, a_flags = ae_flags ace \<rparr>)"

definition security_payload_shape_valid :: "ext_lib \<Rightarrow> bytes \<Rightarrow> u32 \<Rightarrow> u16 \<Rightarrow> bool" where
  "security_payload_shape_valid E block payload_size object_version =
     (let ps = unat payload_size;
          header = object_header E block;
          body = object_payload block payload_size;
          payload = security_payload_of E (get_bytes 0 80 body);
          flags = sp_flags payload;
          count = unat (sp_ace_count payload);
          pages = unat (sp_page_count payload)
      in if ps < 80 then False
         else if sp_version payload \<noteq> INFS_SECURITY_VERSION \<or>
                 flags AND NOT INFS_SECURITY_KNOWN_FLAGS \<noteq> 0 \<or>
                 flags AND INFS_SECURITY_DACL_PRESENT = 0 \<or>
                 unat (sp_identity_slot payload) \<ge> INFS_SECURITY_HASH_SLOTS \<or>
                 sp_reserved payload \<noteq> 0 \<or>
                 \<not> id_is_nonzero (sp_owner_principal_id payload) \<or>
                 \<not> id_is_nonzero (sp_primary_group_principal_id payload) \<or>
                 infs_security_principal_id_is_reserved (sp_owner_principal_id payload) \<or>
                 infs_security_principal_id_is_reserved (sp_primary_group_principal_id payload) \<or>
                 \<not> bytes_are_zero (oh_parent_id header) \<or>
                 count > INFS_SECURITY_MAX_ACES
         then False
         else if infs_security_descriptor_object_id E (sp_semantic_digest payload)
                   (sp_identity_slot payload) \<noteq> oh_object_id header
         then False
         else if object_version = INFS_OBJECT_VERSION_CLASSIC then
           if pages \<noteq> 0 \<or> count > INFS_SECURITY_INLINE_ACES \<or> ps \<noteq> 80 + count * 32 then False
           else list_all (\<lambda>i. security_ace_disk_valid
                  (security_ace_of E (get_bytes (80 + i * 32) 32 body))) [0..<count]
         else if object_version \<noteq> INFS_OBJECT_VERSION_PAGED then False
         else
           let expected_pages = (if count \<noteq> 0
                 then (count + INFS_SECURITY_ACES_PER_PAGE - 1) div INFS_SECURITY_ACES_PER_PAGE else 0)
           in if pages \<noteq> expected_pages \<or> pages > INFS_SECURITY_PAGE_POINTERS \<or> ps \<noteq> 80 + pages * 8
              then False
              else list_all (\<lambda>i. ld64 E (get_bytes (80 + i * 8) 8 body) \<noteq> 0) [0..<pages])"

definition extension_payload_shape_valid :: "ext_lib \<Rightarrow> bytes \<Rightarrow> u32 \<Rightarrow> bool" where
  "extension_payload_shape_valid E block payload_size =
     (let ps = unat payload_size;
          header = object_header E block;
          body = object_payload block payload_size;
          payload = extension_payload_of E (get_bytes 0 64 body);
          data_size = unat (ep_data_size payload)
      in if ps < 64 then False
         else if \<not> bytes_are_zero (oh_parent_id header) then False
         else if ep_version payload \<noteq> INFS_EXTENSION_VERSION \<or> ep_type_version payload = 0 \<or>
                 ep_reserved payload \<noteq> 0 \<or>
                 ep_flags payload AND NOT INFS_KNOWN_EXTENSION_FLAGS \<noteq> 0 \<or>
                 \<not> id_is_nonzero (ep_type_id payload) \<or>
                 data_size > INFS_EXTENSION_DATA_MAX \<or> ps \<noteq> 64 + data_size
         then False
         else infs_sha256 E (Some (get_bytes 64 data_size body)) data_size = ep_data_digest payload)"

text \<open>
  The entries of a metadata set. The scan of the earlier entries advances by their record
  sizes, which the enclosing loop has checked to be at least 24, so the guard on a positive
  step only makes the recursion well-founded.
\<close>

definition metadata_set_entry :: "ext_lib \<Rightarrow> bytes \<Rightarrow> nat \<Rightarrow> infs_metadata_stream_entry_disk" where
  "metadata_set_entry E base offset = metadata_stream_entry_of E (get_bytes offset 24 base)"

function metadata_set_duplicate :: "ext_lib \<Rightarrow> bytes \<Rightarrow> bytes \<Rightarrow> nat \<Rightarrow> nat \<Rightarrow> bool" where
  "metadata_set_duplicate E base name offset prior_offset =
     (let prior = metadata_set_entry E base prior_offset;
          prior_record = unat (me_record_size prior);
          prior_length = unat (me_name_length prior)
      in if prior_offset < offset \<and> 0 < prior_record then
           if prior_length = length name \<and> get_bytes (prior_offset + 24) prior_length base = name
           then True
           else metadata_set_duplicate E base name offset (prior_offset + prior_record)
         else False)"
  by pat_completeness auto
termination
  by (relation "measure (\<lambda>(E, base, name, offset, prior). offset - prior)") auto

declare metadata_set_duplicate.simps [simp del]

function metadata_set_loop :: "ext_lib \<Rightarrow> bytes \<Rightarrow> nat \<Rightarrow> nat \<Rightarrow> nat \<Rightarrow> nat option" where
  "metadata_set_loop E base nbytes offset seen =
     (if \<not> offset < nbytes then (if offset = nbytes then Some seen else None)
      else if nbytes - offset < 24 then None
      else
        let entry = metadata_set_entry E base offset;
            rec_size = unat (me_record_size entry);
            name_length = unat (me_name_length entry);
            name = get_bytes (offset + 24) name_length base
        in if rec_size < 24 \<or> rec_size mod 8 \<noteq> 0 \<or> rec_size > nbytes - offset \<or>
              name_length = 0 \<or> name_length > INFS_NAME_MAX \<or> 24 + name_length > rec_size \<or>
              me_flags entry \<noteq> 0 \<or> \<not> id_is_nonzero (me_stream_object_id entry)
           then None
           else if 0 \<in> set name \<or> \<not> utf8_validate E name then None
           else if \<not> list_all (\<lambda>b. b = 0)
                     (get_bytes (offset + 24 + name_length) (rec_size - (24 + name_length)) base)
           then None
           else if metadata_set_duplicate E base name offset 0 then None
           else metadata_set_loop E base nbytes (offset + rec_size) (Suc seen))"
  by pat_completeness auto
termination
  by (relation "measure (\<lambda>(E, base, nbytes, offset, seen). nbytes - offset)") auto

declare metadata_set_loop.simps [simp del]

definition metadata_set_payload_shape_valid :: "ext_lib \<Rightarrow> bytes \<Rightarrow> u32 \<Rightarrow> bool" where
  "metadata_set_payload_shape_valid E block payload_size =
     (let ps = unat payload_size;
          header = object_header E block;
          body = object_payload block payload_size;
          payload = metadata_set_payload_of E (get_bytes 0 32 body);
          count = unat (ms_entry_count payload);
          nbytes = unat (ms_bytes_used payload)
      in if ps < 32 then False
         else if \<not> bytes_are_zero (oh_parent_id header) then False
         else if ms_version payload \<noteq> INFS_METADATA_SET_VERSION \<or> ms_flags payload \<noteq> 0 \<or>
                 ms_reserved payload \<noteq> 0 \<or> nbytes > INFS_METADATA_SET_DATA_MAX \<or>
                 ps \<noteq> 32 + nbytes
         then False
         else metadata_set_loop E (drop 32 body) nbytes 0 0 = Some count)"

definition named_stream_parent_shape_valid :: "ext_lib \<Rightarrow> bytes \<Rightarrow> bool" where
  "named_stream_parent_shape_valid E block = bytes_are_zero (oh_parent_id (object_header E block))"

definition snapshot_catalog_payload_shape_valid :: "ext_lib \<Rightarrow> bytes \<Rightarrow> u32 \<Rightarrow> bool" where
  "snapshot_catalog_payload_shape_valid E block payload_size =
     (let ps = unat payload_size;
          body = object_payload block payload_size;
          payload = snapshot_catalog_payload_of E (get_bytes 0 8 body);
          count = unat (sc_snapshot_count payload);
          pages = unat (sc_reserved payload);
          expected_pages = (if count \<noteq> 0
            then (count + INFS_SNAPSHOT_RECORDS_PER_PAGE - 1) div INFS_SNAPSHOT_RECORDS_PER_PAGE else 0)
      in if ps < 8 then False
         else if oh_object_version (object_header E block) \<noteq> INFS_OBJECT_VERSION_PAGED then False
         else if count > INFS_SNAPSHOTS_PER_CATALOG \<or> pages \<noteq> expected_pages \<or>
                 pages > INFS_SNAPSHOT_PAGE_POINTERS
         then False
         else ps = 8 + pages * 8)"

section \<open>Sealing and checking a block\<close>

text \<open>Clear the 32-byte checksum field at \<open>off\<close>, then store the CRC in its first eight bytes.\<close>

definition store_crc :: "ext_lib \<Rightarrow> nat \<Rightarrow> bytes \<Rightarrow> bytes" where
  "store_crc E off block =
     (let block = put_bytes off (zeros 32) block;
          crc = block_crc_with_zeroed_checksum block off 32
      in put_bytes off (st64 E crc) block)"

definition crc_matches :: "ext_lib \<Rightarrow> nat \<Rightarrow> bytes \<Rightarrow> bool" where
  "crc_matches E off block \<longleftrightarrow>
     ld64 E (get_bytes off 8 block) = block_crc_with_zeroed_checksum block off 32"

section \<open>Superblocks\<close>

definition infs_encode_superblock :: "ext_lib \<Rightarrow> infs_superblock_disk \<Rightarrow> bytes infs_result" where
  "infs_encode_superblock E sb =
     (if \<not> superblock_label_valid E (sb_label sb) \<or>
         \<not> id_is_nonzero (sb_filesystem_uuid sb) \<or> \<not> id_is_nonzero (sb_root_object_id sb)
      then Inl INFS_STATUS_INVALID_ARGUMENT
      else Inr (store_crc E 220 (put_bytes 0 (superblock_bytes E sb) (zeros INFS_BLOCK_SIZE))))"

definition infs_validate_superblock_block_minor :: "ext_lib \<Rightarrow> bytes \<Rightarrow> u16 \<Rightarrow> bool" where
  "infs_validate_superblock_block_minor E block expected_minor =
     (let sb = superblock_of E (get_bytes 0 252 block);
          incompat_flags = sb_incompat_flags sb;
          required_flags = INFS_INCOMPAT_UTF8_NAMES OR INFS_INCOMPAT_SPARSE_EXTENTS OR
                           INFS_INCOMPAT_UNICODE_NORM_V1
      in if expected_minor \<noteq> INFS_FORMAT_MINOR \<and> expected_minor \<noteq> INFS_LOCATOR_FORMAT_MINOR then False
         else if sb_magic sb \<noteq> INFS_MAGIC then False
         else if sb_format_major sb \<noteq> INFS_FORMAT_MAJOR then False
         else if sb_format_minor sb \<noteq> expected_minor then False
         else if sb_header_size sb \<noteq> 252 then False
         else if sb_block_shift sb \<noteq> INFS_BLOCK_SHIFT then False
         else if sb_checksum_type sb \<noteq> INFS_CHECKSUM_CRC64_ECMA then False
         else if sb_generation sb = 0 then False
         else if \<not> id_is_nonzero (sb_filesystem_uuid sb) \<or> \<not> id_is_nonzero (sb_root_object_id sb)
         then False
         else if \<not> superblock_label_valid E (sb_label sb) then False
         else if incompat_flags AND NOT INFS_KNOWN_INCOMPAT_FLAGS \<noteq> 0 \<or>
                 incompat_flags AND required_flags \<noteq> required_flags
         then False
         else if \<not> bytes_are_zero (get_bytes 228 24 block) \<or>
                 \<not> bytes_are_zero (get_bytes 252 (INFS_BLOCK_SIZE - 252) block)
         then False
         else crc_matches E 220 block)"

definition infs_validate_superblock_block :: "ext_lib \<Rightarrow> bytes \<Rightarrow> bool" where
  "infs_validate_superblock_block E block =
     infs_validate_superblock_block_minor E block INFS_FORMAT_MINOR"

definition infs_decode_superblock :: "ext_lib \<Rightarrow> bytes \<Rightarrow> infs_superblock_disk infs_result" where
  "infs_decode_superblock E block =
     (if \<not> infs_validate_superblock_block E block then Inl INFS_STATUS_INVALID_ARGUMENT
      else Inr (superblock_of E (get_bytes 0 252 block)))"

section \<open>Object blocks\<close>

definition infs_object_init ::
    "ext_lib \<Rightarrow> u16 \<Rightarrow> bytes \<Rightarrow> bytes option \<Rightarrow> u64 \<Rightarrow> u32 \<Rightarrow> bytes infs_result" where
  "infs_object_init E object_type object_id parent_id generation payload_size =
     (if \<not> id_is_nonzero object_id \<or> \<not> object_type_valid object_type \<or> generation = 0 \<or>
         unat payload_size > INFS_BLOCK_SIZE - 96
      then Inl INFS_STATUS_INVALID_ARGUMENT
      else Inr (put_bytes 0 (object_header_bytes E \<lparr>
             oh_magic = INFS_OBJECT_MAGIC, oh_object_type = object_type,
             oh_object_version = INFS_OBJECT_VERSION_CLASSIC, oh_header_size = 96,
             oh_generation = generation, oh_object_id = take 16 object_id,
             oh_parent_id = (case parent_id of None \<Rightarrow> zeros 16 | Some p \<Rightarrow> take 16 p),
             oh_payload_size = payload_size, oh_checksum_type = INFS_CHECKSUM_CRC64_ECMA,
             oh_checksum = zeros 32 \<rparr>) (zeros INFS_BLOCK_SIZE)))"

text \<open>The checks that finalization and validation share, in the order of the sources.\<close>

definition object_fields_valid :: "ext_lib \<Rightarrow> bytes \<Rightarrow> bool" where
  "object_fields_valid E block =
     (let hdr = object_header E block;
          object_type = oh_object_type hdr;
          object_version = oh_object_version hdr;
          payload_size = oh_payload_size hdr
      in \<not> (oh_magic hdr \<noteq> INFS_OBJECT_MAGIC \<or>
            \<not> object_type_valid object_type \<or>
            \<not> object_version_valid object_type object_version \<or>
            oh_header_size hdr \<noteq> 96 \<or> oh_generation hdr = 0 \<or>
            \<not> id_is_nonzero (oh_object_id hdr) \<or>
            unat payload_size > INFS_BLOCK_SIZE - 96 \<or>
            oh_checksum_type hdr \<noteq> INFS_CHECKSUM_CRC64_ECMA \<or>
            (object_type = INFS_OBJECT_INDEX \<and>
             \<not> index_payload_shape_valid E block payload_size object_version) \<or>
            (object_type = INFS_OBJECT_SYMLINK \<and> \<not> symlink_payload_shape_valid E block payload_size) \<or>
            (object_type = INFS_OBJECT_SNAPSHOT_CATALOG \<and>
             \<not> snapshot_catalog_payload_shape_valid E block payload_size) \<or>
            (object_type = INFS_OBJECT_PRINCIPAL \<and> \<not> principal_payload_shape_valid E block payload_size) \<or>
            (object_type = INFS_OBJECT_SECURITY_BINDING \<and>
             \<not> security_binding_index_payload_shape_valid E block payload_size) \<or>
            (object_type = INFS_OBJECT_SECURITY \<and>
             \<not> security_payload_shape_valid E block payload_size object_version) \<or>
            (object_type = INFS_OBJECT_EXTENSION \<and> \<not> extension_payload_shape_valid E block payload_size) \<or>
            (object_type = INFS_OBJECT_METADATA_SET \<and>
             \<not> metadata_set_payload_shape_valid E block payload_size) \<or>
            (object_type = INFS_OBJECT_NAMED_STREAM \<and> \<not> named_stream_parent_shape_valid E block)))"

definition infs_object_finalize :: "ext_lib \<Rightarrow> bytes \<Rightarrow> bytes infs_result" where
  "infs_object_finalize E block =
     (if \<not> object_fields_valid E block then Inl INFS_STATUS_INVALID_ARGUMENT
      else
        let payload_size = unat (oh_payload_size (object_header E block));
            block = put_bytes (96 + payload_size) (zeros (INFS_BLOCK_SIZE - 96 - payload_size)) block
        in Inr (store_crc E 64 block))"

definition infs_validate_object_block :: "ext_lib \<Rightarrow> bytes \<Rightarrow> bool" where
  "infs_validate_object_block E block =
     (let payload_size = unat (oh_payload_size (object_header E block))
      in if \<not> object_fields_valid E block then False
         else if \<not> bytes_are_zero (get_bytes 72 24 block) \<or>
                 \<not> bytes_are_zero (get_bytes (96 + payload_size) (INFS_BLOCK_SIZE - 96 - payload_size) block)
         then False
         else crc_matches E 64 block)"

section \<open>Metadata pages\<close>

definition metadata_page :: "ext_lib \<Rightarrow> bytes \<Rightarrow> infs_metadata_page_disk" where
  "metadata_page E block = metadata_page_of E (get_bytes 0 80 block)"

definition infs_metadata_page_init :: "ext_lib \<Rightarrow> bytes \<Rightarrow> bytes \<Rightarrow> u64 \<Rightarrow> bytes infs_result" where
  "infs_metadata_page_init E magic owner_object_id generation =
     (if \<not> id_is_nonzero owner_object_id \<or> generation = 0 then Inl INFS_STATUS_INVALID_ARGUMENT
      else Inr (put_bytes 0 (metadata_page_bytes E \<lparr>
             mp_magic = take 8 magic, mp_generation = generation,
             mp_owner_object_id = take 16 owner_object_id, mp_entry_count = 0, mp_bytes_used = 0,
             mp_checksum_type = INFS_CHECKSUM_CRC64_ECMA, mp_reserved = 0,
             mp_checksum = zeros 32 \<rparr>) (zeros INFS_BLOCK_SIZE)))"

definition infs_metadata_page_finalize :: "ext_lib \<Rightarrow> bytes \<Rightarrow> bytes infs_result" where
  "infs_metadata_page_finalize E block =
     (let page = metadata_page E block;
          bytes_used = unat (mp_bytes_used page)
      in if (mp_magic page \<noteq> INFS_DIRECTORY_PAGE_MAGIC \<and>
             mp_magic page \<noteq> INFS_DIRECTORY_BRANCH_PAGE_MAGIC \<and>
             mp_magic page \<noteq> INFS_INDEX_PAGE_MAGIC \<and>
             mp_magic page \<noteq> INFS_INDEX_BRANCH_PAGE_MAGIC \<and>
             mp_magic page \<noteq> INFS_EXTENT_PAGE_MAGIC \<and>
             mp_magic page \<noteq> INFS_EXTENT_INDEX_PAGE_MAGIC \<and>
             mp_magic page \<noteq> INFS_SNAPSHOT_PAGE_MAGIC \<and>
             mp_magic page \<noteq> INFS_SECURITY_ACE_PAGE_MAGIC) \<or>
            mp_generation page = 0 \<or> \<not> id_is_nonzero (mp_owner_object_id page) \<or>
            bytes_used > INFS_METADATA_PAGE_DATA_SIZE \<or>
            mp_checksum_type page \<noteq> INFS_CHECKSUM_CRC64_ECMA \<or> mp_reserved page \<noteq> 0
         then Inl INFS_STATUS_INVALID_ARGUMENT
         else Inr (store_crc E 48
                (put_bytes (80 + bytes_used) (zeros (INFS_BLOCK_SIZE - 80 - bytes_used)) block)))"

definition infs_validate_metadata_page :: "ext_lib \<Rightarrow> bytes \<Rightarrow> bytes \<Rightarrow> bytes \<Rightarrow> bool" where
  "infs_validate_metadata_page E block magic owner_object_id =
     (let page = metadata_page E block;
          bytes_used = unat (mp_bytes_used page)
      in if mp_magic page \<noteq> take 8 magic \<or> mp_generation page = 0 \<or>
            \<not> id_is_nonzero (mp_owner_object_id page) \<or>
            mp_owner_object_id page \<noteq> take 16 owner_object_id \<or>
            bytes_used > INFS_METADATA_PAGE_DATA_SIZE \<or>
            mp_checksum_type page \<noteq> INFS_CHECKSUM_CRC64_ECMA \<or> mp_reserved page \<noteq> 0 \<or>
            \<not> bytes_are_zero (get_bytes 56 24 block) \<or>
            \<not> bytes_are_zero (get_bytes (80 + bytes_used) (INFS_BLOCK_SIZE - 80 - bytes_used) block)
         then False
         else crc_matches E 48 block)"

section \<open>Allocation-tree pages\<close>

definition allocation_page :: "ext_lib \<Rightarrow> bytes \<Rightarrow> infs_allocation_page_disk" where
  "allocation_page E block = allocation_page_of E (get_bytes 0 72 block)"

definition infs_allocation_page_init ::
    "ext_lib \<Rightarrow> bytes \<Rightarrow> u64 \<Rightarrow> u64 \<Rightarrow> u32 \<Rightarrow> bytes infs_result" where
  "infs_allocation_page_init E magic generation logical_index level =
     (if generation = 0 \<or> unat level > INFS_ALLOCATION_TREE_ROOT_LEVEL \<or>
         (level = 0 \<and> take 8 magic \<noteq> INFS_ALLOCATION_LEAF_PAGE_MAGIC) \<or>
         (level \<noteq> 0 \<and> take 8 magic \<noteq> INFS_ALLOCATION_BRANCH_PAGE_MAGIC)
      then Inl INFS_STATUS_INVALID_ARGUMENT
      else Inr (put_bytes 0 (allocation_page_bytes E \<lparr>
             ap_magic = take 8 magic, ap_generation = generation, ap_logical_index = logical_index,
             ap_level = level, ap_entry_count = 0, ap_bytes_used = 0,
             ap_checksum_type = INFS_CHECKSUM_CRC64_ECMA, ap_checksum = zeros 32 \<rparr>)
             (zeros INFS_BLOCK_SIZE)))"

text \<open>The entry and byte counts of a leaf (a bitmap) or of a branch (block pointers).\<close>

definition allocation_counts_valid :: "bool \<Rightarrow> nat \<Rightarrow> nat \<Rightarrow> bool" where
  "allocation_counts_valid leaf entries nbytes \<longleftrightarrow>
     (if leaf
      then \<not> (entries = 0 \<or> entries > INFS_ALLOCATION_BITS_PER_LEAF \<or> nbytes \<noteq> (entries + 7) div 8)
      else \<not> (entries = 0 \<or> entries > INFS_ALLOCATION_TREE_FANOUT \<or> nbytes \<noteq> entries * 8)) \<and>
     \<not> nbytes > INFS_ALLOCATION_PAGE_DATA_SIZE"

definition infs_allocation_page_finalize :: "ext_lib \<Rightarrow> bytes \<Rightarrow> bytes infs_result" where
  "infs_allocation_page_finalize E block =
     (let page = allocation_page E block;
          level = unat (ap_level page);
          entries = unat (ap_entry_count page);
          nbytes = unat (ap_bytes_used page);
          leaf = (level = 0)
      in if ap_generation page = 0 \<or> level > INFS_ALLOCATION_TREE_ROOT_LEVEL \<or>
            (leaf \<and> ap_magic page \<noteq> INFS_ALLOCATION_LEAF_PAGE_MAGIC) \<or>
            (\<not> leaf \<and> ap_magic page \<noteq> INFS_ALLOCATION_BRANCH_PAGE_MAGIC) \<or>
            ap_checksum_type page \<noteq> INFS_CHECKSUM_CRC64_ECMA
         then Inl INFS_STATUS_INVALID_ARGUMENT
         else if \<not> allocation_counts_valid leaf entries nbytes then Inl INFS_STATUS_INVALID_ARGUMENT
         else Inr (store_crc E 40
                (put_bytes (72 + nbytes) (zeros (INFS_BLOCK_SIZE - 72 - nbytes)) block)))"

definition infs_validate_allocation_page ::
    "ext_lib \<Rightarrow> bytes \<Rightarrow> bytes \<Rightarrow> u64 \<Rightarrow> u64 \<Rightarrow> u32 \<Rightarrow> bool" where
  "infs_validate_allocation_page E block magic max_generation logical_index level =
     (let page = allocation_page E block;
          generation = ap_generation page;
          entries = unat (ap_entry_count page);
          nbytes = unat (ap_bytes_used page);
          leaf = (level = 0)
      in if max_generation = 0 \<or> unat level > INFS_ALLOCATION_TREE_ROOT_LEVEL then False
         else if ap_magic page \<noteq> take 8 magic \<or> generation = 0 \<or> generation > max_generation \<or>
                 ap_logical_index page \<noteq> logical_index \<or> ap_level page \<noteq> level \<or>
                 ap_checksum_type page \<noteq> INFS_CHECKSUM_CRC64_ECMA
         then False
         else if \<not> allocation_counts_valid leaf entries nbytes then False
         else if \<not> bytes_are_zero (get_bytes 48 24 block) \<or>
                 \<not> bytes_are_zero (get_bytes (72 + nbytes) (INFS_BLOCK_SIZE - 72 - nbytes) block)
         then False
         else crc_matches E 40 block)"

section \<open>Root directory and object index\<close>

record infs_timestamp =
  t_seconds :: u64
  t_nanoseconds :: u32

definition fill_attributes :: "u64 \<Rightarrow> infs_timestamp \<Rightarrow> infs_attributes_disk" where
  "fill_attributes link_count now =
     (let t = \<lparr> ts_seconds = t_seconds now, ts_nanoseconds = t_nanoseconds now, ts_reserved = 0 \<rparr>
      in \<lparr> at_logical_size = 0, at_link_count = link_count, at_portable_flags = 0,
           at_birth_time = t, at_access_time = t, at_modification_time = t, at_change_time = t,
           at_security_object_id = zeros 16, at_extended_attributes_object_id = zeros 16 \<rparr>)"

text \<open>Rewriting the header of an object block in place.\<close>

definition set_object_header :: "ext_lib \<Rightarrow> infs_object_header_disk \<Rightarrow> bytes \<Rightarrow> bytes" where
  "set_object_header E hdr block = put_bytes 0 (object_header_bytes E hdr) block"

definition encode_root_directory_version ::
    "ext_lib \<Rightarrow> bytes \<Rightarrow> u64 \<Rightarrow> u32 \<Rightarrow> u32 \<Rightarrow> u32 \<Rightarrow> infs_timestamp \<Rightarrow> u16 \<Rightarrow> bytes infs_result" where
  "encode_root_directory_version E object_id generation permissions uid gid now object_version =
     (case infs_object_init E INFS_OBJECT_DIRECTORY object_id None generation 144 of
        Inl status \<Rightarrow> Inl status
      | Inr block \<Rightarrow>
          let block = set_object_header E
                ((object_header E block) \<lparr> oh_object_version := object_version \<rparr>) block;
              payload = \<lparr> dp_attributes = fill_attributes 2 now,
                          dp_posix = \<lparr> px_permissions = permissions AND 0xFFF, px_uid = uid,
                                       px_gid = gid, px_flags = 0 \<rparr>,
                          dp_entry_count = 0, dp_bytes_used = 0 \<rparr>
          in infs_object_finalize E (put_bytes 96 (directory_payload_bytes E payload) block))"

definition infs_encode_root_directory ::
    "ext_lib \<Rightarrow> bytes \<Rightarrow> u64 \<Rightarrow> u32 \<Rightarrow> u32 \<Rightarrow> u32 \<Rightarrow> infs_timestamp \<Rightarrow> bytes infs_result" where
  "infs_encode_root_directory E object_id generation permissions uid gid now =
     encode_root_directory_version E object_id generation permissions uid gid now
       INFS_OBJECT_VERSION_CLASSIC"

definition infs_encode_paged_root_directory ::
    "ext_lib \<Rightarrow> bytes \<Rightarrow> u64 \<Rightarrow> u32 \<Rightarrow> u32 \<Rightarrow> u32 \<Rightarrow> infs_timestamp \<Rightarrow> bytes infs_result" where
  "infs_encode_paged_root_directory E object_id generation permissions uid gid now =
     encode_root_directory_version E object_id generation permissions uid gid now
       INFS_OBJECT_VERSION_PAGED"

definition infs_encode_tree_root_directory ::
    "ext_lib \<Rightarrow> bytes \<Rightarrow> u64 \<Rightarrow> u32 \<Rightarrow> u32 \<Rightarrow> u32 \<Rightarrow> infs_timestamp \<Rightarrow> bytes infs_result" where
  "infs_encode_tree_root_directory E object_id generation permissions uid gid now =
     (case encode_root_directory_version E object_id generation permissions uid gid now
             INFS_OBJECT_VERSION_TREE of
        Inl status \<Rightarrow> Inl status
      | Inr block \<Rightarrow>
          let payload = (directory_payload_of E (get_bytes 96 144 block))
                \<lparr> dp_entry_count := 0, dp_bytes_used := 0 \<rparr>;
              block = put_bytes 96 (directory_payload_bytes E payload) block;
              block = put_bytes 240 (st64 E 0) block;
              block = set_object_header E
                ((object_header E block) \<lparr> oh_payload_size := 152 \<rparr>) block
          in infs_object_finalize E block)"

definition encode_object_index_version ::
    "ext_lib \<Rightarrow> bytes \<Rightarrow> u64 \<Rightarrow> u16 \<Rightarrow> bytes infs_result" where
  "encode_object_index_version E object_id generation object_version =
     (case infs_object_init E INFS_OBJECT_INDEX object_id None generation 8 of
        Inl status \<Rightarrow> Inl status
      | Inr block \<Rightarrow>
          let block = set_object_header E
                ((object_header E block) \<lparr> oh_object_version := object_version \<rparr>) block;
              block = put_bytes 96
                (index_payload_bytes E \<lparr> ip_entry_count = 0, ip_reserved = 0 \<rparr>) block
          in infs_object_finalize E block)"

definition infs_encode_object_index :: "ext_lib \<Rightarrow> bytes \<Rightarrow> u64 \<Rightarrow> bytes infs_result" where
  "infs_encode_object_index E object_id generation =
     encode_object_index_version E object_id generation INFS_OBJECT_VERSION_CLASSIC"

definition infs_encode_paged_object_index :: "ext_lib \<Rightarrow> bytes \<Rightarrow> u64 \<Rightarrow> bytes infs_result" where
  "infs_encode_paged_object_index E object_id generation =
     encode_object_index_version E object_id generation INFS_OBJECT_VERSION_PAGED"

definition infs_encode_tree_object_index ::
    "ext_lib \<Rightarrow> bytes \<Rightarrow> u64 \<Rightarrow> u64 \<Rightarrow> u32 \<Rightarrow> bytes infs_result" where
  "infs_encode_tree_object_index E object_id generation root_node_block entry_count =
     (if root_node_block = 0 \<or> entry_count = 0 then Inl INFS_STATUS_INVALID_ARGUMENT
      else
        case infs_object_init E INFS_OBJECT_INDEX object_id None generation 16 of
          Inl status \<Rightarrow> Inl status
        | Inr block \<Rightarrow>
            let block = set_object_header E
                  ((object_header E block) \<lparr> oh_object_version := INFS_OBJECT_VERSION_TREE \<rparr>) block;
                block = put_bytes 96
                  (index_payload_bytes E \<lparr> ip_entry_count = entry_count, ip_reserved = 0 \<rparr>) block;
                block = put_bytes 104 (st64 E root_node_block) block;
                block = set_object_header E
                  ((object_header E block) \<lparr> oh_payload_size := 16 \<rparr>) block
            in infs_object_finalize E block)"

definition hex_digit :: "nat \<Rightarrow> char" where
  "hex_digit n = ''0123456789abcdef'' ! n"

definition hex_byte :: "byte \<Rightarrow> string" where
  "hex_byte b = [hex_digit (unat b div 16), hex_digit (unat b mod 16)]"

definition infs_uuid_to_string :: "bytes \<Rightarrow> string" where
  "infs_uuid_to_string i =
     concat (map hex_byte (get_bytes 0 4 i)) @ ''-'' @ concat (map hex_byte (get_bytes 4 2 i)) @ ''-'' @
     concat (map hex_byte (get_bytes 6 2 i)) @ ''-'' @ concat (map hex_byte (get_bytes 8 2 i)) @ ''-'' @
     concat (map hex_byte (get_bytes 10 6 i))"

section \<open>Reference definitions and examples\<close>

text \<open>The header constants and feature flags that validation asks for.\<close>

definition superblock_fields_ok :: "ext_lib \<Rightarrow> infs_superblock_disk \<Rightarrow> bool" where
  "superblock_fields_ok E sb \<longleftrightarrow>
     sb_magic sb = INFS_MAGIC \<and> sb_format_major sb = INFS_FORMAT_MAJOR \<and>
     sb_format_minor sb = INFS_FORMAT_MINOR \<and> sb_header_size sb = 252 \<and>
     sb_block_shift sb = INFS_BLOCK_SHIFT \<and> sb_checksum_type sb = INFS_CHECKSUM_CRC64_ECMA \<and>
     sb_generation sb \<noteq> 0 \<and> id_is_nonzero (sb_filesystem_uuid sb) \<and>
     id_is_nonzero (sb_root_object_id sb) \<and> superblock_label_valid E (sb_label sb) \<and>
     sb_incompat_flags sb AND NOT INFS_KNOWN_INCOMPAT_FLAGS = 0 \<and>
     sb_incompat_flags sb AND (1 OR 2 OR 0x2000) = 1 OR 2 OR 0x2000"

definition metadata_magics :: "bytes list" where
  "metadata_magics = [INFS_DIRECTORY_PAGE_MAGIC, INFS_DIRECTORY_BRANCH_PAGE_MAGIC, INFS_INDEX_PAGE_MAGIC,
     INFS_INDEX_BRANCH_PAGE_MAGIC, INFS_EXTENT_PAGE_MAGIC, INFS_EXTENT_INDEX_PAGE_MAGIC,
     INFS_SNAPSHOT_PAGE_MAGIC, INFS_SECURITY_ACE_PAGE_MAGIC]"

definition metadata_fields_ok :: "infs_metadata_page_disk \<Rightarrow> bool" where
  "metadata_fields_ok page \<longleftrightarrow> mp_generation page \<noteq> 0 \<and> id_is_nonzero (mp_owner_object_id page) \<and>
     unat (mp_bytes_used page) \<le> INFS_METADATA_PAGE_DATA_SIZE \<and>
     mp_checksum_type page = INFS_CHECKSUM_CRC64_ECMA \<and> mp_reserved page = 0"

definition root_payload :: "u32 \<Rightarrow> u32 \<Rightarrow> u32 \<Rightarrow> infs_timestamp \<Rightarrow> infs_directory_payload_disk" where
  "root_payload permissions uid gid now =
     \<lparr> dp_attributes = fill_attributes 2 now,
       dp_posix = \<lparr> px_permissions = permissions AND 0xFFF, px_uid = uid, px_gid = gid, px_flags = 0 \<rparr>,
       dp_entry_count = 0, dp_bytes_used = 0 \<rparr>"

text \<open>A valid parentless object block with the given type, version, identity and generation.\<close>

definition fresh_object :: "ext_lib \<Rightarrow> u16 \<Rightarrow> u16 \<Rightarrow> bytes \<Rightarrow> u64 \<Rightarrow> bytes \<Rightarrow> bool" where
  "fresh_object E t v oid gen b \<longleftrightarrow>
     length b = INFS_BLOCK_SIZE \<and> infs_validate_object_block E b \<and>
     (let h = object_header E b
      in oh_object_type h = t \<and> oh_object_version h = v \<and> oh_object_id h = oid \<and>
         oh_generation h = gen \<and> oh_parent_id h = zeros 16)"

text \<open>The kinds of sealed block, with their validators and checksum offsets.\<close>

datatype block_kind =
    Superblock_Block | Object_Block | Metadata_Page bytes bytes | Allocation_Page bytes u64 u64 u32

fun kind_valid :: "ext_lib \<Rightarrow> block_kind \<Rightarrow> bytes \<Rightarrow> bool" where
  "kind_valid E Superblock_Block b = infs_validate_superblock_block E b"
| "kind_valid E Object_Block b = infs_validate_object_block E b"
| "kind_valid E (Metadata_Page magic owner) b = infs_validate_metadata_page E b magic owner"
| "kind_valid E (Allocation_Page magic g ix level) b = infs_validate_allocation_page E b magic g ix level"

fun kind_checksum_offset :: "block_kind \<Rightarrow> nat" where
  "kind_checksum_offset Superblock_Block = 220"
| "kind_checksum_offset Object_Block = 64"
| "kind_checksum_offset (Metadata_Page magic owner) = 48"
| "kind_checksum_offset (Allocation_Page magic g ix level) = 40"

definition example_id :: bytes where
  "example_id = [1, 2, 3, 4, 5, 6, 7, 8, 9, 10, 11, 12, 13, 14, 15, 16]"

definition example_superblock :: infs_superblock_disk where
  "example_superblock = \<lparr> sb_magic = INFS_MAGIC, sb_format_major = 0, sb_format_minor = 19,
     sb_header_size = 252, sb_block_shift = 12, sb_checksum_type = 1, sb_generation = 5,
     sb_total_blocks = 1000, sb_free_blocks = 900, sb_allocation_root_block = 10,
     sb_allocation_leaf_count = 1, sb_object_index_block = 11, sb_root_object_block = 12,
     sb_checkpoint_block = [0, 500, 999], sb_filesystem_uuid = example_id,
     sb_root_object_id = example_id, sb_compat_flags = 0, sb_ro_compat_flags = 0,
     sb_incompat_flags = 0x2003, sb_label = zeros 64, sb_checksum = zeros 32 \<rparr>"

section \<open>The sealing contract\<close>

locale crc_sealed =
  fixes E :: ext_lib
    and valid :: "bytes \<Rightarrow> bool"
    and off :: nat
  assumes ext: "ext_ok E"
    and room: "off + 32 \<le> INFS_BLOCK_SIZE"
    and stored: "valid b \<Longrightarrow> crc_matches E off b"
    and padded: "valid b \<Longrightarrow> bytes_are_zero (get_bytes (off + 8) 24 b)"
begin

lemma field_split:
  assumes "length b = INFS_BLOCK_SIZE"
  shows "get_bytes off 32 b = get_bytes off 8 b @ get_bytes (off + 8) 24 b"
  using get_join [of "off + 8" off 8 b 24] by simp

lemma valid_field:
  assumes "length b = INFS_BLOCK_SIZE" "valid b"
  shows "get_bytes off 32 b = st64 E (block_crc_with_zeroed_checksum b off 32) @ zeros 24"
proof -
  have "get_bytes (off + 8) 24 b = zeros 24"
    using padded [OF assms(2)] assms(1) room all_zero_eq_zeros [of "get_bytes (off + 8) 24 b"]
    by (simp add: bytes_are_zero_def)
  moreover have "get_bytes off 8 b = st64 E (block_crc_with_zeroed_checksum b off 32)"
    using stored [OF assms(2)] ext_laws(9) [OF ext, of "get_bytes off 8 b"] assms(1) room
    by (simp add: crc_matches_def)
  ultimately show ?thesis using field_split [OF assms(1)] by simp
qed

text \<open>A change confined to eight bytes outside the checksum field, or confined to the field,
  is always detected.\<close>

lemma burst_detected:
  assumes "valid b" "length b = INFS_BLOCK_SIZE" "agree_outside o' n b b'" "b \<noteq> b'"
    and "n \<le> 8 \<and> (o' + n \<le> off \<or> off + 32 \<le> o') \<or> off \<le> o' \<and> o' + n \<le> off + 32"
  shows "\<not> valid b'"
proof
  assume v: "valid b'"
  have len: "length b' = INFS_BLOCK_SIZE" using assms(2,3) by (simp add: agree_outside_def)
  note f = valid_field [OF assms(2,1)] valid_field [OF len v]
  let ?z = "\<lambda>x. put_bytes off (zeros 32) x"
  have same_crc_same_block: "?z b = ?z b' \<Longrightarrow> b = b'"
    using f put_get_inject [of off "zeros 32" b "b'"] assms(2) len room
    by (simp add: block_crc_with_zeroed_checksum_def)
  show False
  proof (cases "off \<le> o' \<and> o' + n \<le> off + 32")
    case True
    then have "?z b = ?z b'" using agree_outside_put_same [OF assms(3), of off "zeros 32"] assms(2) room by simp
    then show ?thesis using same_crc_same_block assms(4) by blast
  next
    case False
    then have out: "n \<le> 8" "o' + n \<le> off \<or> off + 32 \<le> o'" using assms(5) by auto
    have "get_bytes off 32 b = get_bytes off 32 b'"
      using agree_outside_get [OF assms(3), of off 32] out(2) by auto
    then have crc: "infs_crc64_ecma (?z b) = infs_crc64_ecma (?z b')"
      using f ext_laws(6) [OF ext] by (simp add: block_crc_with_zeroed_checksum_def)
        (metis append_same_eq)
    have "agree_outside o' n (?z b) (?z b')"
      using agree_outside_put [OF assms(3), of off "zeros 32"] assms(2) room by simp
    then have "?z b = ?z b'" using crc64_agree_outside out(1) crc by blast
    then show ?thesis using same_crc_same_block assms(4) by blast
  qed
qed

end
section \<open>Sealed blocks\<close>

lemma store_crc_eq:
  assumes "ext_ok E" "length b = INFS_BLOCK_SIZE" "off + 32 \<le> INFS_BLOCK_SIZE"
  shows "store_crc E off b = put_bytes off (st64 E (block_crc_with_zeroed_checksum b off 32) @ zeros 24) b"
proof -
  have l: "length (st64 E v) = 8" for v by (rule ext_laws(3) [OF assms(1)])
  have z: "zeros 32 = zeros 8 @ zeros 24" by (simp add: zeros_def flip: replicate_add)
  show ?thesis
    unfolding store_crc_def Let_def block_crc_with_zeroed_checksum_def
    using assms(2,3) l by (simp add: put_bytes_same z) (simp add: put_bytes_def z)
qed

lemma length_store_crc [simp]:
  assumes "ext_ok E" "length b = INFS_BLOCK_SIZE" "off + 32 \<le> INFS_BLOCK_SIZE"
  shows "length (store_crc E off b) = INFS_BLOCK_SIZE"
  using assms by (simp add: store_crc_eq ext_laws)

lemma get_store_crc_other:
  assumes "ext_ok E" "length b = INFS_BLOCK_SIZE" "off + 32 \<le> INFS_BLOCK_SIZE"
    "o' + n \<le> off \<or> off + 32 \<le> o'"
  shows "get_bytes o' n (store_crc E off b) = get_bytes o' n b"
  using assms by (auto simp: store_crc_eq ext_laws get_put_before get_put_after)

lemma get_store_crc_field:
  assumes "ext_ok E" "length b = INFS_BLOCK_SIZE" "off + 32 \<le> INFS_BLOCK_SIZE"
  shows "get_bytes off 32 (store_crc E off b) = st64 E (block_crc_with_zeroed_checksum b off 32) @ zeros 24"
  using assms by (simp add: store_crc_eq ext_laws get_put_same)

lemma store_crc_pad:
  assumes "ext_ok E" "length b = INFS_BLOCK_SIZE" "off + 32 \<le> INFS_BLOCK_SIZE"
  shows "get_bytes (off + 8) 24 (store_crc E off b) = zeros 24"
  using assms by (simp add: store_crc_eq ext_laws get_put_inside buffer_simps)

lemma store_crc_matches:
  assumes "ext_ok E" "length b = INFS_BLOCK_SIZE" "off + 32 \<le> INFS_BLOCK_SIZE"
  shows "crc_matches E off (store_crc E off b)"
proof -
  have "get_bytes off 8 (store_crc E off b) = st64 E (block_crc_with_zeroed_checksum b off 32)"
    using assms by (simp add: store_crc_eq ext_laws get_put_inside buffer_simps)
  moreover have "block_crc_with_zeroed_checksum (store_crc E off b) off 32 =
      block_crc_with_zeroed_checksum b off 32"
    using assms by (simp add: block_crc_with_zeroed_checksum_def store_crc_eq put_bytes_same ext_laws)
  ultimately show ?thesis using assms by (simp add: crc_matches_def ext_laws)
qed

text \<open>A block whose checksum field is intact is its own sealed form.\<close>

lemma store_crc_fixpoint:
  assumes "ext_ok E" "length b = INFS_BLOCK_SIZE" "off + 32 \<le> INFS_BLOCK_SIZE"
    "crc_matches E off b" "bytes_are_zero (get_bytes (off + 8) 24 b)"
  shows "store_crc E off b = b"
proof -
  have "crc_sealed E (\<lambda>b. crc_matches E off b \<and> bytes_are_zero (get_bytes (off + 8) 24 b)) off"
    using assms by unfold_locales auto
  then have "get_bytes off 32 b = st64 E (block_crc_with_zeroed_checksum b off 32) @ zeros 24"
    using crc_sealed.valid_field assms by blast
  then show ?thesis using assms put_get_id [of off 32 b] by (simp add: store_crc_eq)
qed

lemma bytes_are_zero_zeros [simp]: "bytes_are_zero (zeros n)"
  by (simp add: bytes_are_zero_def zeros_def)

lemma bytes_are_zeroD: "bytes_are_zero bs \<Longrightarrow> bs = zeros (length bs)"
  by (simp add: bytes_are_zero_def all_zero_eq_zeros)

lemma put_zeros_id:
  assumes "bytes_are_zero (get_bytes off n b)" "off + n \<le> length b"
  shows "put_bytes off (zeros n) b = b"
  using bytes_are_zeroD [OF assms(1)] put_get_id [of off n b] assms(2) by simp

lemmas crc_simps = get_store_crc_other store_crc_pad store_crc_matches get_put_before get_put_after
  get_put_same

section \<open>Superblock lemmas\<close>

lemma superblock_with_checksum:
  assumes "ext_ok E" "superblock_wf sb" "length c = 32"
  shows "put_bytes 220 c (superblock_bytes E sb) = superblock_bytes E (sb \<lparr> sb_checksum := c \<rparr>)"
proof -
  have "length (superblock_bytes E sb) = 252" by (rule superblock_laws(1) [OF assms(1,2)])
  moreover have "take 220 (superblock_bytes E sb) @ sb_checksum sb = superblock_bytes E sb"
    using assms by (simp add: superblock_bytes_def superblock_wf_def ext_laws)
  ultimately show ?thesis
    using assms by (simp add: put_bytes_def superblock_bytes_def superblock_wf_def ext_laws)
qed

lemma encode_superblock_bytes:
  assumes "ext_ok E" "superblock_wf sb" "infs_encode_superblock E sb = Inr b"
  shows "\<exists>c. length c = 32 \<and> b = superblock_bytes E (sb \<lparr> sb_checksum := c \<rparr>) @ zeros 3844 \<and>
             b = store_crc E 220 (superblock_bytes E sb @ zeros 3844)"
proof -
  have l: "length (superblock_bytes E sb) = 252" by (rule superblock_laws(1) [OF assms(1,2)])
  have b: "b = store_crc E 220 (superblock_bytes E sb @ zeros 3844)"
    using assms(3) l
    by (auto simp: infs_encode_superblock_def put_bytes_def drop_zeros split: if_splits)
  let ?c = "st64 E (block_crc_with_zeroed_checksum (superblock_bytes E sb @ zeros 3844) 220 32) @ zeros 24"
  have c: "length ?c = 32" by (simp add: ext_laws [OF assms(1)])
  have "b = put_bytes 220 ?c (superblock_bytes E sb) @ zeros 3844"
    unfolding b using l by (simp add: store_crc_eq [OF assms(1)]) (simp add: put_bytes_def ext_laws [OF assms(1)])
  then have "b = superblock_bytes E (sb \<lparr> sb_checksum := ?c \<rparr>) @ zeros 3844"
    using superblock_with_checksum [OF assms(1,2) c] by simp
  then show ?thesis using c b by blast
qed

lemma validate_superblock_iff:
  "infs_validate_superblock_block E b \<longleftrightarrow>
     superblock_fields_ok E (superblock_of E (get_bytes 0 252 b)) \<and>
     bytes_are_zero (get_bytes 228 24 b) \<and> bytes_are_zero (get_bytes 252 3844 b) \<and>
     crc_matches E 220 b"
  unfolding infs_validate_superblock_block_def infs_validate_superblock_block_minor_def
    superblock_fields_ok_def Let_def by auto

lemma superblock_crc_sealed:
  "ext_ok E \<Longrightarrow> crc_sealed E (infs_validate_superblock_block E) 220"
  by unfold_locales (auto simp: validate_superblock_iff)

lemma encode_superblock_validates:
  assumes "ext_ok E" "superblock_wf sb" "superblock_fields_ok E sb"
  obtains b c where "infs_encode_superblock E sb = Inr b" "length b = INFS_BLOCK_SIZE"
    "infs_decode_superblock E b = Inr (sb \<lparr> sb_checksum := c \<rparr>)"
proof -
  obtain b where b: "infs_encode_superblock E sb = Inr b"
    using assms(3) by (auto simp: infs_encode_superblock_def superblock_fields_ok_def)
  obtain c where c: "length c = 32" "b = superblock_bytes E (sb \<lparr> sb_checksum := c \<rparr>) @ zeros 3844"
    "b = store_crc E 220 (superblock_bytes E sb @ zeros 3844)"
    using encode_superblock_bytes [OF assms(1,2) b] by blast
  let ?sb = "sb \<lparr> sb_checksum := c \<rparr>"
  have wf: "superblock_wf ?sb" using assms(2) c(1) by (simp add: superblock_wf_def)
  note l = superblock_laws(1) [OF assms(1) wf] superblock_laws(1) [OF assms(1,2)]
  have len: "length b = INFS_BLOCK_SIZE" using c(2) l by simp
  have hd: "get_bytes 0 252 b = superblock_bytes E ?sb"
    unfolding c(2) using l by (simp add: buffer_simps)
  have tl: "get_bytes 252 3844 b = zeros 3844"
    unfolding c(2) using l by (simp add: buffer_simps)
  have "crc_matches E 220 b" "get_bytes 228 24 b = zeros 24"
    unfolding c(3) using store_crc_matches [OF assms(1), of _ 220] store_crc_pad [OF assms(1), of _ 220] l
    by simp_all
  then have "infs_validate_superblock_block E b"
    using assms(3) tl by (simp add: validate_superblock_iff hd superblock_laws(2) [OF assms(1) wf]
        superblock_fields_ok_def)
  then have "infs_decode_superblock E b = Inr ?sb"
    by (simp add: infs_decode_superblock_def hd superblock_laws(2) [OF assms(1) wf])
  then show ?thesis using that b len by blast
qed

lemma decode_superblock_encodes:
  assumes "ext_ok E" "length b = INFS_BLOCK_SIZE" "infs_decode_superblock E b = Inr sb"
  shows "infs_encode_superblock E sb = Inr b"
proof -
  have v: "infs_validate_superblock_block E b" and sb: "sb = superblock_of E (get_bytes 0 252 b)"
    using assms(3) by (auto simp: infs_decode_superblock_def split: if_splits)
  have "get_bytes 252 3844 b = zeros 3844"
    using v bytes_are_zeroD [of "get_bytes 252 3844 b"] assms(2) by (simp add: validate_superblock_iff)
  then have "get_bytes 0 252 b @ zeros 3844 = b"
    using get_join [of 252 0 252 b 3844] assms(2) by (simp add: get_whole)
  then have "put_bytes 0 (superblock_bytes E sb) (zeros INFS_BLOCK_SIZE) = b"
    using superblock_laws(3) [OF assms(1), of "get_bytes 0 252 b"] assms(2)
    by (simp add: sb put_bytes_def drop_zeros)
  moreover have "store_crc E 220 b = b"
    using v assms by (intro store_crc_fixpoint) (auto simp: validate_superblock_iff)
  ultimately show ?thesis
    using v by (simp add: infs_encode_superblock_def validate_superblock_iff superblock_fields_ok_def sb)
qed

section \<open>Object block lemmas\<close>

lemma object_header_wf:
  "ext_ok E \<Longrightarrow> length b = INFS_BLOCK_SIZE \<Longrightarrow> object_header_wf (object_header E b)"
  by (simp add: object_header_def object_header_laws)

text \<open>All field and payload checks read only the header, without its checksum, and the payload.\<close>

lemma object_fields_cong:
  assumes "object_header E b' = (object_header E b) \<lparr> oh_checksum := c \<rparr>"
    "object_payload b' (oh_payload_size (object_header E b)) =
     object_payload b (oh_payload_size (object_header E b))"
  shows "object_fields_valid E b' = object_fields_valid E b"
proof -
  have h: "oh_magic (object_header E b') = oh_magic (object_header E b)"
    "oh_object_type (object_header E b') = oh_object_type (object_header E b)"
    "oh_object_version (object_header E b') = oh_object_version (object_header E b)"
    "oh_header_size (object_header E b') = oh_header_size (object_header E b)"
    "oh_generation (object_header E b') = oh_generation (object_header E b)"
    "oh_object_id (object_header E b') = oh_object_id (object_header E b)"
    "oh_parent_id (object_header E b') = oh_parent_id (object_header E b)"
    "oh_payload_size (object_header E b') = oh_payload_size (object_header E b)"
    "oh_checksum_type (object_header E b') = oh_checksum_type (object_header E b)"
    by (simp_all add: assms(1))
  show ?thesis
  unfolding object_fields_valid_def Let_def index_payload_shape_valid_def symlink_payload_shape_valid_def
      snapshot_catalog_payload_shape_valid_def principal_payload_shape_valid_def
      security_binding_index_payload_shape_valid_def security_payload_shape_valid_def
      extension_payload_shape_valid_def metadata_set_payload_shape_valid_def
      named_stream_parent_shape_valid_def
      by (simp only: h assms(2))
qed

lemma object_header_store_crc:
  assumes "ext_ok E" "length b = INFS_BLOCK_SIZE"
  shows "\<exists>c. object_header E (store_crc E 64 b) = (object_header E b) \<lparr> oh_checksum := c \<rparr>"
  using assms by (simp add: object_header_def object_header_of_def get_get get_store_crc_other)

lemma object_header_put_tail:
  assumes "length b = INFS_BLOCK_SIZE" "96 \<le> off" "off + length z \<le> INFS_BLOCK_SIZE"
  shows "object_header E (put_bytes off z b) = object_header E b"
  using assms by (simp add: object_header_def get_put_before)

lemma finalize_object_shape:
  assumes "ext_ok E" "length b = INFS_BLOCK_SIZE" "infs_object_finalize E b = Inr b'"
  defines "ps \<equiv> unat (oh_payload_size (object_header E b))"
  shows "object_fields_valid E b" "ps \<le> 4000" "length b' = INFS_BLOCK_SIZE"
    "\<exists>c. object_header E b' = (object_header E b) \<lparr> oh_checksum := c \<rparr>"
    "get_bytes 96 ps b' = get_bytes 96 ps b"
    "get_bytes (96 + ps) (4000 - ps) b' = zeros (4000 - ps)"
    "get_bytes 72 24 b' = zeros 24" "crc_matches E 64 b'"
proof -
  show f: "object_fields_valid E b"
    using assms(3) by (auto simp: infs_object_finalize_def split: if_splits)
  then show ps: "ps \<le> 4000" by (auto simp: object_fields_valid_def ps_def Let_def)
  let ?t = "put_bytes (96 + ps) (zeros (4000 - ps)) b"
  have b': "b' = store_crc E 64 ?t"
    using assms(3) f by (auto simp: infs_object_finalize_def Let_def ps_def)
  have t: "length ?t = INFS_BLOCK_SIZE" using assms(2) ps by simp
  show "length b' = INFS_BLOCK_SIZE" using b' t assms(1) by simp
  show "\<exists>c. object_header E b' = (object_header E b) \<lparr> oh_checksum := c \<rparr>"
    using object_header_store_crc [OF assms(1) t] object_header_put_tail [OF assms(2)] ps b' by simp
  show "get_bytes 96 ps b' = get_bytes 96 ps b"
    "get_bytes (96 + ps) (4000 - ps) b' = zeros (4000 - ps)"
    using b' t ps assms(1,2) by (simp_all add: get_store_crc_other get_put_before get_put_same)
  show "get_bytes 72 24 b' = zeros 24" "crc_matches E 64 b'"
    using store_crc_pad [OF assms(1) t, of 64] store_crc_matches [OF assms(1) t, of 64] b' by simp_all
qed

lemma finalize_object_validates:
  assumes "ext_ok E" "length b = INFS_BLOCK_SIZE" "infs_object_finalize E b = Inr b'"
  shows "infs_validate_object_block E b'"
proof -
  note s = finalize_object_shape [OF assms]
  obtain c where c: "object_header E b' = (object_header E b) \<lparr> oh_checksum := c \<rparr>" using s(4) by blast
  then have "object_fields_valid E b'"
    using object_fields_cong [OF c] s(1,5) by (simp add: object_payload_def)
  then show ?thesis using s c by (simp add: infs_validate_object_block_def Let_def)
qed

lemma validate_object_fixpoint:
  assumes "ext_ok E" "length b = INFS_BLOCK_SIZE" "infs_validate_object_block E b"
  shows "infs_object_finalize E b = Inr b"
proof -
  let ?ps = "unat (oh_payload_size (object_header E b))"
  have v: "object_fields_valid E b" "bytes_are_zero (get_bytes 72 24 b)"
    "bytes_are_zero (get_bytes (96 + ?ps) (4000 - ?ps) b)" "crc_matches E 64 b"
    using assms(3) by (auto simp: infs_validate_object_block_def Let_def split: if_splits)
  then have "?ps \<le> 4000" by (auto simp: object_fields_valid_def Let_def)
  then have "put_bytes (96 + ?ps) (zeros (4000 - ?ps)) b = b"
    using put_zeros_id v(3) assms(2) by simp
  moreover have "store_crc E 64 b = b"
    using v assms by (intro store_crc_fixpoint) simp_all
  ultimately show ?thesis using v(1) by (simp add: infs_object_finalize_def Let_def)
qed

lemma object_crc_sealed: "ext_ok E \<Longrightarrow> crc_sealed E (infs_validate_object_block E) 64"
  by unfold_locales (auto simp: infs_validate_object_block_def Let_def split: if_splits)

section \<open>Metadata page lemmas\<close>

lemma finalize_metadata_iff:
  "infs_metadata_page_finalize E b =
     (if mp_magic (metadata_page E b) \<in> set metadata_magics \<and> metadata_fields_ok (metadata_page E b)
      then Inr (store_crc E 48 (put_bytes (80 + unat (mp_bytes_used (metadata_page E b)))
             (zeros (4016 - unat (mp_bytes_used (metadata_page E b)))) b))
      else Inl INFS_STATUS_INVALID_ARGUMENT)"
  unfolding infs_metadata_page_finalize_def metadata_fields_ok_def metadata_magics_def Let_def
  by (auto simp: not_less)

lemma validate_metadata_iff:
  "infs_validate_metadata_page E b magic owner \<longleftrightarrow>
     (let page = metadata_page E b; used = unat (mp_bytes_used page) in
      mp_magic page = take 8 magic \<and> mp_owner_object_id page = take 16 owner \<and> metadata_fields_ok page \<and>
      bytes_are_zero (get_bytes 56 24 b) \<and> bytes_are_zero (get_bytes (80 + used) (4016 - used) b) \<and>
      crc_matches E 48 b)"
  unfolding infs_validate_metadata_page_def metadata_fields_ok_def Let_def by (auto simp: not_less)

lemma metadata_page_sealed:
  assumes "ext_ok E" "length b = INFS_BLOCK_SIZE" "80 \<le> off" "off + length z \<le> INFS_BLOCK_SIZE"
  shows "\<exists>c. metadata_page E (store_crc E 48 (put_bytes off z b)) = (metadata_page E b) \<lparr> mp_checksum := c \<rparr>"
  using assms by (simp add: metadata_page_def metadata_page_of_def get_get get_store_crc_other get_put_before)

lemma finalize_metadata_validates:
  assumes "ext_ok E" "length b = INFS_BLOCK_SIZE" "infs_metadata_page_finalize E b = Inr b'"
  shows "infs_validate_metadata_page E b' (mp_magic (metadata_page E b)) (mp_owner_object_id (metadata_page E b))"
    "length b' = INFS_BLOCK_SIZE"
    "get_bytes 80 (unat (mp_bytes_used (metadata_page E b))) b' = get_bytes 80 (unat (mp_bytes_used (metadata_page E b))) b"
proof -
  let ?p = "metadata_page E b" and ?u = "unat (mp_bytes_used (metadata_page E b))"
  let ?t = "put_bytes (80 + ?u) (zeros (4016 - ?u)) b"
  have f: "metadata_fields_ok ?p" and b': "b' = store_crc E 48 ?t"
    using assms(3) by (auto simp: finalize_metadata_iff split: if_splits)
  have u: "?u \<le> 4016" using f by (simp add: metadata_fields_ok_def)
  then have t: "length ?t = INFS_BLOCK_SIZE" using assms(2) by simp
  obtain c where c: "metadata_page E b' = ?p \<lparr> mp_checksum := c \<rparr>"
    using metadata_page_sealed [OF assms(1,2), of "80 + ?u" "zeros (4016 - ?u)"] u b' by auto
  have wf: "length (mp_magic ?p) = 8" "length (mp_owner_object_id ?p) = 16"
    using metadata_page_laws(4) [OF assms(1), of "get_bytes 0 80 b"] assms(2)
    by (auto simp: metadata_page_def metadata_page_wf_def)
  have "get_bytes (80 + ?u) (4016 - ?u) b' = zeros (4016 - ?u)" "get_bytes 56 24 b' = zeros 24"
    "crc_matches E 48 b'"
    using b' t u assms(1,2) store_crc_pad [OF assms(1) t, of 48] store_crc_matches [OF assms(1) t, of 48]
    by (simp_all add: get_store_crc_other get_put_same)
  then show "infs_validate_metadata_page E b' (mp_magic ?p) (mp_owner_object_id ?p)"
    using f wf by (simp add: validate_metadata_iff c Let_def metadata_fields_ok_def)
  show "length b' = INFS_BLOCK_SIZE" using b' t assms(1) by simp
  show "get_bytes 80 ?u b' = get_bytes 80 ?u b"
    using b' t u assms(1,2) by (simp add: get_store_crc_other get_put_before)
qed

lemma metadata_crc_sealed:
  "ext_ok E \<Longrightarrow> crc_sealed E (\<lambda>b. infs_validate_metadata_page E b magic owner) 48"
  by unfold_locales (auto simp: validate_metadata_iff Let_def)

section \<open>Allocation page lemmas\<close>

lemma validate_allocation_iff:
  "infs_validate_allocation_page E b magic max_gen ix level \<longleftrightarrow>
     (let page = allocation_page E b; n = unat (ap_bytes_used page) in
      max_gen \<noteq> 0 \<and> unat level \<le> 3 \<and> ap_magic page = take 8 magic \<and> ap_generation page \<noteq> 0 \<and>
      ap_generation page \<le> max_gen \<and> ap_logical_index page = ix \<and> ap_level page = level \<and>
      ap_checksum_type page = INFS_CHECKSUM_CRC64_ECMA \<and>
      allocation_counts_valid (level = 0) (unat (ap_entry_count page)) n \<and>
      bytes_are_zero (get_bytes 48 24 b) \<and> bytes_are_zero (get_bytes (72 + n) (4024 - n) b) \<and>
      crc_matches E 40 b)"
  unfolding infs_validate_allocation_page_def Let_def by (auto simp: not_less not_le)

lemma allocation_page_sealed:
  assumes "ext_ok E" "length b = INFS_BLOCK_SIZE" "72 \<le> off" "off + length z \<le> INFS_BLOCK_SIZE"
  shows "\<exists>c. allocation_page E (store_crc E 40 (put_bytes off z b)) = (allocation_page E b) \<lparr> ap_checksum := c \<rparr>"
  using assms by (simp add: allocation_page_def allocation_page_of_def get_get get_store_crc_other get_put_before)

lemma finalize_allocation_validates:
  assumes "ext_ok E" "length b = INFS_BLOCK_SIZE" "infs_allocation_page_finalize E b = Inr b'"
    "ap_generation (allocation_page E b) \<le> max_gen"
  shows "infs_validate_allocation_page E b' (ap_magic (allocation_page E b)) max_gen
           (ap_logical_index (allocation_page E b)) (ap_level (allocation_page E b))"
    "get_bytes 72 (unat (ap_bytes_used (allocation_page E b))) b' = get_bytes 72 (unat (ap_bytes_used (allocation_page E b))) b"
    "length b' = INFS_BLOCK_SIZE"
proof -
  let ?p = "allocation_page E b" and ?n = "unat (ap_bytes_used (allocation_page E b))"
  let ?t = "put_bytes (72 + ?n) (zeros (4024 - ?n)) b"
  have f: "ap_generation ?p \<noteq> 0" "unat (ap_level ?p) \<le> 3" "ap_checksum_type ?p = INFS_CHECKSUM_CRC64_ECMA"
    "allocation_counts_valid (ap_level ?p = 0) (unat (ap_entry_count ?p)) ?n" and b': "b' = store_crc E 40 ?t"
    using assms(3) by (auto simp: infs_allocation_page_finalize_def Let_def not_less unat_eq_0
        split: if_splits)
  have n: "?n \<le> 4024" using f(4) by (simp add: allocation_counts_valid_def)
  then have t: "length ?t = INFS_BLOCK_SIZE" using assms(2) by simp
  obtain c where c: "allocation_page E b' = ?p \<lparr> ap_checksum := c \<rparr>"
    using allocation_page_sealed [OF assms(1,2), of "72 + ?n" "zeros (4024 - ?n)"] n b' by auto
  have wf: "length (ap_magic ?p) = 8"
    using allocation_page_laws(4) [OF assms(1), of "get_bytes 0 72 b"] assms(2)
    by (auto simp: allocation_page_def allocation_page_wf_def)
  have "get_bytes (72 + ?n) (4024 - ?n) b' = zeros (4024 - ?n)" "get_bytes 48 24 b' = zeros 24"
    "crc_matches E 40 b'"
    using b' t n assms(1,2) store_crc_pad [OF assms(1) t, of 40] store_crc_matches [OF assms(1) t, of 40]
    by (simp_all add: get_store_crc_other get_put_same)
  moreover have "max_gen \<noteq> 0" using f(1) assms(4) by (auto simp: word_le_nat_alt unat_eq_0)
  ultimately show "infs_validate_allocation_page E b' (ap_magic ?p) max_gen (ap_logical_index ?p) (ap_level ?p)"
    using f wf assms(4) by (simp add: validate_allocation_iff c Let_def)
  show "get_bytes 72 ?n b' = get_bytes 72 ?n b" "length b' = INFS_BLOCK_SIZE"
    using b' t n assms(1,2) by (simp_all add: get_store_crc_other get_put_before)
qed

lemma allocation_crc_sealed:
  "ext_ok E \<Longrightarrow> crc_sealed E (\<lambda>b. infs_validate_allocation_page E b magic g ix level) 40"
  by unfold_locales (auto simp: validate_allocation_iff Let_def)

section \<open>Encoder lemmas\<close>

lemma length_ascii [simp]: "length (ascii s) = length s"
  by (simp add: ascii_def)

lemma object_init_ok:
  assumes "ext_ok E" "length oid = 16" "id_is_nonzero oid" "object_type_valid t" "gen \<noteq> 0" "unat ps \<le> 4000"
  obtains b where "infs_object_init E t oid None gen ps = Inr b" "length b = INFS_BLOCK_SIZE"
    "object_header E b = \<lparr> oh_magic = INFS_OBJECT_MAGIC, oh_object_type = t,
       oh_object_version = INFS_OBJECT_VERSION_CLASSIC, oh_header_size = 96, oh_generation = gen,
       oh_object_id = oid, oh_parent_id = zeros 16, oh_payload_size = ps,
       oh_checksum_type = INFS_CHECKSUM_CRC64_ECMA, oh_checksum = zeros 32 \<rparr>"
proof -
  let ?h = "\<lparr> oh_magic = INFS_OBJECT_MAGIC, oh_object_type = t,
       oh_object_version = INFS_OBJECT_VERSION_CLASSIC, oh_header_size = 96, oh_generation = gen,
       oh_object_id = oid, oh_parent_id = zeros 16, oh_payload_size = ps,
       oh_checksum_type = INFS_CHECKSUM_CRC64_ECMA, oh_checksum = zeros 32 \<rparr>"
  let ?b = "put_bytes 0 (object_header_bytes E ?h) (zeros INFS_BLOCK_SIZE)"
  have wf: "object_header_wf ?h" using assms(2) by (simp add: object_header_wf_def INFS_OBJECT_MAGIC_def)
  note l = object_header_laws(1) [OF assms(1) wf]
  show ?thesis
  proof
    show "infs_object_init E t oid None gen ps = Inr ?b" using assms by (simp add: infs_object_init_def)
    show "length ?b = INFS_BLOCK_SIZE" using l by simp
    show "object_header E ?b = ?h"
      using l object_header_laws(2) [OF assms(1) wf] by (simp add: object_header_def get_put_same)
  qed
qed

lemma set_object_header:
  assumes "ext_ok E" "length b = INFS_BLOCK_SIZE" "object_header_wf h"
  shows "object_header E (set_object_header E h b) = h" "length (set_object_header E h b) = INFS_BLOCK_SIZE"
    "96 \<le> o' \<Longrightarrow> get_bytes o' n (set_object_header E h b) = get_bytes o' n b"
  using assms object_header_laws(1,2) [OF assms(1,3)]
  by (simp_all add: set_object_header_def object_header_def get_put_same get_put_after)

lemma set_object_header_id:
  assumes "ext_ok E" "length b = INFS_BLOCK_SIZE"
  shows "set_object_header E (object_header E b) b = b"
  using object_header_laws(3) [OF assms(1), of "get_bytes 0 96 b"] put_get_id [of 0 96 b] assms(2)
  by (simp add: set_object_header_def object_header_def)

lemma directory_fields_valid:
  assumes "oh_object_type (object_header E b) = INFS_OBJECT_DIRECTORY"
    "oh_magic (object_header E b) = INFS_OBJECT_MAGIC" "oh_object_version (object_header E b) \<in> {1, 2, 3}"
    "oh_header_size (object_header E b) = 96" "oh_generation (object_header E b) \<noteq> 0"
    "id_is_nonzero (oh_object_id (object_header E b))" "unat (oh_payload_size (object_header E b)) \<le> 4000"
    "oh_checksum_type (object_header E b) = INFS_CHECKSUM_CRC64_ECMA"
  shows "object_fields_valid E b"
  using assms unfolding object_fields_valid_def Let_def object_type_valid_def object_version_valid_def by auto

lemma finalize_succeeds:
  "object_fields_valid E b \<Longrightarrow> \<exists>b'. infs_object_finalize E b = Inr b'"
  by (simp add: infs_object_finalize_def Let_def)

lemma root_payload_wf: "directory_payload_wf (root_payload p u g now)"
  by (simp add: root_payload_def directory_payload_wf_def attributes_wf_def posix_compat_wf_def
      fill_attributes_def timestamp_wf_def Let_def)

lemma encode_root_directory_ok:
  assumes "ext_ok E" "length oid = 16" "id_is_nonzero oid" "gen \<noteq> 0" "v \<in> {1, 2, 3}"
  obtains b where "encode_root_directory_version E oid gen permissions uid gid now v = Inr b"
    "fresh_object E INFS_OBJECT_DIRECTORY v oid gen b"
    "directory_payload_of E (get_bytes 96 144 b) = root_payload permissions uid gid now"
proof -
  obtain b0 where b0: "infs_object_init E 1 oid None gen 144 = Inr b0" "length b0 = INFS_BLOCK_SIZE"
    "object_header E b0 = \<lparr> oh_magic = INFS_OBJECT_MAGIC, oh_object_type = 1,
       oh_object_version = INFS_OBJECT_VERSION_CLASSIC, oh_header_size = 96, oh_generation = gen,
       oh_object_id = oid, oh_parent_id = zeros 16, oh_payload_size = 144,
       oh_checksum_type = INFS_CHECKSUM_CRC64_ECMA, oh_checksum = zeros 32 \<rparr>"
    using object_init_ok [OF assms(1-3), of 1 gen 144] assms(4) by (auto simp: object_type_valid_def)
  let ?h = "(object_header E b0) \<lparr> oh_object_version := v \<rparr>"
  have wf: "object_header_wf ?h"
    using b0(3) assms(2) by (simp add: object_header_wf_def INFS_OBJECT_MAGIC_def)
  note s = set_object_header [OF assms(1) b0(2) wf]
  note pl = directory_payload_laws(1,2) [OF assms(1) root_payload_wf [of permissions uid gid now]]
  let ?b2 = "put_bytes 96 (directory_payload_bytes E (root_payload permissions uid gid now))
               (set_object_header E ?h b0)"
  have l2: "length ?b2 = INFS_BLOCK_SIZE" using s(2) pl(1) by simp
  have h2: "object_header E ?b2 = ?h"
    using object_header_put_tail [OF s(2), of 96] s(1) pl(1) by simp
  have f: "object_fields_valid E ?b2"
    by (rule directory_fields_valid) (use h2 b0(3) assms in simp_all)
  obtain b where b: "infs_object_finalize E ?b2 = Inr b" using finalize_succeeds [OF f] by blast
  note fs = finalize_object_shape [OF assms(1) l2 b]
  obtain c where c: "object_header E b = ?h \<lparr> oh_checksum := c \<rparr>" using fs(4) h2 by auto
  show ?thesis
  proof
    show "encode_root_directory_version E oid gen permissions uid gid now v = Inr b"
      using b0(1) b by (simp add: encode_root_directory_version_def Let_def root_payload_def)
    show "fresh_object E INFS_OBJECT_DIRECTORY v oid gen b"
      using finalize_object_validates [OF assms(1) l2 b] fs(3) c b0(3) by (simp add: fresh_object_def)
    show "directory_payload_of E (get_bytes 96 144 b) = root_payload permissions uid gid now"
      using fs(5) h2 b0(3) pl s(2) by (simp add: get_put_same)
  qed
qed

lemma index_tree_fields_valid:
  assumes "object_header E b = \<lparr> oh_magic = INFS_OBJECT_MAGIC, oh_object_type = INFS_OBJECT_INDEX,
       oh_object_version = INFS_OBJECT_VERSION_TREE, oh_header_size = 96, oh_generation = gen,
       oh_object_id = oid, oh_parent_id = zeros 16, oh_payload_size = 16,
       oh_checksum_type = INFS_CHECKSUM_CRC64_ECMA, oh_checksum = c \<rparr>"
    "gen \<noteq> 0" "id_is_nonzero oid" "index_payload_of E (get_bytes 96 8 b) = \<lparr> ip_entry_count = n, ip_reserved = 0 \<rparr>"
    "ld64 E (get_bytes 104 8 b) \<noteq> 0" "n \<noteq> 0" "length b = INFS_BLOCK_SIZE"
  shows "object_fields_valid E b"
proof -
  have "index_payload_shape_valid E b 16 INFS_OBJECT_VERSION_TREE"
    using assms(4-7) by (simp add: index_payload_shape_valid_def Let_def object_payload_def get_get unat_eq_0)
  then show ?thesis
    unfolding object_fields_valid_def Let_def using assms(1-3)
    by (simp add: object_type_valid_def object_version_valid_def)
qed

lemma encode_tree_index_ok:
  assumes "ext_ok E" "length oid = 16" "id_is_nonzero oid" "gen \<noteq> 0" "root \<noteq> 0" "n \<noteq> 0"
  obtains b where "infs_encode_tree_object_index E oid gen root n = Inr b"
    "fresh_object E INFS_OBJECT_INDEX INFS_OBJECT_VERSION_TREE oid gen b" "ld64 E (get_bytes 104 8 b) = root"
    "ip_entry_count (index_payload_of E (get_bytes 96 8 b)) = n"
proof -
  obtain b0 where b0: "infs_object_init E 3 oid None gen 16 = Inr b0" "length b0 = INFS_BLOCK_SIZE"
    "object_header E b0 = \<lparr> oh_magic = INFS_OBJECT_MAGIC, oh_object_type = 3,
       oh_object_version = INFS_OBJECT_VERSION_CLASSIC, oh_header_size = 96, oh_generation = gen,
       oh_object_id = oid, oh_parent_id = zeros 16, oh_payload_size = 16,
       oh_checksum_type = INFS_CHECKSUM_CRC64_ECMA, oh_checksum = zeros 32 \<rparr>"
    using object_init_ok [OF assms(1-3), of 3 gen 16] assms(4) by (auto simp: object_type_valid_def)
  let ?h = "(object_header E b0) \<lparr> oh_object_version := INFS_OBJECT_VERSION_TREE \<rparr>"
  have wf: "object_header_wf ?h"
    using b0(3) assms(2) by (simp add: object_header_wf_def INFS_OBJECT_MAGIC_def)
  let ?p = "\<lparr> ip_entry_count = n, ip_reserved = 0 \<rparr>"
  have pwf: "index_payload_wf ?p" by (simp add: index_payload_wf_def)
  note pl = index_payload_laws(1,2) [OF assms(1) pwf]
  note s1 = set_object_header [OF assms(1) b0(2) wf]
  let ?b2 = "put_bytes 104 (st64 E root) (put_bytes 96 (index_payload_bytes E ?p) (set_object_header E ?h b0))"
  have l2: "length ?b2 = INFS_BLOCK_SIZE" using s1(2) pl(1) by (simp add: ext_laws [OF assms(1)])
  have h2: "object_header E ?b2 = ?h"
    using s1 pl(1) by (simp add: object_header_def get_put_before ext_laws [OF assms(1)])
  have "(object_header E ?b2) \<lparr> oh_payload_size := 16 \<rparr> = object_header E ?b2"
    unfolding h2 using b0(3) by simp
  then have b3: "set_object_header E ((object_header E ?b2) \<lparr> oh_payload_size := 16 \<rparr>) ?b2 = ?b2"
    by (simp only: set_object_header_id [OF assms(1) l2])
  have fields: "index_payload_of E (get_bytes 96 8 ?b2) = ?p" "ld64 E (get_bytes 104 8 ?b2) = root"
    using s1(2) pl by (simp_all add: get_put_same get_put_before ext_laws [OF assms(1)])
  have f: "object_fields_valid E ?b2"
    by (rule index_tree_fields_valid [where n = n and gen = gen and oid = oid and c = "zeros 32"])
      (use h2 b0(3) assms fields l2 in simp_all)
  obtain b where b: "infs_object_finalize E ?b2 = Inr b" using finalize_succeeds [OF f] by blast
  note fs = finalize_object_shape [OF assms(1) l2 b]
  obtain c where c: "object_header E b = ?h \<lparr> oh_checksum := c \<rparr>" using fs(4) h2 by auto
  have "get_bytes 96 16 b = get_bytes 96 16 ?b2" using fs(5) h2 b0(3) by simp
  then have g: "get_bytes (96 + k) m b = get_bytes (96 + k) m ?b2" if "k + m \<le> 16" for k m
    using get_get [OF that, of 96 b] get_get [OF that, of 96 ?b2] by simp
  show ?thesis
  proof
    show "infs_encode_tree_object_index E oid gen root n = Inr b"
      using b0(1) b b3 assms(5,6) by (simp add: infs_encode_tree_object_index_def Let_def)
    show "fresh_object E INFS_OBJECT_INDEX INFS_OBJECT_VERSION_TREE oid gen b"
      using finalize_object_validates [OF assms(1) l2 b] fs(3) c b0(3) by (simp add: fresh_object_def)
    show "ld64 E (get_bytes 104 8 b) = root" using g [of 8 8] fields by simp
    show "ip_entry_count (index_payload_of E (get_bytes 96 8 b)) = n" using g [of 0 8] fields by simp
  qed
qed

lemma encode_tree_root_ok:
  assumes "ext_ok E" "length oid = 16" "id_is_nonzero oid" "gen \<noteq> 0"
  obtains b where "infs_encode_tree_root_directory E oid gen permissions uid gid now = Inr b"
    "fresh_object E INFS_OBJECT_DIRECTORY INFS_OBJECT_VERSION_TREE oid gen b"
    "directory_payload_of E (get_bytes 96 144 b) = root_payload permissions uid gid now"
    "ld64 E (get_bytes 240 8 b) = 0"
proof -
  obtain b0 where b0: "encode_root_directory_version E oid gen permissions uid gid now 3 = Inr b0"
    "length b0 = INFS_BLOCK_SIZE" "infs_validate_object_block E b0"
    "oh_object_id (object_header E b0) = oid" "oh_object_version (object_header E b0) = 3"
    "oh_object_type (object_header E b0) = INFS_OBJECT_DIRECTORY" "oh_generation (object_header E b0) = gen"
    "directory_payload_of E (get_bytes 96 144 b0) = root_payload permissions uid gid now"
    "oh_parent_id (object_header E b0) = zeros 16"
    by (rule encode_root_directory_ok [OF assms, of 3 permissions uid gid now])
      (auto simp: fresh_object_def Let_def)
  let ?p = "root_payload permissions uid gid now"
  note pl = directory_payload_laws(1,2) [OF assms(1) root_payload_wf [of permissions uid gid now]]
  note st = ext_laws [OF assms(1)]
  have pid: "?p \<lparr> dp_entry_count := 0, dp_bytes_used := 0 \<rparr> = ?p" by (simp add: root_payload_def)
  let ?b2 = "put_bytes 240 (st64 E 0) (put_bytes 96 (directory_payload_bytes E ?p) b0)"
  have l2: "length ?b2 = INFS_BLOCK_SIZE" using b0(2) pl st by simp
  have h2: "object_header E ?b2 = object_header E b0"
    using b0(2) pl(1) st by (simp add: object_header_def get_put_before)
  let ?h = "(object_header E b0) \<lparr> oh_payload_size := 152 \<rparr>"
  have wf: "object_header_wf ?h"
    using object_header_wf [OF assms(1) b0(2)] by (simp add: object_header_wf_def)
  note s = set_object_header [OF assms(1) l2 wf]
  let ?b3 = "set_object_header E ?h ?b2"
  have "object_fields_valid E b0"
    using b0(3) by (auto simp: infs_validate_object_block_def Let_def split: if_splits)
  then have "object_fields_valid E ?b3"
    by (intro directory_fields_valid)
      (use s(1) b0 in \<open>simp_all add: object_fields_valid_def Let_def\<close>)
  then obtain b where b: "infs_object_finalize E ?b3 = Inr b" using finalize_succeeds by blast
  note fs = finalize_object_shape [OF assms(1) s(2) b]
  obtain c where c: "object_header E b = ?h \<lparr> oh_checksum := c \<rparr>" using fs(4) s(1) by auto
  have "get_bytes 96 152 b = get_bytes 96 152 ?b3" using fs(5) s(1) by simp
  then have g: "get_bytes (96 + k) m b = get_bytes (96 + k) m ?b3" if "k + m \<le> 152" for k m
    using get_get [OF that, of 96 b] get_get [OF that, of 96 ?b3] by simp
  show ?thesis
  proof
    show "infs_encode_tree_root_directory E oid gen permissions uid gid now = Inr b"
      using b b0(1,8) h2 pid by (simp add: infs_encode_tree_root_directory_def Let_def)
    show "fresh_object E INFS_OBJECT_DIRECTORY INFS_OBJECT_VERSION_TREE oid gen b"
      using finalize_object_validates [OF assms(1) s(2) b] fs(3) c b0 by (simp add: fresh_object_def)
    show "directory_payload_of E (get_bytes 96 144 b) = ?p"
      using g [of 0 144] s(3) b0(2) pl st by (simp add: get_put_same get_put_before)
    show "ld64 E (get_bytes 240 8 b) = 0"
      using g [of 144 8] s(3) b0(2) pl st by (simp add: get_put_same)
  qed
qed

lemma encode_index_ok:
  assumes "ext_ok E" "length oid = 16" "id_is_nonzero oid" "gen \<noteq> 0" "v \<in> {1, 2}"
  obtains b where "encode_object_index_version E oid gen v = Inr b"
    "fresh_object E INFS_OBJECT_INDEX v oid gen b"
    "index_payload_of E (get_bytes 96 8 b) = \<lparr> ip_entry_count = 0, ip_reserved = 0 \<rparr>"
proof -
  obtain b0 where b0: "infs_object_init E 3 oid None gen 8 = Inr b0" "length b0 = INFS_BLOCK_SIZE"
    "object_header E b0 = \<lparr> oh_magic = INFS_OBJECT_MAGIC, oh_object_type = 3,
       oh_object_version = INFS_OBJECT_VERSION_CLASSIC, oh_header_size = 96, oh_generation = gen,
       oh_object_id = oid, oh_parent_id = zeros 16, oh_payload_size = 8,
       oh_checksum_type = INFS_CHECKSUM_CRC64_ECMA, oh_checksum = zeros 32 \<rparr>"
    using object_init_ok [OF assms(1-3), of 3 gen 8] assms(4) by (auto simp: object_type_valid_def)
  let ?h = "(object_header E b0) \<lparr> oh_object_version := v \<rparr>"
  have wf: "object_header_wf ?h"
    using b0(3) assms(2) by (simp add: object_header_wf_def INFS_OBJECT_MAGIC_def)
  let ?p = "\<lparr> ip_entry_count = 0, ip_reserved = 0 \<rparr>"
  have pwf: "index_payload_wf ?p" by (simp add: index_payload_wf_def)
  note pl = index_payload_laws(1,2) [OF assms(1) pwf]
  note s = set_object_header [OF assms(1) b0(2) wf]
  let ?b2 = "put_bytes 96 (index_payload_bytes E ?p) (set_object_header E ?h b0)"
  have l2: "length ?b2 = INFS_BLOCK_SIZE" using s(2) pl(1) by simp
  have h2: "object_header E ?b2 = ?h"
    using object_header_put_tail [OF s(2), of 96] s(1) pl(1) by simp
  have p2: "index_payload_of E (get_bytes 96 8 ?b2) = ?p" using s(2) pl by (simp add: get_put_same)
  then have "index_payload_shape_valid E ?b2 8 v"
    using assms(5) by (auto simp: index_payload_shape_valid_def Let_def object_payload_def get_get)
  then have f: "object_fields_valid E ?b2"
    unfolding object_fields_valid_def Let_def h2 using b0(3) assms(3-5)
    by (auto simp: object_type_valid_def object_version_valid_def)
  obtain b where b: "infs_object_finalize E ?b2 = Inr b" using finalize_succeeds [OF f] by blast
  note fs = finalize_object_shape [OF assms(1) l2 b]
  obtain c where c: "object_header E b = ?h \<lparr> oh_checksum := c \<rparr>" using fs(4) h2 by auto
  show ?thesis
  proof
    show "encode_object_index_version E oid gen v = Inr b"
      using b0(1) b by (simp add: encode_object_index_version_def Let_def)
    show "fresh_object E INFS_OBJECT_INDEX v oid gen b"
      using finalize_object_validates [OF assms(1) l2 b] fs(3) c b0(3) by (simp add: fresh_object_def)
    show "index_payload_of E (get_bytes 96 8 b) = ?p" using fs(5) h2 b0(3) p2 by simp
  qed
qed

section \<open>Instances over a concrete library\<close>

interpretation le_superblock_seal: crc_sealed le_lib "infs_validate_superblock_block le_lib" 220
  by (rule superblock_crc_sealed) simp

interpretation le_object_seal: crc_sealed le_lib "infs_validate_object_block le_lib" 64
  by (rule object_crc_sealed) simp

interpretation le_metadata_seal:
  crc_sealed le_lib "\<lambda>b. infs_validate_metadata_page le_lib b magic owner" 48 for magic owner
  by (rule metadata_crc_sealed) simp

interpretation le_allocation_seal:
  crc_sealed le_lib "\<lambda>b. infs_validate_allocation_page le_lib b magic g ix level" 40 for magic g ix level
  by (rule allocation_crc_sealed) simp

lemma kind_crc_sealed:
  assumes "ext_ok E"
  shows "crc_sealed E (kind_valid E k) (kind_checksum_offset k)"
  using superblock_crc_sealed [OF assms] object_crc_sealed [OF assms] metadata_crc_sealed [OF assms]
    allocation_crc_sealed [OF assms]
  unfolding crc_sealed_def by (cases k) simp_all

lemma example_id_nonzero [simp]: "id_is_nonzero example_id" "length example_id = 16"
  by (simp_all add: example_id_def id_is_nonzero_def bytes_are_zero_def)

lemma example_superblock_ok:
  "superblock_wf example_superblock" "superblock_fields_ok le_lib example_superblock"
proof -
  show "superblock_wf example_superblock"
    by (simp add: example_superblock_def superblock_wf_def INFS_MAGIC_def)
  have "takeWhile (\<lambda>b. b \<noteq> 0) (zeros 64) = []"
    by (simp add: zeros_def numeral_eq_Suc)
  then have "superblock_label_valid le_lib (zeros 64)"
    by (simp add: superblock_label_valid_def Let_def zeros_def get_bytes_def list_all_iff)
  then show "superblock_fields_ok le_lib example_superblock"
    by (simp add: example_superblock_def superblock_fields_ok_def)
qed

section \<open>Properties\<close>

text \<open>C13: Superblock encoding and decoding are inverse: a superblock with the header constants
  and feature flags of the format encodes to a block that decodes to it, up to the checksum
  field that encoding fills in; and every block that decodes is exactly the encoding of what
  it decodes to, so no two blocks carry the same superblock.\<close>

theorem superblock_roundtrip:
  assumes "ext_ok E"
  shows "(superblock_wf sb \<and> superblock_fields_ok E sb \<longrightarrow>
      (\<exists>b c. infs_encode_superblock E sb = Inr b \<and> infs_decode_superblock E b = Inr (sb \<lparr> sb_checksum := c \<rparr>))) \<and>
    (length b' = INFS_BLOCK_SIZE \<and> infs_decode_superblock E b' = Inr sb' \<longrightarrow>
      infs_encode_superblock E sb' = Inr b')"
proof (intro conjI impI; elim conjE)
  assume "superblock_wf sb" "superblock_fields_ok E sb"
  then show "\<exists>b c. infs_encode_superblock E sb = Inr b \<and>
      infs_decode_superblock E b = Inr (sb \<lparr> sb_checksum := c \<rparr>)"
    by (rule encode_superblock_validates [OF assms]) blast
next
  assume "length b' = INFS_BLOCK_SIZE" "infs_decode_superblock E b' = Inr sb'"
  then show "infs_encode_superblock E sb' = Inr b'" by (rule decode_superblock_encodes [OF assms])
qed

theorem superblock_roundtrip_witness:
  "\<exists>b c. infs_encode_superblock le_lib example_superblock = Inr b \<and>
     infs_decode_superblock le_lib b = Inr (example_superblock \<lparr> sb_checksum := c \<rparr>) \<and>
     infs_encode_superblock le_lib (example_superblock \<lparr> sb_checksum := c \<rparr>) = Inr b"
proof -
  obtain b c where b: "infs_encode_superblock le_lib example_superblock = Inr b" "length b = INFS_BLOCK_SIZE"
    "infs_decode_superblock le_lib b = Inr (example_superblock \<lparr> sb_checksum := c \<rparr>)"
    using encode_superblock_validates [OF ext_ok_le_lib example_superblock_ok] by blast
  then show ?thesis
    using superblock_roundtrip [OF ext_ok_le_lib, of _ b "example_superblock \<lparr> sb_checksum := c \<rparr>"] by blast
qed

text \<open>C14: A block passes object validation exactly when finalizing it succeeds and changes
  nothing, and whatever finalization returns passes validation: every payload shape check holds,
  the bytes after the payload and the unused checksum bytes are zero and the CRC matches.\<close>

theorem object_validate_iff_finalized:
  assumes "ext_ok E" "length b = INFS_BLOCK_SIZE"
  shows "(infs_validate_object_block E b \<longleftrightarrow> infs_object_finalize E b = Inr b) \<and>
    (infs_object_finalize E b = Inr b' \<longrightarrow>
      infs_validate_object_block E b' \<and> object_payload b' (oh_payload_size (object_header E b)) =
        object_payload b (oh_payload_size (object_header E b)))"
  using finalize_object_validates [OF assms] validate_object_fixpoint [OF assms]
    finalize_object_shape(5) [OF assms] unfolding object_payload_def by blast

theorem object_validate_iff_finalized_witness:
  "\<exists>b. length b = INFS_BLOCK_SIZE \<and> infs_validate_object_block le_lib b \<and>
       infs_object_finalize le_lib b = Inr b"
proof -
  obtain b where "length b = INFS_BLOCK_SIZE" "infs_validate_object_block le_lib b"
    by (rule encode_tree_index_ok [OF ext_ok_le_lib, of example_id 1 7 1]) (auto simp: fresh_object_def)
  then show ?thesis using object_validate_iff_finalized [OF ext_ok_le_lib, of b] by blast
qed

text \<open>C15: A valid superblock, object block, metadata page or allocation page never stays valid
  under a change confined to eight consecutive bytes that all lie outside its 32-byte checksum
  field, nor under any change that lies entirely inside that field. A change that straddles a
  boundary of the field is not covered.\<close>

theorem corruption_detected:
  assumes "ext_ok E" "kind_valid E k b" "length b = INFS_BLOCK_SIZE" "agree_outside pos n b b'" "b \<noteq> b'"
    and "n \<le> 8 \<and> (pos + n \<le> kind_checksum_offset k \<or> kind_checksum_offset k + 32 \<le> pos) \<or>
         kind_checksum_offset k \<le> pos \<and> pos + n \<le> kind_checksum_offset k + 32"
  shows "\<not> kind_valid E k b'"
  by (rule crc_sealed.burst_detected [OF kind_crc_sealed [OF assms(1)] assms(2-6)])

theorem corruption_detected_witness:
  "\<exists>b. kind_valid le_lib Superblock_Block b \<and> \<not> kind_valid le_lib Superblock_Block (b[24 := b ! 24 + 1])"
proof -
  obtain b c where b: "infs_encode_superblock le_lib example_superblock = Inr b" "length b = INFS_BLOCK_SIZE"
    "infs_decode_superblock le_lib b = Inr (example_superblock \<lparr> sb_checksum := c \<rparr>)"
    using encode_superblock_validates [OF ext_ok_le_lib example_superblock_ok] by blast
  then have v: "kind_valid le_lib Superblock_Block b"
    by (auto simp: infs_decode_superblock_def split: if_splits)
  have "b[24 := b ! 24 + 1] ! 24 \<noteq> b ! 24" using b(2) by simp
  then have "b \<noteq> b[24 := b ! 24 + 1]" by metis
  moreover have "agree_outside 24 1 b (b[24 := b ! 24 + 1])" by (simp add: agree_outside_def)
  ultimately have "\<not> kind_valid le_lib Superblock_Block (b[24 := b ! 24 + 1])"
    using corruption_detected [OF ext_ok_le_lib v b(2)] by simp
  then show ?thesis using v by blast
qed

text \<open>C16: Finalizing a metadata page or an allocation page yields a page that validates with its
  own magic, owner, index and level and keeps its entries; a metadata page whose reserved field is
  not zero can be neither finalized nor validated.\<close>

theorem pages_finalize_validate:
  assumes "ext_ok E" "length b = INFS_BLOCK_SIZE"
  shows "(infs_metadata_page_finalize E b = Inr b' \<longrightarrow>
      infs_validate_metadata_page E b' (mp_magic (metadata_page E b)) (mp_owner_object_id (metadata_page E b)) \<and>
      get_bytes 80 (unat (mp_bytes_used (metadata_page E b))) b' =
      get_bytes 80 (unat (mp_bytes_used (metadata_page E b))) b) \<and>
    (infs_allocation_page_finalize E b = Inr b' \<and> ap_generation (allocation_page E b) \<le> g \<longrightarrow>
      infs_validate_allocation_page E b' (ap_magic (allocation_page E b)) g
        (ap_logical_index (allocation_page E b)) (ap_level (allocation_page E b)) \<and>
      get_bytes 72 (unat (ap_bytes_used (allocation_page E b))) b' =
      get_bytes 72 (unat (ap_bytes_used (allocation_page E b))) b) \<and>
    (mp_reserved (metadata_page E b) \<noteq> 0 \<longrightarrow>
      infs_metadata_page_finalize E b = Inl INFS_STATUS_INVALID_ARGUMENT \<and>
      \<not> infs_validate_metadata_page E b magic owner)"
proof (intro conjI impI; (elim conjE)?)
  assume "mp_reserved (metadata_page E b) \<noteq> 0"
  then show "infs_metadata_page_finalize E b = Inl INFS_STATUS_INVALID_ARGUMENT"
    "\<not> infs_validate_metadata_page E b magic owner"
    by (simp_all add: finalize_metadata_iff validate_metadata_iff metadata_fields_ok_def Let_def)
qed (rule finalize_metadata_validates [OF assms] finalize_allocation_validates [OF assms]; assumption)+

theorem pages_finalize_validate_witness:
  "\<exists>b b'. infs_metadata_page_init le_lib INFS_EXTENT_PAGE_MAGIC example_id 3 = Inr b \<and>
     infs_metadata_page_finalize le_lib b = Inr b' \<and>
     infs_validate_metadata_page le_lib b' INFS_EXTENT_PAGE_MAGIC example_id"
proof -
  let ?r = "\<lparr> mp_magic = INFS_EXTENT_PAGE_MAGIC, mp_generation = 3, mp_owner_object_id = example_id,
     mp_entry_count = 0, mp_bytes_used = 0, mp_checksum_type = 1, mp_reserved = 0, mp_checksum = zeros 32 \<rparr>"
  let ?b = "put_bytes 0 (metadata_page_bytes le_lib ?r) (zeros INFS_BLOCK_SIZE)"
  have wf: "metadata_page_wf ?r" by (simp add: metadata_page_wf_def INFS_EXTENT_PAGE_MAGIC_def)
  note l = metadata_page_laws(1,2) [OF ext_ok_le_lib wf]
  have i: "infs_metadata_page_init le_lib INFS_EXTENT_PAGE_MAGIC example_id 3 = Inr ?b"
    by (simp add: infs_metadata_page_init_def INFS_EXTENT_PAGE_MAGIC_def)
  have p: "metadata_page le_lib ?b = ?r" "length ?b = INFS_BLOCK_SIZE"
    using l by (simp_all add: metadata_page_def get_put_same)
  obtain b' where "infs_metadata_page_finalize le_lib ?b = Inr b'"
    using p(1) by (auto simp: finalize_metadata_iff metadata_fields_ok_def metadata_magics_def)
  then show ?thesis using i p pages_finalize_validate [OF ext_ok_le_lib p(2)] by auto
qed

text \<open>C17: Each of the six encoders of the initial objects succeeds for a nonzero identity and
  generation and yields a block that passes object validation and reads back the type, version,
  identity, generation, absent parent and payload it was given: the classic, paged and tree
  root directory, and the classic, paged and tree object index. The tree index additionally
  refuses a zero root or a zero count.\<close>

theorem initial_objects_valid:
  assumes "ext_ok E" "length oid = 16" "id_is_nonzero oid" "gen \<noteq> 0"
  shows "(\<exists>b. infs_encode_root_directory E oid gen permissions uid gid now = Inr b \<and>
      fresh_object E INFS_OBJECT_DIRECTORY INFS_OBJECT_VERSION_CLASSIC oid gen b \<and>
      directory_payload_of E (get_bytes 96 144 b) = root_payload permissions uid gid now) \<and>
    (\<exists>b. infs_encode_paged_root_directory E oid gen permissions uid gid now = Inr b \<and>
      fresh_object E INFS_OBJECT_DIRECTORY INFS_OBJECT_VERSION_PAGED oid gen b \<and>
      directory_payload_of E (get_bytes 96 144 b) = root_payload permissions uid gid now) \<and>
    (\<exists>b. infs_encode_tree_root_directory E oid gen permissions uid gid now = Inr b \<and>
      fresh_object E INFS_OBJECT_DIRECTORY INFS_OBJECT_VERSION_TREE oid gen b \<and>
      directory_payload_of E (get_bytes 96 144 b) = root_payload permissions uid gid now \<and>
      ld64 E (get_bytes 240 8 b) = 0) \<and>
    (\<exists>b. infs_encode_object_index E oid gen = Inr b \<and>
      fresh_object E INFS_OBJECT_INDEX INFS_OBJECT_VERSION_CLASSIC oid gen b \<and>
      index_payload_of E (get_bytes 96 8 b) = \<lparr> ip_entry_count = 0, ip_reserved = 0 \<rparr>) \<and>
    (\<exists>b. infs_encode_paged_object_index E oid gen = Inr b \<and>
      fresh_object E INFS_OBJECT_INDEX INFS_OBJECT_VERSION_PAGED oid gen b \<and>
      index_payload_of E (get_bytes 96 8 b) = \<lparr> ip_entry_count = 0, ip_reserved = 0 \<rparr>) \<and>
    (if root = 0 \<or> n = 0
     then infs_encode_tree_object_index E oid gen root n = Inl INFS_STATUS_INVALID_ARGUMENT
     else \<exists>b. infs_encode_tree_object_index E oid gen root n = Inr b \<and>
      fresh_object E INFS_OBJECT_INDEX INFS_OBJECT_VERSION_TREE oid gen b \<and>
      ld64 E (get_bytes 104 8 b) = root \<and>
      ip_entry_count (index_payload_of E (get_bytes 96 8 b)) = n)" (is "?d1 \<and> ?d2 \<and> ?d3 \<and> ?i1 \<and> ?i2 \<and> ?i3")
proof (intro conjI)
  show ?d1 unfolding infs_encode_root_directory_def
    by (rule encode_root_directory_ok [OF assms, of 1 permissions uid gid now]) auto
  show ?d2 unfolding infs_encode_paged_root_directory_def
    by (rule encode_root_directory_ok [OF assms, of 2 permissions uid gid now]) auto
  show ?d3 by (rule encode_tree_root_ok [OF assms, of permissions uid gid now]) blast
  show ?i1 unfolding infs_encode_object_index_def by (rule encode_index_ok [OF assms, of 1]) auto
  show ?i2 unfolding infs_encode_paged_object_index_def by (rule encode_index_ok [OF assms, of 2]) auto
  show ?i3
  proof (cases "root = 0 \<or> n = 0")
    case True
    then show ?thesis by (auto simp: infs_encode_tree_object_index_def)
  next
    case False
    then have nz: "root \<noteq> 0" "n \<noteq> 0" by auto
    show ?thesis by (rule encode_tree_index_ok [OF assms nz]) (use nz in auto)
  qed
qed

theorem initial_objects_valid_witness:
  "\<exists>b. infs_encode_tree_object_index le_lib example_id 1 77 3 = Inr b \<and>
     fresh_object le_lib INFS_OBJECT_INDEX INFS_OBJECT_VERSION_TREE example_id 1 b \<and>
     ld64 le_lib (get_bytes 104 8 b) = 77"
proof -
  note i = initial_objects_valid [OF ext_ok_le_lib example_id_nonzero(2,1), where gen = 1 and root = 77 and n = 3]
  have nz: "(1 :: u64) \<noteq> 0" "\<not> ((77 :: u64) = 0 \<or> (3 :: u32) = 0)" by simp_all
  from i [OF nz(1), THEN conjunct2, THEN conjunct2, THEN conjunct2, THEN conjunct2, THEN conjunct2]
  show ?thesis unfolding if_not_P [OF nz(2)] by blast
qed

end
