(* ===== verification/Storage.thy ===== *)
theory Storage
  imports Fs
begin

unbundle bit_operations_syntax

text \<open>
  The storage dispatch layer of \<open>src/storage.c\<close> and \<open>include/infilfs/storage.h\<close>. A storage
  handle is a table of optional callbacks over a backend state and an optional state (the
  \<open>context\<close> pointer); a callback maps the state to its result and the new state, so every
  operation returns the updated handle. The locale \<open>byte_store\<close> is the documented contract of
  a backend: a successful read returns the bytes of the range, a successful write replaces
  exactly the range.
\<close>

record infs_storage_io_policy =
  pol_object_id :: bytes
  pol_protection_copies :: u8
  pol_encryption_domain :: u8

record 'd infs_storage_ops =
  op_read_at :: "('d \<Rightarrow> u64 \<Rightarrow> nat \<Rightarrow> bytes infs_result \<times> 'd) option"
  op_write_at :: "('d \<Rightarrow> u64 \<Rightarrow> bytes \<Rightarrow> infs_status \<times> 'd) option"
  op_read_at_policy ::
    "('d \<Rightarrow> u64 \<Rightarrow> nat \<Rightarrow> infs_storage_io_policy option \<Rightarrow> bytes infs_result \<times> 'd) option"
  op_write_at_policy ::
    "('d \<Rightarrow> u64 \<Rightarrow> bytes \<Rightarrow> infs_storage_io_policy option \<Rightarrow> infs_status \<times> 'd) option"
  op_flush :: "('d \<Rightarrow> infs_status \<times> 'd) option"
  op_get_size :: "('d \<Rightarrow> (u64 \<times> bool) infs_result \<times> 'd) option"
  op_random_bytes :: "('d \<Rightarrow> nat \<Rightarrow> bytes infs_result \<times> 'd) option"
  op_current_time :: "('d \<Rightarrow> infs_timestamp infs_result \<times> 'd) option"
  op_close :: "('d \<Rightarrow> 'd) option"

record 'd infs_storage =
  st_ops :: "'d infs_storage_ops option"
  st_context :: "'d option"

definition infs_timestamp_valid :: "infs_timestamp \<Rightarrow> bool" where
  "infs_timestamp_valid t \<longleftrightarrow> t_nanoseconds t < 1000000000"

definition infs_storage_valid :: "'d infs_storage \<Rightarrow> bool" where
  "infs_storage_valid s =
     (case (st_ops s, st_context s) of
        (Some ops, Some _) \<Rightarrow> op_read_at ops \<noteq> None \<and> op_get_size ops \<noteq> None
      | _ \<Rightarrow> False)"

text \<open>Run a callback on the context of a valid handle; a missing callback is invalid use.\<close>

definition with_op ::
    "'d infs_storage \<Rightarrow> ('d infs_storage_ops \<Rightarrow> ('d \<Rightarrow> 'r \<times> 'd) option) \<Rightarrow> 'r \<Rightarrow> 'r \<times> 'd infs_storage" where
  "with_op s sel bad =
     (if \<not> infs_storage_valid s then (bad, s)
      else case (sel (the (st_ops s))) of
        None \<Rightarrow> (bad, s)
      | Some f \<Rightarrow> (let (r, c) = f (the (st_context s)) in (r, s \<lparr> st_context := Some c \<rparr>)))"

definition infs_storage_read :: "'d infs_storage \<Rightarrow> u64 \<Rightarrow> nat \<Rightarrow> bytes infs_result \<times> 'd infs_storage" where
  "infs_storage_read s offset sz =
     with_op s (\<lambda>ops. map_option (\<lambda>f c. f c offset sz) (op_read_at ops)) (Inl INFS_STATUS_INVALID_ARGUMENT)"

definition infs_storage_write :: "'d infs_storage \<Rightarrow> u64 \<Rightarrow> bytes \<Rightarrow> infs_status \<times> 'd infs_storage" where
  "infs_storage_write s offset buffer =
     with_op s (\<lambda>ops. map_option (\<lambda>f c. f c offset buffer) (op_write_at ops)) INFS_STATUS_INVALID_ARGUMENT"

definition policy_is_explicit :: "infs_storage_io_policy option \<Rightarrow> bool" where
  "policy_is_explicit policy =
     (case policy of None \<Rightarrow> False
      | Some p \<Rightarrow> pol_protection_copies p \<noteq> 0 \<or> pol_encryption_domain p \<noteq> 0)"

definition infs_storage_read_policy ::
    "'d infs_storage \<Rightarrow> u64 \<Rightarrow> nat \<Rightarrow> infs_storage_io_policy option \<Rightarrow> bytes infs_result \<times> 'd infs_storage" where
  "infs_storage_read_policy s offset sz policy =
     (if \<not> infs_storage_valid s then (Inl INFS_STATUS_INVALID_ARGUMENT, s)
      else case op_read_at_policy (the (st_ops s)) of
        Some f \<Rightarrow> with_op s (\<lambda>_. Some (\<lambda>c. f c offset sz policy)) (Inl INFS_STATUS_INVALID_ARGUMENT)
      | None \<Rightarrow>
          if policy_is_explicit policy then (Inl INFS_STATUS_NOT_SUPPORTED, s)
          else infs_storage_read s offset sz)"

definition infs_storage_write_policy ::
    "'d infs_storage \<Rightarrow> u64 \<Rightarrow> bytes \<Rightarrow> infs_storage_io_policy option \<Rightarrow> infs_status \<times> 'd infs_storage" where
  "infs_storage_write_policy s offset buffer policy =
     (if \<not> infs_storage_valid s \<or> op_write_at (the (st_ops s)) = None
      then (INFS_STATUS_INVALID_ARGUMENT, s)
      else case op_write_at_policy (the (st_ops s)) of
        Some f \<Rightarrow> with_op s (\<lambda>_. Some (\<lambda>c. f c offset buffer policy)) INFS_STATUS_INVALID_ARGUMENT
      | None \<Rightarrow>
          if policy_is_explicit policy then (INFS_STATUS_NOT_SUPPORTED, s)
          else infs_storage_write s offset buffer)"

definition infs_storage_flush :: "'d infs_storage \<Rightarrow> infs_status \<times> 'd infs_storage" where
  "infs_storage_flush s = with_op s op_flush INFS_STATUS_INVALID_ARGUMENT"

definition infs_storage_get_size :: "'d infs_storage \<Rightarrow> (u64 \<times> bool) infs_result \<times> 'd infs_storage" where
  "infs_storage_get_size s = with_op s op_get_size (Inl INFS_STATUS_INVALID_ARGUMENT)"

definition infs_storage_random :: "'d infs_storage \<Rightarrow> nat \<Rightarrow> bytes infs_result \<times> 'd infs_storage" where
  "infs_storage_random s sz =
     with_op s (\<lambda>ops. map_option (\<lambda>f c. f c sz) (op_random_bytes ops)) (Inl INFS_STATUS_INVALID_ARGUMENT)"

definition infs_storage_current_time :: "'d infs_storage \<Rightarrow> infs_timestamp infs_result \<times> 'd infs_storage" where
  "infs_storage_current_time s =
     (case with_op s op_current_time (Inl INFS_STATUS_INVALID_ARGUMENT) of
        (Inr t, s') \<Rightarrow> (if \<not> infs_timestamp_valid t then Inl INFS_STATUS_CORRUPT else Inr t, s')
      | (Inl e, s') \<Rightarrow> (Inl e, s'))"

definition infs_storage_close :: "'d infs_storage \<Rightarrow> 'd option \<times> 'd infs_storage" where
  "infs_storage_close s =
     (case (st_ops s, st_context s) of
        (Some ops, Some c) \<Rightarrow> (map_option (\<lambda>f. f c) (op_close ops), \<lparr> st_ops = None, st_context = None \<rparr>)
      | _ \<Rightarrow> (None, \<lparr> st_ops = None, st_context = None \<rparr>))"

section \<open>The backend contract\<close>

text \<open>Contents as a map from byte address to byte.\<close>

definition range_bytes :: "(u64 \<Rightarrow> byte) \<Rightarrow> u64 \<Rightarrow> nat \<Rightarrow> bytes" where
  "range_bytes m offset n = map (\<lambda>i. m (offset + word_of_nat i)) [0..<n]"

fun range_update :: "(u64 \<Rightarrow> byte) \<Rightarrow> u64 \<Rightarrow> bytes \<Rightarrow> (u64 \<Rightarrow> byte)" where
  "range_update m offset [] = m"
| "range_update m offset (b # bs) = (range_update m (offset + 1) bs)(offset := b)"

section \<open>Reference definitions and examples\<close>

definition handle_inv :: "'d infs_storage_ops \<Rightarrow> ('d \<Rightarrow> bool) \<Rightarrow> 'd infs_storage \<Rightarrow> bool" where
  "handle_inv ops good s \<longleftrightarrow> st_ops s = Some ops \<and> (\<exists>c. st_context s = Some c \<and> good c)"

definition handle_contents :: "('d \<Rightarrow> u64 \<Rightarrow> byte) \<Rightarrow> 'd infs_storage \<Rightarrow> u64 \<Rightarrow> byte" where
  "handle_contents contents s = contents (the (st_context s))"

locale byte_store =
  fixes rd :: "'s \<Rightarrow> u64 \<Rightarrow> nat \<Rightarrow> bytes infs_result \<times> 's"
    and wr :: "'s \<Rightarrow> u64 \<Rightarrow> bytes \<Rightarrow> infs_status \<times> 's"
    and good :: "'s \<Rightarrow> bool"
    and contents :: "'s \<Rightarrow> u64 \<Rightarrow> byte"
  assumes rd_inv: "good s \<Longrightarrow> rd s a n = (r, s') \<Longrightarrow> good s' \<and> contents s' = contents s"
    and rd_bytes: "good s \<Longrightarrow> rd s a n = (Inr bs, s') \<Longrightarrow> bs = range_bytes (contents s) a n"
    and wr_ok: "good s \<Longrightarrow> wr s a bs = (INFS_STATUS_OK, s') \<Longrightarrow>
                good s' \<and> contents s' = range_update (contents s) a bs"

lemma range_update_apply:
  "length bs \<le> 2 ^ 64 \<Longrightarrow>
   range_update m a bs x = (if unat (x - a) < length bs then bs ! unat (x - a) else m x)"
proof (induction bs arbitrary: a)
  case Nil
  then show ?case by simp
next
  case (Cons b bs)
  show ?case
  proof (cases "x = a")
    case True
    then show ?thesis by simp
  next
    case False
    then have "unat (x - a) \<noteq> 0" "unat (x - (a + 1)) = unat (x - a) - 1"
      using unat_minus_one [of "x - a"] by (auto simp: unat_eq_0 diff_diff_eq)
    then show ?thesis using Cons False by (auto simp: nth_Cons')
  qed
qed

lemma length_range_bytes [simp]: "length (range_bytes m a n) = n"
  by (simp add: range_bytes_def)

lemma unat_of_nat_small: "i < 2 ^ 64 \<Longrightarrow> unat (word_of_nat i :: u64) = i"
  by (simp add: unat_of_nat take_bit_nat_eq_self)

lemma range_bytes_update:
  assumes "length bs \<le> 2 ^ 64"
  shows "range_bytes (range_update m a bs) a (length bs) = bs"
proof (rule nth_equalityI)
  fix i assume "i < length (range_bytes (range_update m a bs) a (length bs))"
  then have i: "i < length bs" by simp
  then have "unat (word_of_nat i :: u64) = i" using assms by (intro unat_of_nat_small) simp
  then show "range_bytes (range_update m a bs) a (length bs) ! i = bs ! i"
    using i assms by (simp add: range_bytes_def range_update_apply)
qed simp

lemma get_range_bytes:
  "c + k \<le> n \<Longrightarrow> get_bytes c k (range_bytes m a n) = range_bytes m (a + word_of_nat c) k"
  by (rule nth_equalityI) (simp_all add: nth_get range_bytes_def ac_simps)

text \<open>A backend whose callbacks honour the contract, as the dispatch layer sees it: the policy
  callbacks, where present, agree with the plain ones when no policy is given.\<close>

locale backend = byte_store rd wr good contents
  for rd :: "'d \<Rightarrow> u64 \<Rightarrow> nat \<Rightarrow> bytes infs_result \<times> 'd"
    and wr :: "'d \<Rightarrow> u64 \<Rightarrow> bytes \<Rightarrow> infs_status \<times> 'd"
    and good :: "'d \<Rightarrow> bool"
    and contents :: "'d \<Rightarrow> u64 \<Rightarrow> byte" +
  fixes ops :: "'d infs_storage_ops"
  assumes read_at: "op_read_at ops = Some rd"
    and write_at: "op_write_at ops = Some wr"
    and get_size: "op_get_size ops \<noteq> None"
    and read_policy: "op_read_at_policy ops = Some f \<Longrightarrow> f c a n None = rd c a n"
    and write_policy: "op_write_at_policy ops = Some g \<Longrightarrow> g c a bs None = wr c a bs"
begin

lemma storage_valid: "st_ops s = Some ops \<Longrightarrow> st_context s = Some c \<Longrightarrow> infs_storage_valid s"
  using read_at get_size by (simp add: infs_storage_valid_def)

lemma dispatch_read:
  assumes "st_ops s = Some ops" "st_context s = Some c"
  shows "infs_storage_read_policy s a n None =
    (fst (rd c a n), s \<lparr> st_context := Some (snd (rd c a n)) \<rparr>)"
  using assms storage_valid read_at read_policy
  by (auto simp: infs_storage_read_policy_def infs_storage_read_def with_op_def policy_is_explicit_def
      split: option.splits prod.splits)

lemma dispatch_write:
  assumes "st_ops s = Some ops" "st_context s = Some c"
  shows "infs_storage_write_policy s a bs None =
    (fst (wr c a bs), s \<lparr> st_context := Some (snd (wr c a bs)) \<rparr>)"
  using assms storage_valid write_at write_policy
  by (auto simp: infs_storage_write_policy_def infs_storage_write_def with_op_def policy_is_explicit_def
      split: option.splits prod.splits)

end

sublocale backend \<subseteq> handle: byte_store
  "\<lambda>s a n. infs_storage_read_policy s a n None" "\<lambda>s a bs. infs_storage_write_policy s a bs None"
  "handle_inv ops good" "handle_contents contents"
proof
  fix s a n r s' assume s: "handle_inv ops good s" and r: "infs_storage_read_policy s a n None = (r, s')"
  obtain c where c: "st_ops s = Some ops" "st_context s = Some c" "good c"
    using s by (auto simp: handle_inv_def)
  then have e: "r = fst (rd c a n)" "s' = s \<lparr> st_context := Some (snd (rd c a n)) \<rparr>"
    using r dispatch_read by auto
  show "handle_inv ops good s' \<and> handle_contents contents s' = handle_contents contents s"
    using rd_inv [OF c(3), of a n "fst (rd c a n)" "snd (rd c a n)"] c e
    by (simp add: handle_inv_def handle_contents_def)
next
  fix s a n bs s' assume s: "handle_inv ops good s" and r: "infs_storage_read_policy s a n None = (Inr bs, s')"
  then obtain c where c: "st_ops s = Some ops" "st_context s = Some c" "good c"
    by (auto simp: handle_inv_def)
  then have "rd c a n = (Inr bs, snd (rd c a n))" using r dispatch_read by (metis fst_conv prod.collapse)
  then show "bs = range_bytes (handle_contents contents s) a n"
    using rd_bytes c by (simp add: handle_contents_def)
next
  fix s a bs s' assume s: "handle_inv ops good s"
    and r: "infs_storage_write_policy s a bs None = (INFS_STATUS_OK, s')"
  then obtain c where c: "st_ops s = Some ops" "st_context s = Some c" "good c"
    by (auto simp: handle_inv_def)
  then have e: "INFS_STATUS_OK = fst (wr c a bs)" "s' = s \<lparr> st_context := Some (snd (wr c a bs)) \<rparr>"
    using r dispatch_write by auto
  show "handle_inv ops good s' \<and> handle_contents contents s' = range_update (handle_contents contents s) a bs"
    using wr_ok [OF c(3), of a bs "snd (wr c a bs)"] c e
    by (simp add: handle_inv_def handle_contents_def prod_eq_iff)
qed

end
