(* ===== verification/Posix_Io.thy ===== *)
theory Posix_Io
  imports Storage
begin

unbundle bit_operations_syntax

text \<open>
  The POSIX host backend of \<open>src/platform/posix_io.c\<close>: the status/errno translation, the size
  query, and the storage callbacks over one open file description. The system calls and the
  full-transfer helpers of the infiltratr-common submodule are the record \<open>posix_os\<close>; the locale
  \<open>posix_host\<close> states what they are documented to do, and is interpreted on an in-memory device.
  The retry loop of \<open>infs_random_bytes\<close> is a parameter (\<open>rnd\<close>), since it may spin on
  interruptions.
\<close>

datatype posix_errno =
    E_NONE | EINVAL | EIO | EROFS | ENOSPC | ENOENT | EEXIST | ENOTDIR | EISDIR | ENOTEMPTY
  | ENAMETOOLONG | EFBIG | ENOMEM | EINTR | EBUSY | EAGAIN | EOVERFLOW | ELOOP | EOPNOTSUPP
  | E_OTHER nat

fun infs_status_from_errno :: "posix_errno \<Rightarrow> infs_status" where
  "infs_status_from_errno E_NONE = INFS_STATUS_OK"
| "infs_status_from_errno EINVAL = INFS_STATUS_INVALID_ARGUMENT"
| "infs_status_from_errno EIO = INFS_STATUS_IO_ERROR"
| "infs_status_from_errno EROFS = INFS_STATUS_READ_ONLY"
| "infs_status_from_errno ENOSPC = INFS_STATUS_NO_SPACE"
| "infs_status_from_errno ENOENT = INFS_STATUS_NOT_FOUND"
| "infs_status_from_errno EEXIST = INFS_STATUS_ALREADY_EXISTS"
| "infs_status_from_errno ENOTDIR = INFS_STATUS_NOT_DIRECTORY"
| "infs_status_from_errno EISDIR = INFS_STATUS_IS_DIRECTORY"
| "infs_status_from_errno ENOTEMPTY = INFS_STATUS_NOT_EMPTY"
| "infs_status_from_errno ENAMETOOLONG = INFS_STATUS_NAME_TOO_LONG"
| "infs_status_from_errno EFBIG = INFS_STATUS_FILE_TOO_LARGE"
| "infs_status_from_errno ENOMEM = INFS_STATUS_NO_MEMORY"
| "infs_status_from_errno EINTR = INFS_STATUS_INTERRUPTED"
| "infs_status_from_errno EBUSY = INFS_STATUS_BUSY"
| "infs_status_from_errno EAGAIN = INFS_STATUS_BUSY"
| "infs_status_from_errno EOVERFLOW = INFS_STATUS_OVERFLOW"
| "infs_status_from_errno ELOOP = INFS_STATUS_LOOP_DETECTED"
| "infs_status_from_errno EOPNOTSUPP = INFS_STATUS_NOT_SUPPORTED"
| "infs_status_from_errno (E_OTHER n) = INFS_STATUS_ERROR"

definition infs_status_to_errno :: "infs_status \<Rightarrow> posix_errno" where
  "infs_status_to_errno st =
     (case st of
        INFS_STATUS_OK \<Rightarrow> E_NONE
      | INFS_STATUS_INVALID_ARGUMENT \<Rightarrow> EINVAL
      | INFS_STATUS_IO_ERROR \<Rightarrow> EIO
      | INFS_STATUS_CORRUPT \<Rightarrow> EIO
      | INFS_STATUS_READ_ONLY \<Rightarrow> EROFS
      | INFS_STATUS_NO_SPACE \<Rightarrow> ENOSPC
      | INFS_STATUS_NOT_FOUND \<Rightarrow> ENOENT
      | INFS_STATUS_ALREADY_EXISTS \<Rightarrow> EEXIST
      | INFS_STATUS_NOT_DIRECTORY \<Rightarrow> ENOTDIR
      | INFS_STATUS_IS_DIRECTORY \<Rightarrow> EISDIR
      | INFS_STATUS_NOT_EMPTY \<Rightarrow> ENOTEMPTY
      | INFS_STATUS_NAME_TOO_LONG \<Rightarrow> ENAMETOOLONG
      | INFS_STATUS_FILE_TOO_LARGE \<Rightarrow> EFBIG
      | INFS_STATUS_NO_MEMORY \<Rightarrow> ENOMEM
      | INFS_STATUS_INTERRUPTED \<Rightarrow> EINTR
      | INFS_STATUS_BUSY \<Rightarrow> EBUSY
      | INFS_STATUS_OVERFLOW \<Rightarrow> EOVERFLOW
      | INFS_STATUS_LOOP_DETECTED \<Rightarrow> ELOOP
      | INFS_STATUS_NOT_SUPPORTED \<Rightarrow> EOPNOTSUPP
      | _ \<Rightarrow> EIO)"

datatype file_kind = S_ISBLK | S_ISREG | S_OTHER

text \<open>System calls on an open file description \<open>'f\<close>; a failing call reports its errno.\<close>

record 'f posix_os =
  os_pread_full :: "'f \<Rightarrow> u64 \<Rightarrow> nat \<Rightarrow> (posix_errno + bytes) \<times> 'f"
  os_pwrite_full :: "'f \<Rightarrow> u64 \<Rightarrow> bytes \<Rightarrow> posix_errno option \<times> 'f"
  os_fsync :: "'f \<Rightarrow> posix_errno option \<times> 'f"
  os_fstat :: "'f \<Rightarrow> posix_errno + (file_kind \<times> u64)"
  os_blkgetsize64 :: "'f \<Rightarrow> posix_errno + u64"
  os_clock_gettime :: "'f \<Rightarrow> posix_errno + (u64 \<times> u32)"
  os_close :: "'f \<Rightarrow> 'f"
  os_open :: "string \<Rightarrow> bool \<Rightarrow> posix_errno + 'f"
  os_flock :: "'f \<Rightarrow> bool \<Rightarrow> posix_errno option"

definition infs_get_size_bytes :: "'f posix_os \<Rightarrow> 'f \<Rightarrow> posix_errno + (u64 \<times> bool)" where
  "infs_get_size_bytes os fd =
     (case os_fstat os fd of
        Inl e \<Rightarrow> Inl e
      | Inr (kind, st_size) \<Rightarrow>
          if kind = S_ISBLK then
            (case os_blkgetsize64 os fd of Inl e \<Rightarrow> Inl e | Inr nbytes \<Rightarrow> Inr (nbytes, True))
          else if kind \<noteq> S_ISREG then Inl EINVAL
          else Inr (st_size, False))"

definition posix_read_at :: "'f posix_os \<Rightarrow> 'f \<Rightarrow> u64 \<Rightarrow> nat \<Rightarrow> bytes infs_result \<times> 'f" where
  "posix_read_at os fd offset sz =
     (case os_pread_full os fd offset sz of
        (Inl e, fd') \<Rightarrow> (Inl (infs_status_from_errno e), fd')
      | (Inr bs, fd') \<Rightarrow> (Inr bs, fd'))"

definition posix_write_at :: "'f posix_os \<Rightarrow> 'f \<Rightarrow> u64 \<Rightarrow> bytes \<Rightarrow> infs_status \<times> 'f" where
  "posix_write_at os fd offset buffer =
     (case os_pwrite_full os fd offset buffer of
        (Some e, fd') \<Rightarrow> (infs_status_from_errno e, fd')
      | (None, fd') \<Rightarrow> (INFS_STATUS_OK, fd'))"

definition posix_flush :: "'f posix_os \<Rightarrow> 'f \<Rightarrow> infs_status \<times> 'f" where
  "posix_flush os fd =
     (case os_fsync os fd of
        (Some e, fd') \<Rightarrow> (infs_status_from_errno e, fd')
      | (None, fd') \<Rightarrow> (INFS_STATUS_OK, fd'))"

definition posix_get_size :: "'f posix_os \<Rightarrow> 'f \<Rightarrow> (u64 \<times> bool) infs_result \<times> 'f" where
  "posix_get_size os fd =
     (case infs_get_size_bytes os fd of
        Inl e \<Rightarrow> (Inl (infs_status_from_errno e), fd)
      | Inr r \<Rightarrow> (Inr r, fd))"

definition infs_current_time :: "'f posix_os \<Rightarrow> 'f \<Rightarrow> posix_errno + infs_timestamp" where
  "infs_current_time os fd =
     (case os_clock_gettime os fd of
        Inl e \<Rightarrow> Inl e
      | Inr (s, ns) \<Rightarrow> Inr \<lparr> t_seconds = s, t_nanoseconds = ns \<rparr>)"

definition posix_time :: "'f posix_os \<Rightarrow> 'f \<Rightarrow> infs_timestamp infs_result \<times> 'f" where
  "posix_time os fd =
     (case infs_current_time os fd of
        Inl e \<Rightarrow> (Inl (infs_status_from_errno e), fd)
      | Inr t \<Rightarrow> (Inr t, fd))"

definition posix_close :: "'f posix_os \<Rightarrow> 'f \<Rightarrow> 'f" where
  "posix_close os fd = os_close os fd"

definition posix_storage_ops ::
    "'f posix_os \<Rightarrow> ('f \<Rightarrow> nat \<Rightarrow> bytes infs_result \<times> 'f) \<Rightarrow> 'f infs_storage_ops" where
  "posix_storage_ops os rnd =
     \<lparr> op_read_at = Some (posix_read_at os), op_write_at = Some (posix_write_at os),
       op_read_at_policy = None, op_write_at_policy = None,
       op_flush = Some (posix_flush os), op_get_size = Some (posix_get_size os),
       op_random_bytes = Some rnd, op_current_time = Some (posix_time os),
       op_close = Some (posix_close os) \<rparr>"

text \<open>A handle that already has callbacks or a context is not overwritten; \<open>fd = None\<close> is a
  negative descriptor.\<close>

definition infs_posix_storage_adopt_fd ::
    "'f posix_os \<Rightarrow> ('f \<Rightarrow> nat \<Rightarrow> bytes infs_result \<times> 'f) \<Rightarrow> bool \<Rightarrow> 'f infs_storage \<Rightarrow> 'f option \<Rightarrow>
     'f infs_storage infs_result" where
  "infs_posix_storage_adopt_fd os rnd malloc_ok storage fd =
     (case fd of
        None \<Rightarrow> Inl INFS_STATUS_INVALID_ARGUMENT
      | Some f \<Rightarrow>
          if st_ops storage \<noteq> None \<or> st_context storage \<noteq> None then Inl INFS_STATUS_INVALID_ARGUMENT
          else case infs_get_size_bytes os f of
            Inl e \<Rightarrow> Inl (infs_status_from_errno e)
          | Inr _ \<Rightarrow>
              if \<not> malloc_ok then Inl INFS_STATUS_NO_MEMORY
              else Inr \<lparr> st_ops = Some (posix_storage_ops os rnd), st_context = Some f \<rparr>)"

definition infs_posix_storage_open ::
    "'f posix_os \<Rightarrow> ('f \<Rightarrow> nat \<Rightarrow> bytes infs_result \<times> 'f) \<Rightarrow> bool \<Rightarrow> 'f infs_storage \<Rightarrow> string option \<Rightarrow>
     bool \<Rightarrow> 'f infs_storage infs_result" where
  "infs_posix_storage_open os rnd malloc_ok storage path writable =
     (case path of
        None \<Rightarrow> Inl INFS_STATUS_INVALID_ARGUMENT
      | Some p \<Rightarrow>
          if st_ops storage \<noteq> None \<or> st_context storage \<noteq> None then Inl INFS_STATUS_INVALID_ARGUMENT
          else if \<not> malloc_ok then Inl INFS_STATUS_NO_MEMORY
          else case os_open os p writable of
            Inl e \<Rightarrow> Inl (infs_status_from_errno e)
          | Inr f \<Rightarrow>
              (case os_flock os f writable of
                 Some e \<Rightarrow> Inl (infs_status_from_errno e)
               | None \<Rightarrow> Inr \<lparr> st_ops = Some (posix_storage_ops os rnd), st_context = Some f \<rparr>))"

section \<open>An in-memory device\<close>

text \<open>A block device of fixed length with a switch that makes every transfer fail.\<close>

record ram_device =
  dev_bytes :: bytes
  dev_broken :: bool

definition ram_pread :: "ram_device \<Rightarrow> u64 \<Rightarrow> nat \<Rightarrow> (posix_errno + bytes) \<times> ram_device" where
  "ram_pread d offset n =
     (if dev_broken d \<or> length (dev_bytes d) < unat offset + n then (Inl EIO, d)
      else (Inr (get_bytes (unat offset) n (dev_bytes d)), d))"

definition ram_pwrite :: "ram_device \<Rightarrow> u64 \<Rightarrow> bytes \<Rightarrow> posix_errno option \<times> ram_device" where
  "ram_pwrite d offset buf =
     (if dev_broken d then (Some EIO, d)
      else if length (dev_bytes d) < unat offset + length buf then (Some ENOSPC, d)
      else (None, d \<lparr> dev_bytes := put_bytes (unat offset) buf (dev_bytes d) \<rparr>))"

definition ram_os :: "ram_device posix_os" where
  "ram_os = \<lparr> os_pread_full = ram_pread, os_pwrite_full = ram_pwrite,
     os_fsync = (\<lambda>d. (if dev_broken d then Some EIO else None, d)),
     os_fstat = (\<lambda>d. Inr (S_ISBLK, 0)),
     os_blkgetsize64 = (\<lambda>d. Inr (word_of_nat (length (dev_bytes d)))),
     os_clock_gettime = (\<lambda>d. Inr (0, 0)), os_close = (\<lambda>d. d),
     os_open = (\<lambda>p w. Inl ENOENT), os_flock = (\<lambda>d w. None) \<rparr>"

definition ram_random :: "ram_device \<Rightarrow> nat \<Rightarrow> bytes infs_result \<times> ram_device" where
  "ram_random d n = (Inr (zeros n), d)"

definition ram_good :: "ram_device \<Rightarrow> bool" where
  "ram_good d \<longleftrightarrow> length (dev_bytes d) < 2 ^ 64"

definition ram_contents :: "ram_device \<Rightarrow> u64 \<Rightarrow> byte" where
  "ram_contents d a = (if unat a < length (dev_bytes d) then dev_bytes d ! unat a else 0)"

section \<open>The host contract\<close>

text \<open>The documented behaviour of the host: a failing call sets a nonzero errno, a full read
  returns the range and leaves the contents alone, a full write replaces exactly the range.\<close>

locale posix_host =
  fixes os :: "'f posix_os"
    and fgood :: "'f \<Rightarrow> bool"
    and fcontents :: "'f \<Rightarrow> u64 \<Rightarrow> byte"
  assumes pread_keeps: "fgood f \<Longrightarrow> os_pread_full os f a n = (r, f') \<Longrightarrow> fgood f' \<and> fcontents f' = fcontents f"
    and pread_range: "fgood f \<Longrightarrow> os_pread_full os f a n = (Inr bs, f') \<Longrightarrow> bs = range_bytes (fcontents f) a n"
    and pwrite_range: "fgood f \<Longrightarrow> os_pwrite_full os f a bs = (None, f') \<Longrightarrow>
      fgood f' \<and> fcontents f' = range_update (fcontents f) a bs"
    and pwrite_errno: "os_pwrite_full os f a bs \<noteq> (Some E_NONE, f')"

lemma status_from_errno_ok [simp]: "infs_status_from_errno e = INFS_STATUS_OK \<longleftrightarrow> e = E_NONE"
  by (cases e) simp_all

sublocale posix_host \<subseteq> posix: backend "posix_read_at os" "posix_write_at os" fgood fcontents
  "posix_storage_ops os rnd"
proof
  fix s a n r s' assume "fgood s" "posix_read_at os s a n = (r, s')"
  then show "fgood s' \<and> fcontents s' = fcontents s"
    using pread_keeps by (auto simp: posix_read_at_def split: prod.splits sum.splits)
next
  fix s a n bs s' assume "fgood s" "posix_read_at os s a n = (Inr bs, s')"
  then show "bs = range_bytes (fcontents s) a n"
    using pread_range by (auto simp: posix_read_at_def split: prod.splits sum.splits)
next
  fix s a bs s' assume "fgood s" "posix_write_at os s a bs = (INFS_STATUS_OK, s')"
  then show "fgood s' \<and> fcontents s' = range_update (fcontents s) a bs"
    using pwrite_range pwrite_errno by (auto simp: posix_write_at_def split: prod.splits option.splits)
qed (simp_all add: posix_storage_ops_def)

lemma ram_contents_put:
  assumes "unat a + length bs \<le> length (dev_bytes d)" "ram_good d"
  shows "ram_contents (d \<lparr> dev_bytes := put_bytes (unat a) bs (dev_bytes d) \<rparr>) =
    range_update (ram_contents d) a bs"
proof
  fix x
  have len: "length bs \<le> 2 ^ 64" using assms by (simp add: ram_good_def)
  have inside: "unat (x - a) < length bs \<longleftrightarrow> unat a \<le> unat x \<and> unat x < unat a + length bs"
  proof (cases "a \<le> x")
    case True
    then show ?thesis by (auto simp: unat_sub word_le_nat_alt)
  next
    case False
    then have "x < a" by simp
    then have "unat (x - a) = unat x + 2 ^ 64 - unat a"
      by (simp add: unat_sub_if_size word_size word_less_nat_alt)
    then show ?thesis using False assms by (auto simp: ram_good_def word_le_nat_alt)
  qed
  have diff: "unat (x - a) = unat x - unat a" if "unat a \<le> unat x"
    using that by (simp add: unat_sub word_le_nat_alt)
  show "ram_contents (d \<lparr> dev_bytes := put_bytes (unat a) bs (dev_bytes d) \<rparr>) x =
      range_update (ram_contents d) a bs x"
    using assms(1) inside diff by (auto simp: range_update_apply [OF len] ram_contents_def nth_put)
qed

interpretation ram: posix_host ram_os ram_good ram_contents
proof
  fix f a n r f' assume "ram_good f" "os_pread_full ram_os f a n = (r, f')"
  then show "ram_good f' \<and> ram_contents f' = ram_contents f"
    by (auto simp: ram_os_def ram_pread_def split: if_splits)
next
  fix f a n bs f' assume g: "ram_good f" and r: "os_pread_full ram_os f a n = (Inr bs, f')"
  then have le: "unat a + n \<le> length (dev_bytes f)" and bs: "bs = get_bytes (unat a) n (dev_bytes f)"
    by (auto simp: ram_os_def ram_pread_def split: if_splits)
  show "bs = range_bytes (ram_contents f) a n"
  proof (rule nth_equalityI)
    fix i assume "i < length bs"
    then have i: "i < n" using bs le by simp
    then have "unat (a + word_of_nat i) = unat a + i"
      using le g by (subst unat_add_lem [THEN iffD1]) (simp_all add: ram_good_def unat_of_nat_small)
    then show "bs ! i = range_bytes (ram_contents f) a n ! i"
      using i le bs by (simp add: range_bytes_def ram_contents_def nth_get)
  qed (use bs le in simp)
next
  fix f a bs f' assume g: "ram_good f" and w: "os_pwrite_full ram_os f a bs = (None, f')"
  then have "unat a + length bs \<le> length (dev_bytes f)"
    "f' = f \<lparr> dev_bytes := put_bytes (unat a) bs (dev_bytes f) \<rparr>"
    by (auto simp: ram_os_def ram_pwrite_def split: if_splits)
  then show "ram_good f' \<and> ram_contents f' = range_update (ram_contents f) a bs"
    using g ram_contents_put by (simp add: ram_good_def)
qed (auto simp: ram_os_def ram_pwrite_def)

interpretation ram_backend: backend "posix_read_at ram_os" "posix_write_at ram_os" ram_good ram_contents
  "posix_storage_ops ram_os ram_random"
  by (rule ram.posix.backend_axioms)

section \<open>Properties\<close>

text \<open>C22: Every status survives the translation to an errno and back, except that corruption and
  the unspecified error come back as device I/O errors; and every errno the translation knows comes
  back unchanged except EAGAIN, which is reported as EBUSY, and unknown ones, which become EIO.\<close>

theorem status_errno_roundtrip:
  "infs_status_from_errno (infs_status_to_errno st) =
     (if st = INFS_STATUS_CORRUPT \<or> st = INFS_STATUS_ERROR then INFS_STATUS_IO_ERROR else st) \<and>
   infs_status_to_errno (infs_status_from_errno e) =
     (if e = EAGAIN then EBUSY else case e of E_OTHER n \<Rightarrow> EIO | _ \<Rightarrow> e)"
  by (cases st; cases e) (simp_all add: infs_status_to_errno_def)

end
