(* ===== verification/Mirror.thy ===== *)
theory Mirror
  imports Posix_Io
begin

unbundle bit_operations_syntax

text \<open>
  The synchronous replicated backend of \<open>src/storage_mirror.c\<close>. The mirror context holds its
  member handles and their health marks; each operation is one transition of that context,
  which is what the blocking operation lock of the sources provides. The bounded comparison
  buffer and its allocation (which may fail) are modelled. The lemmas show which members an
  operation touches, that success is never reported for a degraded operation, that only
  device I/O errors quarantine a member, and that a mirror of stores that honour the backend
  contract honours it again.
\<close>

record 'd mirror_context =
  mc_members :: "'d infs_storage list"
  mc_healthy :: "bool list"
  mc_size_bytes :: u64
  mc_is_device :: bool

abbreviation mc_count :: "'d mirror_context \<Rightarrow> nat" where
  "mc_count ctx \<equiv> length (mc_members ctx)"

definition mirror_policy_copies :: "'d mirror_context \<Rightarrow> infs_storage_io_policy option \<Rightarrow> nat" where
  "mirror_policy_copies ctx policy =
     (let copies = (case policy of None \<Rightarrow> 0 | Some p \<Rightarrow> unat (pol_protection_copies p))
      in if copies = 0 then mc_count ctx else copies)"

fun fnv_hash :: "u64 \<Rightarrow> bytes \<Rightarrow> u64" where
  "fnv_hash hash [] = hash"
| "fnv_hash hash (b # bs) = fnv_hash ((hash XOR ucast b) * 1099511628211) bs"

definition mirror_policy_start :: "'d mirror_context \<Rightarrow> infs_storage_io_policy option \<Rightarrow> nat" where
  "mirror_policy_start ctx policy =
     (case policy of
        None \<Rightarrow> 0
      | Some p \<Rightarrow> if mc_count ctx = 0 then 0
                  else unat (fnv_hash 1469598103934665603 (pol_object_id p)) mod mc_count ctx)"

definition mirror_policy_member :: "'d mirror_context \<Rightarrow> infs_storage_io_policy option \<Rightarrow> nat \<Rightarrow> bool" where
  "mirror_policy_member ctx policy member =
     (let copies = mirror_policy_copies ctx policy
      in if copies = mc_count ctx then True
         else
           let start = mirror_policy_start ctx policy;
               distance = (if member \<ge> start then member - start else mc_count ctx - start + member)
           in distance < copies)"

definition mirror_member_healthy :: "'d mirror_context \<Rightarrow> nat \<Rightarrow> bool" where
  "mirror_member_healthy ctx member = mc_healthy ctx ! member"

definition mirror_quarantine_member :: "'d mirror_context \<Rightarrow> nat \<Rightarrow> 'd mirror_context" where
  "mirror_quarantine_member ctx member = ctx \<lparr> mc_healthy := (mc_healthy ctx)[member := False] \<rparr>"

text \<open>The policy handed to the members: the same object and domain, no replica count.\<close>

definition child_policy :: "infs_storage_io_policy option \<Rightarrow> infs_storage_io_policy option" where
  "child_policy policy = map_option (\<lambda>p. p \<lparr> pol_protection_copies := 0 \<rparr>) policy"

definition set_member :: "'d mirror_context \<Rightarrow> nat \<Rightarrow> 'd infs_storage \<Rightarrow> 'd mirror_context" where
  "set_member ctx i m = ctx \<lparr> mc_members := (mc_members ctx)[i := m] \<rparr>"

definition copies_exceed :: "'d mirror_context \<Rightarrow> infs_storage_io_policy option \<Rightarrow> bool" where
  "copies_exceed ctx policy =
     (case policy of None \<Rightarrow> False | Some p \<Rightarrow> unat (pol_protection_copies p) > mc_count ctx)"

section \<open>Reading\<close>

text \<open>Comparing one further replica with the bytes already read, chunk by chunk: \<open>None\<close> when
  it agrees or stops with an I/O error, \<open>Some\<close> the status that ends the read.\<close>

function mirror_verify_loop ::
    "nat \<Rightarrow> u64 \<Rightarrow> bytes \<Rightarrow> infs_storage_io_policy option \<Rightarrow> nat \<Rightarrow> 'd infs_storage \<Rightarrow>
     infs_status option \<times> 'd infs_storage" where
  "mirror_verify_loop capacity offset buffer child checked m =
     (if \<not> (checked < length buffer \<and> 0 < capacity) then (None, m)
      else
        let chunk = min (length buffer - checked) capacity
        in case infs_storage_read_policy m (offset + word_of_nat checked) chunk child of
             (Inl status, m') \<Rightarrow>
               (if status \<noteq> INFS_STATUS_IO_ERROR then Some status else None, m')
           | (Inr verify, m') \<Rightarrow>
               if get_bytes checked chunk buffer \<noteq> verify then (Some INFS_STATUS_CORRUPT, m')
               else mirror_verify_loop capacity offset buffer child (checked + chunk) m')"
  by pat_completeness auto
termination
  by (relation "measure (\<lambda>(capacity, offset, buffer, child, checked, m). length buffer - checked)") auto

declare mirror_verify_loop.simps [simp del]

fun mirror_read_loop ::
    "bool \<Rightarrow> u64 \<Rightarrow> nat \<Rightarrow> infs_storage_io_policy option \<Rightarrow> nat list \<Rightarrow> bytes option \<Rightarrow> 'd mirror_context \<Rightarrow>
     bytes infs_result \<times> 'd mirror_context" where
  "mirror_read_loop malloc_ok offset sz policy [] copy ctx =
     ((case copy of Some buffer \<Rightarrow> Inr buffer | None \<Rightarrow> Inl INFS_STATUS_IO_ERROR), ctx)"
| "mirror_read_loop malloc_ok offset sz policy (i # is) copy ctx =
     (if \<not> mirror_policy_member ctx policy i \<or> \<not> mirror_member_healthy ctx i
      then mirror_read_loop malloc_ok offset sz policy is copy ctx
      else case copy of
        None \<Rightarrow>
          (case infs_storage_read_policy (mc_members ctx ! i) offset sz (child_policy policy) of
             (Inl status, m) \<Rightarrow>
               if status \<noteq> INFS_STATUS_IO_ERROR then (Inl status, set_member ctx i m)
               else mirror_read_loop malloc_ok offset sz policy is None (set_member ctx i m)
           | (Inr buffer, m) \<Rightarrow>
               mirror_read_loop malloc_ok offset sz policy is (Some buffer) (set_member ctx i m))
      | Some buffer \<Rightarrow>
          if sz \<noteq> 0 \<and> \<not> malloc_ok then (Inl INFS_STATUS_NO_MEMORY, ctx)
          else
            case mirror_verify_loop (min sz 65536) offset buffer (child_policy policy) 0 (mc_members ctx ! i) of
              (Some status, m) \<Rightarrow> (Inl status, set_member ctx i m)
            | (None, m) \<Rightarrow>
                mirror_read_loop malloc_ok offset sz policy is (Some buffer) (set_member ctx i m))"

definition mirror_read_policy ::
    "bool \<Rightarrow> 'd mirror_context \<Rightarrow> u64 \<Rightarrow> nat \<Rightarrow> infs_storage_io_policy option \<Rightarrow>
     bytes infs_result \<times> 'd mirror_context" where
  "mirror_read_policy malloc_ok ctx offset sz policy =
     (if copies_exceed ctx policy then (Inl INFS_STATUS_NOT_SUPPORTED, ctx)
      else mirror_read_loop malloc_ok offset sz policy [0..<mc_count ctx] None ctx)"

definition mirror_read :: "bool \<Rightarrow> 'd mirror_context \<Rightarrow> u64 \<Rightarrow> nat \<Rightarrow> bytes infs_result \<times> 'd mirror_context" where
  "mirror_read malloc_ok ctx offset sz = mirror_read_policy malloc_ok ctx offset sz None"

section \<open>Writing and flushing\<close>

text \<open>The loop shared by write and flush: \<open>attempted\<close>, \<open>degraded\<close> and the first failure.\<close>

fun mirror_apply_loop ::
    "(nat \<Rightarrow> bool) \<Rightarrow> ('d infs_storage \<Rightarrow> infs_status \<times> 'd infs_storage) \<Rightarrow> nat list \<Rightarrow>
     bool \<Rightarrow> bool \<Rightarrow> infs_status \<Rightarrow> 'd mirror_context \<Rightarrow> infs_status \<times> 'd mirror_context" where
  "mirror_apply_loop selected f [] attempted degraded result ctx =
     ((if \<not> attempted then INFS_STATUS_IO_ERROR
       else if result \<noteq> INFS_STATUS_OK then result
       else if degraded then INFS_STATUS_IO_ERROR else INFS_STATUS_OK), ctx)"
| "mirror_apply_loop selected f (i # is) attempted degraded result ctx =
     (if \<not> selected i then mirror_apply_loop selected f is attempted degraded result ctx
      else if \<not> mirror_member_healthy ctx i
      then mirror_apply_loop selected f is attempted True result ctx
      else
        let (status, m) = f (mc_members ctx ! i);
            ctx = set_member ctx i m
        in if status \<noteq> INFS_STATUS_OK then
             let ctx = (if status = INFS_STATUS_IO_ERROR then mirror_quarantine_member ctx i else ctx);
                 result = (if result = INFS_STATUS_OK then status else result)
             in mirror_apply_loop selected f is True True result ctx
           else mirror_apply_loop selected f is True degraded result ctx)"

definition mirror_write_policy ::
    "'d mirror_context \<Rightarrow> u64 \<Rightarrow> bytes \<Rightarrow> infs_storage_io_policy option \<Rightarrow> infs_status \<times> 'd mirror_context" where
  "mirror_write_policy ctx offset buffer policy =
     (if copies_exceed ctx policy then (INFS_STATUS_NOT_SUPPORTED, ctx)
      else mirror_apply_loop (mirror_policy_member ctx policy)
             (\<lambda>m. infs_storage_write_policy m offset buffer (child_policy policy))
             [0..<mc_count ctx] False False INFS_STATUS_OK ctx)"

definition mirror_write :: "'d mirror_context \<Rightarrow> u64 \<Rightarrow> bytes \<Rightarrow> infs_status \<times> 'd mirror_context" where
  "mirror_write ctx offset buffer = mirror_write_policy ctx offset buffer None"

definition mirror_flush :: "'d mirror_context \<Rightarrow> infs_status \<times> 'd mirror_context" where
  "mirror_flush ctx =
     mirror_apply_loop (\<lambda>_. True) infs_storage_flush [0..<mc_count ctx] False False INFS_STATUS_OK ctx"

definition mirror_size :: "'d mirror_context \<Rightarrow> (u64 \<times> bool) infs_result \<times> 'd mirror_context" where
  "mirror_size ctx = (Inr (mc_size_bytes ctx, mc_is_device ctx), ctx)"

section \<open>Ancillary services\<close>

fun mirror_service_loop ::
    "('d infs_storage_ops \<Rightarrow> bool) \<Rightarrow> ('d infs_storage \<Rightarrow> 'r infs_result \<times> 'd infs_storage) \<Rightarrow> nat list \<Rightarrow>
     infs_status \<Rightarrow> 'd mirror_context \<Rightarrow> 'r infs_result \<times> 'd mirror_context" where
  "mirror_service_loop has f [] failure ctx = (Inl failure, ctx)"
| "mirror_service_loop has f (i # is) failure ctx =
     (if \<not> (case st_ops (mc_members ctx ! i) of None \<Rightarrow> False | Some ops \<Rightarrow> has ops)
      then mirror_service_loop has f is failure ctx
      else case f (mc_members ctx ! i) of
        (Inr r, m) \<Rightarrow> (Inr r, set_member ctx i m)
      | (Inl status, m) \<Rightarrow>
          if status = INFS_STATUS_IO_ERROR
          then mirror_service_loop has f is status (set_member ctx i m)
          else if status \<noteq> INFS_STATUS_NOT_SUPPORTED then (Inl status, set_member ctx i m)
          else mirror_service_loop has f is failure (set_member ctx i m))"

definition mirror_random :: "'d mirror_context \<Rightarrow> nat \<Rightarrow> bytes infs_result \<times> 'd mirror_context" where
  "mirror_random ctx sz =
     mirror_service_loop (\<lambda>ops. op_random_bytes ops \<noteq> None) (\<lambda>m. infs_storage_random m sz)
       [0..<mc_count ctx] INFS_STATUS_NOT_SUPPORTED ctx"

definition mirror_time :: "'d mirror_context \<Rightarrow> infs_timestamp infs_result \<times> 'd mirror_context" where
  "mirror_time ctx =
     mirror_service_loop (\<lambda>ops. op_current_time ops \<noteq> None) infs_storage_current_time
       [0..<mc_count ctx] INFS_STATUS_NOT_SUPPORTED ctx"

definition mirror_close :: "'d mirror_context \<Rightarrow> 'd mirror_context" where
  "mirror_close ctx = ctx \<lparr> mc_members := map (snd \<circ> infs_storage_close) (mc_members ctx) \<rparr>"

section \<open>Construction\<close>

definition mirror_ops :: "bool \<Rightarrow> 'd mirror_context infs_storage_ops" where
  "mirror_ops malloc_ok = \<lparr> op_read_at = Some (mirror_read malloc_ok), op_write_at = Some mirror_write,
     op_read_at_policy = Some (mirror_read_policy malloc_ok), op_write_at_policy = Some mirror_write_policy,
     op_flush = Some mirror_flush, op_get_size = Some mirror_size,
     op_random_bytes = Some mirror_random, op_current_time = Some mirror_time,
     op_close = Some mirror_close \<rparr>"

fun mirror_sizes ::
    "'d infs_storage list \<Rightarrow> u64 \<Rightarrow> bool \<Rightarrow> (u64 \<times> bool \<times> 'd infs_storage list) infs_result" where
  "mirror_sizes [] minimum all_devices = Inr (minimum, all_devices, [])"
| "mirror_sizes (m # ms) minimum all_devices =
     (if \<not> infs_storage_valid m then Inl INFS_STATUS_INVALID_ARGUMENT
      else case infs_storage_get_size m of
        (Inl status, m') \<Rightarrow> Inl status
      | (Inr (nbytes, device), m') \<Rightarrow>
          if nbytes = 0 then Inl INFS_STATUS_INVALID_ARGUMENT
          else
            (case mirror_sizes ms (if nbytes < minimum then nbytes else minimum) (all_devices \<and> device) of
               Inl status \<Rightarrow> Inl status
             | Inr (mn, dev, ms') \<Rightarrow> Inr (mn, dev, m' # ms')))"

text \<open>\<open>same\<close> tells whether two members share one backend context, \<open>aliased\<close> whether the
  destination handle is one of the members; \<open>alloc_ctx\<close>, \<open>lock_ok\<close> and \<open>alloc_arrays\<close> are the
  outcomes of the context allocation, the lock initialization and the array allocations.\<close>

definition infs_storage_mirror_create ::
    "(nat \<Rightarrow> nat \<Rightarrow> bool) \<Rightarrow> bool \<Rightarrow> bool \<Rightarrow> bool \<Rightarrow> bool \<Rightarrow> bool \<Rightarrow> 'd infs_storage list \<Rightarrow>
     'd mirror_context infs_storage infs_result" where
  "infs_storage_mirror_create same aliased alloc_ctx lock_ok alloc_arrays malloc_ok members =
     (if length members < 2 then Inl INFS_STATUS_INVALID_ARGUMENT
      else if \<not> list_all (\<lambda>i. \<not> aliased \<and> infs_storage_valid (members ! i) \<and>
                list_all (\<lambda>j. \<not> same i j) [0..<i]) [0..<length members]
      then Inl INFS_STATUS_INVALID_ARGUMENT
      else if \<not> alloc_ctx then Inl INFS_STATUS_NO_MEMORY
      else if \<not> lock_ok then Inl INFS_STATUS_ERROR
      else if \<not> alloc_arrays then Inl INFS_STATUS_NO_MEMORY
      else case mirror_sizes members (- 1) True of
        Inl status \<Rightarrow> Inl status
      | Inr (minimum, all_devices, members') \<Rightarrow>
          Inr \<lparr> st_ops = Some (mirror_ops malloc_ok),
                st_context = Some \<lparr> mc_members = members', mc_healthy = replicate (length members) True,
                                    mc_size_bytes = minimum, mc_is_device = all_devices \<rparr> \<rparr>)"


section \<open>Reference definitions and examples\<close>

definition mirror_wf :: "'d mirror_context \<Rightarrow> bool" where
  "mirror_wf ctx \<longleftrightarrow> length (mc_healthy ctx) = mc_count ctx"

text \<open>What the loop does to member \<open>i\<close>.\<close>

definition touched :: "(nat \<Rightarrow> bool) \<Rightarrow> nat list \<Rightarrow> 'd mirror_context \<Rightarrow> nat \<Rightarrow> bool" where
  "touched selected is ctx i \<longleftrightarrow> i \<in> set is \<and> selected i \<and> mirror_member_healthy ctx i"

text \<open>The healthy members satisfy the contract and agree, and one of them exists.\<close>

definition mirror_inv ::
    "('d infs_storage \<Rightarrow> bool) \<Rightarrow> ('d infs_storage \<Rightarrow> u64 \<Rightarrow> byte) \<Rightarrow> 'd mirror_context \<Rightarrow> bool" where
  "mirror_inv mgood mcontents ctx \<longleftrightarrow> mirror_wf ctx \<and>
     (\<exists>i<mc_count ctx. mirror_member_healthy ctx i) \<and>
     (\<exists>C. \<forall>i<mc_count ctx. mirror_member_healthy ctx i \<longrightarrow>
        mgood (mc_members ctx ! i) \<and> mcontents (mc_members ctx ! i) = C)"

definition first_healthy :: "'d mirror_context \<Rightarrow> nat" where
  "first_healthy ctx = length (takeWhile Not (mc_healthy ctx))"

definition mirror_contents ::
    "('d infs_storage \<Rightarrow> u64 \<Rightarrow> byte) \<Rightarrow> 'd mirror_context \<Rightarrow> u64 \<Rightarrow> byte" where
  "mirror_contents mcontents ctx = mcontents (mc_members ctx ! first_healthy ctx)"

definition mirror_outcome ::
    "'d mirror_context \<Rightarrow> (nat \<Rightarrow> bool) \<Rightarrow> ('d infs_storage \<Rightarrow> infs_status \<times> 'd infs_storage) \<Rightarrow>
     infs_status \<times> 'd mirror_context \<Rightarrow> bool" where
  "mirror_outcome ctx sel f r \<longleftrightarrow>
     (case r of (st, ctx') \<Rightarrow>
       (st = INFS_STATUS_OK \<longleftrightarrow> (\<exists>i<mc_count ctx. sel i) \<and>
          (\<forall>i<mc_count ctx. sel i \<longrightarrow>
             mirror_member_healthy ctx i \<and> fst (f (mc_members ctx ! i)) = INFS_STATUS_OK)) \<and>
       (\<forall>i<mc_count ctx.
          mirror_member_healthy ctx' i = (mirror_member_healthy ctx i \<and>
            \<not> (sel i \<and> fst (f (mc_members ctx ! i)) = INFS_STATUS_IO_ERROR)) \<and>
          mc_members ctx' ! i = (if sel i \<and> mirror_member_healthy ctx i
            then snd (f (mc_members ctx ! i)) else mc_members ctx ! i)))"

text \<open>The first healthy member whose read does not fail with a device I/O error.\<close>

definition first_answer :: "'d mirror_context \<Rightarrow> u64 \<Rightarrow> nat \<Rightarrow> nat \<Rightarrow> bool" where
  "first_answer ctx a n i \<longleftrightarrow>
     i < mc_count ctx \<and> mirror_member_healthy ctx i \<and>
     fst (infs_storage_read_policy (mc_members ctx ! i) a n None) \<noteq> Inl INFS_STATUS_IO_ERROR \<and>
     (\<forall>j<i. mirror_member_healthy ctx j \<longrightarrow>
        fst (infs_storage_read_policy (mc_members ctx ! j) a n None) = Inl INFS_STATUS_IO_ERROR)"

definition ram_mirror :: "ram_device list \<Rightarrow> bool list \<Rightarrow> ram_device mirror_context" where
  "ram_mirror ds healthy =
     \<lparr> mc_members = map (\<lambda>d. \<lparr> st_ops = Some (posix_storage_ops ram_os ram_random), st_context = Some d \<rparr>) ds,
       mc_healthy = healthy, mc_size_bytes = 4096, mc_is_device = True \<rparr>"

abbreviation (input) ram_handle_inv :: "ram_device infs_storage \<Rightarrow> bool" where
  "ram_handle_inv \<equiv> handle_inv (posix_storage_ops ram_os ram_random) ram_good"

section \<open>Which members an operation touches\<close>

lemma mirror_distance_card:
  assumes "start < n" "copies \<le> n"
  shows "card {i. i < n \<and> (if start \<le> i then i - start else n - start + i) < copies} = copies"
proof -
  let ?d = "\<lambda>i. if start \<le> i then i - start else n - start + i"
  let ?e = "\<lambda>k. if k + start < n then k + start else k + start - n"
  have "bij_betw ?d {i. i < n \<and> ?d i < copies} {..<copies}"
  proof (rule bij_betw_byWitness [where f' = ?e])
    show "\<forall>a\<in>{i. i < n \<and> ?d i < copies}. ?e (?d a) = a" using assms by auto
    show "\<forall>a'\<in>{..<copies}. ?d (?e a') = a'" using assms by auto
    show "?d ` {i. i < n \<and> ?d i < copies} \<subseteq> {..<copies}" by auto
    show "?e ` {..<copies} \<subseteq> {i. i < n \<and> ?d i < copies}" using assms by auto
  qed
  then show ?thesis using bij_betw_same_card by fastforce
qed

lemma mirror_member_count:
  assumes "0 < mc_count ctx" "\<not> copies_exceed ctx policy"
  shows "card {i. i < mc_count ctx \<and> mirror_policy_member ctx policy i} = mirror_policy_copies ctx policy"
proof (cases "mirror_policy_copies ctx policy = mc_count ctx")
  case True
  then show ?thesis by (simp add: mirror_policy_member_def)
next
  case False
  have "mirror_policy_start ctx policy < mc_count ctx"
    using assms(1) by (simp add: mirror_policy_start_def split: option.splits)
  moreover have "mirror_policy_copies ctx policy \<le> mc_count ctx"
    using assms(2) by (auto simp: mirror_policy_copies_def copies_exceed_def Let_def split: option.splits)
  ultimately show ?thesis
    using mirror_distance_card False by (simp add: mirror_policy_member_def Let_def)
qed

section \<open>The write and flush loop\<close>

lemma mirror_apply_loop_effect:
  assumes "mirror_wf ctx" "distinct is" "set is \<subseteq> {..<mc_count ctx}"
    "mirror_apply_loop selected f is att deg res ctx = (st, ctx')"
  shows "mirror_wf ctx' \<and> mc_count ctx' = mc_count ctx \<and>
    (\<forall>i<mc_count ctx.
       mc_members ctx' ! i = (if touched selected is ctx i then snd (f (mc_members ctx ! i)) else mc_members ctx ! i) \<and>
       mirror_member_healthy ctx' i =
         (mirror_member_healthy ctx i \<and>
          \<not> (touched selected is ctx i \<and> fst (f (mc_members ctx ! i)) = INFS_STATUS_IO_ERROR))) \<and>
    (st = INFS_STATUS_OK \<longleftrightarrow>
       res = INFS_STATUS_OK \<and> \<not> deg \<and> (att \<or> (\<exists>i\<in>set is. selected i)) \<and>
       (\<forall>i\<in>set is. selected i \<longrightarrow>
          mirror_member_healthy ctx i \<and> fst (f (mc_members ctx ! i)) = INFS_STATUS_OK))"
  using assms
proof (induction "is" arbitrary: att deg res ctx)
  case Nil
  then show ?case by (auto simp: touched_def split: if_splits)
next
  case (Cons j "is")
  have j: "j < mc_count ctx" "j \<notin> set is" using Cons.prems by auto
  let ?m = "f (mc_members ctx ! j)"
  show ?case
  proof (cases "selected j \<and> mirror_member_healthy ctx j")
    case False
    obtain deg' where loop: "mirror_apply_loop selected f is att deg' res ctx = (st, ctx')"
      "deg' = (deg \<or> selected j)"
      using Cons.prems(4) False by (auto split: if_splits)
    have t: "touched selected (j # is) ctx i = touched selected is ctx i" for i
      using False by (auto simp: touched_def)
    show ?thesis
      using Cons.IH [OF Cons.prems(1) _ _ loop(1)] Cons.prems(2,3) False loop(2) t by auto
  next
    case True
    define ctx1 where "ctx1 = (if fst ?m = INFS_STATUS_IO_ERROR
        then mirror_quarantine_member (set_member ctx j (snd ?m)) j else set_member ctx j (snd ?m))"
    obtain deg' res' where loop: "mirror_apply_loop selected f is True deg' res' ctx1 = (st, ctx')"
      "deg' = (deg \<or> fst ?m \<noteq> INFS_STATUS_OK)"
      "res' = INFS_STATUS_OK \<longleftrightarrow> res = INFS_STATUS_OK \<and> fst ?m = INFS_STATUS_OK"
      using Cons.prems(4) True by (auto simp: ctx1_def Let_def split: prod.splits if_splits)
    have c1: "mirror_wf ctx1" "mc_count ctx1 = mc_count ctx"
      using Cons.prems(1) by (auto simp: ctx1_def mirror_wf_def set_member_def mirror_quarantine_member_def)
    have m1: "mc_members ctx1 ! i = (if i = j then snd ?m else mc_members ctx ! i)"
      "mirror_member_healthy ctx1 i = (mirror_member_healthy ctx i \<and> \<not> (i = j \<and> fst ?m = INFS_STATUS_IO_ERROR))"
      if "i < mc_count ctx" for i
      using that j Cons.prems(1)
      by (auto simp: ctx1_def mirror_wf_def set_member_def mirror_quarantine_member_def
          mirror_member_healthy_def nth_list_update)
    have sub: "set is \<subseteq> {..<mc_count ctx}" "distinct is" using Cons.prems by auto
    have t: "touched selected (j # is) ctx i = (i = j \<or> touched selected is ctx1 i)"
      if "i < mc_count ctx" for i
      using that True j(2) m1(2) [OF that] by (auto simp: touched_def)
    note IH = Cons.IH [OF c1(1) sub(2) _ loop(1), unfolded c1(2), OF sub(1)]
    have later: "mirror_member_healthy ctx1 i = mirror_member_healthy ctx i \<and>
        mc_members ctx1 ! i = mc_members ctx ! i" if "i \<in> set is" for i
      using that j(2) sub(1) m1 by auto
    have st: "st = INFS_STATUS_OK \<longleftrightarrow> res = INFS_STATUS_OK \<and> \<not> deg \<and>
       (att \<or> (\<exists>i\<in>set (j # is). selected i)) \<and> (\<forall>i\<in>set (j # is). selected i \<longrightarrow>
          mirror_member_healthy ctx i \<and> fst (f (mc_members ctx ! i)) = INFS_STATUS_OK)"
      using IH loop(2,3) later True by auto
    have mem: "mc_members ctx' ! i = (if touched selected (j # is) ctx i then snd (f (mc_members ctx ! i)) else mc_members ctx ! i) \<and>
       mirror_member_healthy ctx' i =
         (mirror_member_healthy ctx i \<and>
          \<not> (touched selected (j # is) ctx i \<and> fst (f (mc_members ctx ! i)) = INFS_STATUS_IO_ERROR))"
      if "i < mc_count ctx" for i
    proof -
      have "\<not> touched selected is ctx1 j" using j(2) by (simp add: touched_def)
      moreover have "i \<noteq> j \<Longrightarrow> touched selected is ctx1 i \<Longrightarrow> mc_members ctx1 ! i = mc_members ctx ! i"
        using m1 that by simp
      ultimately show ?thesis using IH m1 [OF that] t [OF that] that True by (cases "i = j") auto
    qed
    show ?thesis using IH st mem by blast
  qed
qed

lemma policy_member_None [simp]: "mirror_policy_member ctx None i"
  by (simp add: mirror_policy_member_def mirror_policy_copies_def)

lemma upt_subset: "set [0..<n] \<subseteq> {..<n}" by auto

lemma mirror_apply_all:
  assumes "mirror_wf ctx"
    "mirror_apply_loop selected f [0..<mc_count ctx] False False INFS_STATUS_OK ctx = (st, ctx')"
  shows "mirror_wf ctx'" "mc_count ctx' = mc_count ctx"
    and "i < mc_count ctx \<Longrightarrow> mc_members ctx' ! i =
      (if selected i \<and> mirror_member_healthy ctx i then snd (f (mc_members ctx ! i)) else mc_members ctx ! i)"
    and "i < mc_count ctx \<Longrightarrow> mirror_member_healthy ctx' i \<longleftrightarrow> mirror_member_healthy ctx i \<and>
      \<not> (selected i \<and> fst (f (mc_members ctx ! i)) = INFS_STATUS_IO_ERROR)"
    and "st = INFS_STATUS_OK \<longleftrightarrow> (\<exists>i<mc_count ctx. selected i) \<and> (\<forall>i<mc_count ctx. selected i \<longrightarrow>
      mirror_member_healthy ctx i \<and> fst (f (mc_members ctx ! i)) = INFS_STATUS_OK)"
proof -
  note eff = mirror_apply_loop_effect [OF assms(1) distinct_upt upt_subset assms(2)]
  have t: "touched selected [0..<mc_count ctx] ctx i = (selected i \<and> mirror_member_healthy ctx i)"
    if "i < mc_count ctx" for i using that by (simp add: touched_def)
  show "mirror_wf ctx'" "mc_count ctx' = mc_count ctx" using eff by blast+
  show "i < mc_count ctx \<Longrightarrow> mc_members ctx' ! i =
      (if selected i \<and> mirror_member_healthy ctx i then snd (f (mc_members ctx ! i)) else mc_members ctx ! i)"
    using eff t [of i] by simp
  show "i < mc_count ctx \<Longrightarrow> mirror_member_healthy ctx' i \<longleftrightarrow> mirror_member_healthy ctx i \<and>
      \<not> (selected i \<and> fst (f (mc_members ctx ! i)) = INFS_STATUS_IO_ERROR)"
    using eff t [of i] by blast
  have "set [0..<mc_count ctx] = {i. i < mc_count ctx}" by auto
  then show "st = INFS_STATUS_OK \<longleftrightarrow> (\<exists>i<mc_count ctx. selected i) \<and> (\<forall>i<mc_count ctx. selected i \<longrightarrow>
      mirror_member_healthy ctx i \<and> fst (f (mc_members ctx ! i)) = INFS_STATUS_OK)"
    using eff by simp
qed


section \<open>A mirror of stores is a store\<close>

lemma length_takeWhile_less: "\<exists>x\<in>set xs. \<not> P x \<Longrightarrow> length (takeWhile P xs) < length xs"
  by (induction xs) auto

lemma first_healthy:
  assumes "mirror_wf ctx" "i < mc_count ctx" "mirror_member_healthy ctx i"
  shows "first_healthy ctx < mc_count ctx \<and> mirror_member_healthy ctx (first_healthy ctx)"
proof -
  have "\<exists>x\<in>set (mc_healthy ctx). \<not> Not x"
    using assms nth_mem [of i "mc_healthy ctx"] by (auto simp: mirror_wf_def mirror_member_healthy_def)
  then have "first_healthy ctx < length (mc_healthy ctx)"
    unfolding first_healthy_def by (rule length_takeWhile_less)
  then show ?thesis
    using nth_length_takeWhile [of Not "mc_healthy ctx"] assms(1)
    by (simp add: mirror_wf_def mirror_member_healthy_def first_healthy_def)
qed

lemma mirror_inv_member:
  assumes "mirror_inv mgood mcontents ctx" "i < mc_count ctx" "mirror_member_healthy ctx i"
  shows "mgood (mc_members ctx ! i) \<and> mcontents (mc_members ctx ! i) = mirror_contents mcontents ctx"
proof -
  obtain C where C: "\<forall>i<mc_count ctx. mirror_member_healthy ctx i \<longrightarrow>
      mgood (mc_members ctx ! i) \<and> mcontents (mc_members ctx ! i) = C" and wf: "mirror_wf ctx"
    using assms(1) unfolding mirror_inv_def by blast
  show ?thesis
    unfolding mirror_contents_def using C first_healthy [OF wf assms(2,3)] assms(2,3) by simp
qed

lemma mirror_inv_change:
  assumes "mirror_inv mgood mcontents ctx" "mirror_wf ctx'" "mc_count ctx' = mc_count ctx"
    and "\<And>i. i < mc_count ctx \<Longrightarrow> mirror_member_healthy ctx' i \<Longrightarrow>
      mgood (mc_members ctx' ! i) \<and> mcontents (mc_members ctx' ! i) = C"
    and "i0 < mc_count ctx" "mirror_member_healthy ctx' i0"
  shows "mirror_inv mgood mcontents ctx' \<and> mirror_contents mcontents ctx' = C"
proof -
  have "mirror_inv mgood mcontents ctx'"
    unfolding mirror_inv_def using assms(2-6) by (intro conjI exI [of _ i0] exI [of _ C]) simp_all
  then show ?thesis using mirror_inv_member [of mgood mcontents ctx' i0] assms(3-6) by simp
qed

lemma set_member_inv:
  assumes "mirror_inv mgood mcontents ctx" "i < mc_count ctx" "mirror_member_healthy ctx i"
    "mgood m" "mcontents m = mcontents (mc_members ctx ! i)"
  shows "mirror_inv mgood mcontents (set_member ctx i m) \<and>
         mirror_contents mcontents (set_member ctx i m) = mirror_contents mcontents ctx"
proof (rule mirror_inv_change [OF assms(1), of _ _ i])
  fix k assume "k < mc_count ctx" "mirror_member_healthy (set_member ctx i m) k"
  then show "mgood (mc_members (set_member ctx i m) ! k) \<and>
      mcontents (mc_members (set_member ctx i m) ! k) = mirror_contents mcontents ctx"
    using assms(2-5) mirror_inv_member [OF assms(1), of k] mirror_inv_member [OF assms(1-3)]
    by (cases "k = i") (simp_all add: set_member_def mirror_member_healthy_def)
qed (use assms in \<open>simp_all add: set_member_def mirror_wf_def mirror_member_healthy_def mirror_inv_def\<close>)

locale mirror_of =
  member: byte_store "\<lambda>m a n. infs_storage_read_policy m a n None"
    "\<lambda>m a bs. infs_storage_write_policy m a bs None" mgood mcontents
  for mgood :: "'d infs_storage \<Rightarrow> bool" and mcontents :: "'d infs_storage \<Rightarrow> u64 \<Rightarrow> byte"
begin

lemma verify_loop_inv:
  "mgood m \<Longrightarrow> mirror_verify_loop capacity a buffer None checked m = (r, m') \<Longrightarrow>
   mgood m' \<and> mcontents m' = mcontents m"
proof (induction "length buffer - checked" arbitrary: checked m rule: less_induct)
  case less
  let ?chunk = "min (length buffer - checked) capacity"
  obtain q m1 where q: "infs_storage_read_policy m (a + word_of_nat checked) ?chunk None = (q, m1)"
    by fastforce
  note m1 = member.rd_inv [OF less.prems(1) q]
  note step = less.prems(2) [unfolded mirror_verify_loop.simps [of capacity a buffer None checked m] q Let_def]
  consider "r \<noteq> None \<and> m' = m1" | "m' = m1 \<or> m' = m"
    | "checked < length buffer" "0 < capacity"
      "mirror_verify_loop capacity a buffer None (checked + ?chunk) m1 = (r, m')"
    using step by (cases q) (auto split: if_splits)
  then show ?case
  proof cases
    case 3
    then have "length buffer - (checked + ?chunk) < length buffer - checked" by simp
    then show ?thesis using less.hyps [OF _ _ 3(3)] m1 by auto
  qed (use m1 less.prems(1) in auto)
qed

lemma read_loop_step:
  assumes "mirror_inv mgood mcontents ctx" "i < mc_count ctx" "mirror_member_healthy ctx i"
    "\<And>b. copy = Some b \<Longrightarrow> b = range_bytes (mirror_contents mcontents ctx) a n"
    "mirror_read_loop malloc_ok a n None (i # is) copy ctx = (r, ctx')"
  obtains ctx1 where "mirror_inv mgood mcontents ctx1"
    "mirror_contents mcontents ctx1 = mirror_contents mcontents ctx" "mc_count ctx1 = mc_count ctx"
    "(\<exists>e. r = Inl e) \<and> ctx' = ctx1 \<or>
     (\<exists>copy1. (\<forall>b. copy1 = Some b \<longrightarrow> b = range_bytes (mirror_contents mcontents ctx) a n) \<and>
        mirror_read_loop malloc_ok a n None is copy1 ctx1 = (r, ctx'))"
proof -
  let ?m = "mc_members ctx ! i"
  have mg: "mgood ?m" and mc: "mcontents ?m = mirror_contents mcontents ctx"
    using mirror_inv_member [OF assms(1-3)] by blast+
  have child: "child_policy None = None" by (simp add: child_policy_def)
  have cnt: "mc_count (set_member ctx i m) = mc_count ctx" for m by (simp add: set_member_def)
  show ?thesis
  proof (cases copy)
    case None
    obtain q m where q: "infs_storage_read_policy ?m a n None = (q, m)" by fastforce
    note s = set_member_inv [OF assms(1-3) conjunct1 [OF member.rd_inv [OF mg q]]
        conjunct2 [OF member.rd_inv [OF mg q]]]
    show ?thesis
    proof (rule that [of "set_member ctx i m"])
      show "(\<exists>e. r = Inl e) \<and> ctx' = set_member ctx i m \<or>
        (\<exists>copy1. (\<forall>b. copy1 = Some b \<longrightarrow> b = range_bytes (mirror_contents mcontents ctx) a n) \<and>
          mirror_read_loop malloc_ok a n None is copy1 (set_member ctx i m) = (r, ctx'))"
        using assms(3,5) None q child member.rd_bytes [OF mg, of a n _ m] mc
        by (cases q) (auto split: if_splits)
    qed (use s cnt in auto)
  next
    case (Some b)
    obtain v m where v: "mirror_verify_loop (min n 65536) a b None 0 ?m = (v, m)" by fastforce
    note s = set_member_inv [OF assms(1-3) conjunct1 [OF verify_loop_inv [OF mg v]]
        conjunct2 [OF verify_loop_inv [OF mg v]]]
    show ?thesis
    proof (cases "n \<noteq> 0 \<and> \<not> malloc_ok")
      case True
      then show ?thesis using that [of ctx] assms Some by auto
    next
      case False
      show ?thesis
      proof (rule that [of "set_member ctx i m"])
        show "(\<exists>e. r = Inl e) \<and> ctx' = set_member ctx i m \<or>
          (\<exists>copy1. (\<forall>b. copy1 = Some b \<longrightarrow> b = range_bytes (mirror_contents mcontents ctx) a n) \<and>
            mirror_read_loop malloc_ok a n None is copy1 (set_member ctx i m) = (r, ctx'))"
          using assms(3-5) Some v child False by (cases v) (auto split: if_splits)
      qed (use s cnt in auto)
    qed
  qed
qed

lemma read_loop_ok:
  "mirror_inv mgood mcontents ctx \<Longrightarrow> set is \<subseteq> {..<mc_count ctx} \<Longrightarrow>
   (\<And>b. copy = Some b \<Longrightarrow> b = range_bytes (mirror_contents mcontents ctx) a n) \<Longrightarrow>
   mirror_read_loop malloc_ok a n None is copy ctx = (r, ctx') \<Longrightarrow>
   mirror_inv mgood mcontents ctx' \<and> mirror_contents mcontents ctx' = mirror_contents mcontents ctx \<and>
   (\<forall>bs. r = Inr bs \<longrightarrow> bs = range_bytes (mirror_contents mcontents ctx) a n)"
proof (induction "is" arbitrary: copy ctx)
  case Nil
  then show ?case by (auto split: option.splits)
next
  case (Cons i "is")
  show ?case
  proof (cases "mirror_member_healthy ctx i")
    case False
    then show ?thesis using Cons.IH [OF Cons.prems(1) _ Cons.prems(3)] Cons.prems(2,4) by auto
  next
    case True
    have i: "i < mc_count ctx" using Cons.prems(2) by simp
    obtain ctx1 where c: "mirror_inv mgood mcontents ctx1"
      "mirror_contents mcontents ctx1 = mirror_contents mcontents ctx" "mc_count ctx1 = mc_count ctx"
      "(\<exists>e. r = Inl e) \<and> ctx' = ctx1 \<or>
       (\<exists>copy1. (\<forall>b. copy1 = Some b \<longrightarrow> b = range_bytes (mirror_contents mcontents ctx) a n) \<and>
          mirror_read_loop malloc_ok a n None is copy1 ctx1 = (r, ctx'))"
      by (rule read_loop_step [OF Cons.prems(1) i True Cons.prems(3,4)])
    from c(4) show ?thesis
    proof
      assume "\<exists>copy1. (\<forall>b. copy1 = Some b \<longrightarrow> b = range_bytes (mirror_contents mcontents ctx) a n) \<and>
          mirror_read_loop malloc_ok a n None is copy1 ctx1 = (r, ctx')"
      then obtain copy1 where "\<And>b. copy1 = Some b \<Longrightarrow> b = range_bytes (mirror_contents mcontents ctx1) a n"
        "mirror_read_loop malloc_ok a n None is copy1 ctx1 = (r, ctx')" using c(2) by auto
      then show ?thesis using Cons.IH [OF c(1), of copy1] Cons.prems(2) c(2,3) by auto
    qed (use c in auto)
  qed
qed

text \<open>Whatever a write returns, the members it leaves healthy and on which it succeeded hold the
  new bytes.\<close>

lemma write_survivors:
  assumes "mirror_inv mgood mcontents ctx" "mirror_write ctx a bs = (st, ctx')"
    and "\<And>i. i < mc_count ctx \<Longrightarrow> mirror_member_healthy ctx i \<Longrightarrow>
      fst (infs_storage_write_policy (mc_members ctx ! i) a bs None) \<in> {INFS_STATUS_OK, INFS_STATUS_IO_ERROR}"
    and "i0 < mc_count ctx" "mirror_member_healthy ctx i0"
      "fst (infs_storage_write_policy (mc_members ctx ! i0) a bs None) = INFS_STATUS_OK"
  shows "mirror_inv mgood mcontents ctx' \<and>
    mirror_contents mcontents ctx' = range_update (mirror_contents mcontents ctx) a bs"
proof -
  let ?f = "\<lambda>m. infs_storage_write_policy m a bs None"
  have wf: "mirror_wf ctx" using assms(1) by (simp add: mirror_inv_def)
  have loop: "mirror_apply_loop (mirror_policy_member ctx None) ?f [0..<mc_count ctx] False False
      INFS_STATUS_OK ctx = (st, ctx')"
    using assms(2) by (simp add: mirror_write_def mirror_write_policy_def copies_exceed_def child_policy_def)
  note eff = mirror_apply_all [OF wf loop]
  show ?thesis
  proof (rule mirror_inv_change [OF assms(1) eff(1,2), of _ i0])
    fix i assume i: "i < mc_count ctx" "mirror_member_healthy ctx' i"
    then have h: "mirror_member_healthy ctx i" "fst (?f (mc_members ctx ! i)) = INFS_STATUS_OK"
      using eff(4) [OF i(1)] assms(3) [OF i(1)] by auto
    have g: "mgood (mc_members ctx ! i)" "mcontents (mc_members ctx ! i) = mirror_contents mcontents ctx"
      using mirror_inv_member [OF assms(1) i(1) h(1)] by blast+
    have "?f (mc_members ctx ! i) = (INFS_STATUS_OK, mc_members ctx' ! i)"
      using h eff(3) [OF i(1)] by (simp add: prod_eq_iff)
    then show "mgood (mc_members ctx' ! i) \<and>
        mcontents (mc_members ctx' ! i) = range_update (mirror_contents mcontents ctx) a bs"
      using member.wr_ok [OF g(1)] g(2) by simp
  qed (use eff(4) [OF assms(4)] assms(4-6) in auto)
qed

end

sublocale mirror_of \<subseteq> mirror: byte_store "mirror_read malloc_ok" mirror_write
  "mirror_inv mgood mcontents" "mirror_contents mcontents"
proof
  fix ctx a n r ctx' assume g: "mirror_inv mgood mcontents ctx" and r: "mirror_read malloc_ok ctx a n = (r, ctx')"
  then have l: "mirror_read_loop malloc_ok a n None [0..<mc_count ctx] None ctx = (r, ctx')"
    by (simp add: mirror_read_def mirror_read_policy_def copies_exceed_def)
  show "mirror_inv mgood mcontents ctx' \<and> mirror_contents mcontents ctx' = mirror_contents mcontents ctx"
    using read_loop_ok [OF g upt_subset _ l] by auto
next
  fix ctx a n bs ctx' assume g: "mirror_inv mgood mcontents ctx" and r: "mirror_read malloc_ok ctx a n = (Inr bs, ctx')"
  then have l: "mirror_read_loop malloc_ok a n None [0..<mc_count ctx] None ctx = (Inr bs, ctx')"
    by (simp add: mirror_read_def mirror_read_policy_def copies_exceed_def)
  show "bs = range_bytes (mirror_contents mcontents ctx) a n"
    using read_loop_ok [OF g upt_subset _ l] by auto
next
  fix ctx a bs ctx' assume g: "mirror_inv mgood mcontents ctx" and w: "mirror_write ctx a bs = (INFS_STATUS_OK, ctx')"
  have wf: "mirror_wf ctx" using g by (simp add: mirror_inv_def)
  have loop: "mirror_apply_loop (mirror_policy_member ctx None) (\<lambda>m. infs_storage_write_policy m a bs None)
      [0..<mc_count ctx] False False INFS_STATUS_OK ctx = (INFS_STATUS_OK, ctx')"
    using w by (simp add: mirror_write_def mirror_write_policy_def copies_exceed_def child_policy_def)
  have ok: "mirror_member_healthy ctx i \<and>
      fst (infs_storage_write_policy (mc_members ctx ! i) a bs None) = INFS_STATUS_OK" if "i < mc_count ctx" for i
    using mirror_apply_all(5) [OF wf loop] that by simp
  obtain i0 where "i0 < mc_count ctx" using g unfolding mirror_inv_def by blast
  then show "mirror_inv mgood mcontents ctx' \<and>
      mirror_contents mcontents ctx' = range_update (mirror_contents mcontents ctx) a bs"
    using write_survivors [OF g w, of i0] ok by auto
qed


sublocale mirror_of \<subseteq> mb: backend "mirror_read malloc_ok" mirror_write
  "mirror_inv mgood mcontents" "mirror_contents mcontents" "mirror_ops malloc_ok"
  by unfold_locales (simp_all add: mirror_ops_def mirror_read_def mirror_write_def)

text \<open>A mirror over POSIX handles.\<close>

sublocale posix_host \<subseteq> pm: mirror_of "handle_inv (posix_storage_ops os rnd) fgood" "handle_contents fcontents" ..

context posix_host
begin

lemma posix_mirror_of:
  "mirror_of (handle_inv (posix_storage_ops os rnd) fgood) (handle_contents fcontents)"
  by (rule pm.mirror_of_axioms)

end

lemma posix_mirror:
  assumes "posix_host os fgood fcontents"
  shows "mirror_of (handle_inv (posix_storage_ops os rnd) fgood) (handle_contents fcontents)"
  by (rule posix_host.posix_mirror_of [OF assms])

interpretation ram_mirror_of: mirror_of
  "handle_inv (posix_storage_ops ram_os ram_random) ram_good" "handle_contents ram_contents"
  by (rule posix_mirror [OF ram.posix_host_axioms])

context mirror_of
begin

lemma mirror_store: "byte_store (mirror_read malloc_ok) mirror_write (mirror_inv mgood mcontents) (mirror_contents mcontents)"
  by (rule mirror.byte_store_axioms)

lemma verify_loop_agrees:
  assumes tame: "\<And>m a n. mgood m \<Longrightarrow> fst (infs_storage_read_policy m a n None) \<in> insert (Inl INFS_STATUS_IO_ERROR) (range Inr)"
  shows "mgood m \<Longrightarrow> buffer = range_bytes (mcontents m) a (length buffer) \<Longrightarrow>
    fst (mirror_verify_loop capacity a buffer None checked m) = None"
proof (induction "length buffer - checked" arbitrary: checked m rule: less_induct)
  case less
  let ?chunk = "min (length buffer - checked) capacity"
  obtain q m1 where q: "infs_storage_read_policy m (a + word_of_nat checked) ?chunk None = (q, m1)"
    by fastforce
  note m1 = member.rd_inv [OF less.prems(1) q]
  have tq: "q = Inl INFS_STATUS_IO_ERROR \<or> (\<exists>v. q = Inr v)"
    using tame [OF less.prems(1), of "a + word_of_nat checked" ?chunk] q by auto
  show ?case
  proof (cases "checked < length buffer \<and> 0 < capacity")
    case False
    then show ?thesis by (subst mirror_verify_loop.simps) auto
  next
    case True
    then have dec: "length buffer - (checked + ?chunk) < length buffer - checked" by linarith
    have IH: "fst (mirror_verify_loop capacity a buffer None (checked + ?chunk) m1) = None"
      using less.hyps [OF dec] m1 less.prems(2) by simp
    have "checked + ?chunk \<le> length buffer" using True by linarith
    then have "get_bytes checked ?chunk buffer = range_bytes (mcontents m) (a + word_of_nat checked) ?chunk"
      using get_range_bytes [of checked ?chunk "length buffer" "mcontents m" a] less.prems(2) by simp
    then have "q = Inr v \<Longrightarrow> get_bytes checked ?chunk buffer = v" for v
      using member.rd_bytes [OF less.prems(1), of "a + word_of_nat checked" ?chunk v m1] q by simp
    note agrees = this
    note unfold = mirror_verify_loop.simps [of capacity a buffer None checked m] q Let_def
    from tq show ?thesis
    proof (elim disjE exE)
      assume "q = Inl INFS_STATUS_IO_ERROR"
      then show ?thesis using True by (simp add: unfold)
    next
      fix v assume "q = Inr v"
      then show ?thesis using True agrees [of v] IH by (simp add: unfold)
    qed
  qed
qed

lemma read_loop_returns:
  assumes tame: "\<And>m a n. mgood m \<Longrightarrow> fst (infs_storage_read_policy m a n None) \<in> insert (Inl INFS_STATUS_IO_ERROR) (range Inr)"
  shows "mirror_inv mgood mcontents ctx \<Longrightarrow> set is \<subseteq> {..<mc_count ctx} \<Longrightarrow> distinct is \<Longrightarrow>
    (\<And>b. copy = Some b \<Longrightarrow> b = range_bytes (mirror_contents mcontents ctx) a n) \<Longrightarrow>
    copy \<noteq> None \<or> (\<exists>i\<in>set is. mirror_member_healthy ctx i \<and>
      fst (infs_storage_read_policy (mc_members ctx ! i) a n None) \<in> range Inr) \<Longrightarrow>
    \<exists>bs. fst (mirror_read_loop True a n None is copy ctx) = Inr bs"
proof (induction "is" arbitrary: copy ctx)
  case Nil
  then show ?case by auto
next
  case (Cons i "is")
  have i: "i < mc_count ctx" "i \<notin> set is" "set is \<subseteq> {..<mc_count ctx}" using Cons.prems(2,3) by auto
  show ?case
  proof (cases "mirror_member_healthy ctx i")
    case False
    then show ?thesis using Cons.IH [OF Cons.prems(1) i(3) _ Cons.prems(4)] Cons.prems(3,5) by auto
  next
    case True
    let ?m = "mc_members ctx ! i"
    have mg: "mgood ?m" and mc: "mcontents ?m = mirror_contents mcontents ctx"
      using mirror_inv_member [OF Cons.prems(1) i(1) True] by blast+
    have child: "child_policy None = None" by (simp add: child_policy_def)
    have later: "mirror_member_healthy (set_member ctx i m) j = mirror_member_healthy ctx j"
      "j \<noteq> i \<Longrightarrow> mc_members (set_member ctx i m) ! j = mc_members ctx ! j" 
      "mc_count (set_member ctx i m) = mc_count ctx" for m j
      by (simp_all add: set_member_def mirror_member_healthy_def)
    show ?thesis
    proof (cases copy)
      case None
      obtain q m where q: "infs_storage_read_policy ?m a n None = (q, m)" by fastforce
      note s = set_member_inv [OF Cons.prems(1) i(1) True conjunct1 [OF member.rd_inv [OF mg q]]
          conjunct2 [OF member.rd_inv [OF mg q]]]
      consider "q = Inl INFS_STATUS_IO_ERROR" | v where "q = Inr v" using tame [OF mg, of a n] q by auto
      then show ?thesis
      proof cases
        case 1
        obtain j where j: "j \<in> set is" "mirror_member_healthy ctx j"
            "fst (infs_storage_read_policy (mc_members ctx ! j) a n None) \<in> range Inr"
          using Cons.prems(5) None 1 q by auto
        then have "j \<noteq> i" using i(2) by blast
        have "\<exists>j\<in>set is. mirror_member_healthy (set_member ctx i m) j \<and>
            fst (infs_storage_read_policy (mc_members (set_member ctx i m) ! j) a n None) \<in> range Inr"
          by (rule bexI [OF _ j(1)]) (simp only: later(1) later(2) [OF \<open>j \<noteq> i\<close>] j simp_thms)
        then show ?thesis
          using Cons.IH [of "set_member ctx i m" None] s i(3) later(3) Cons.prems(3) True None 1 q child
          by simp
      next
        case 2
        then have "v = range_bytes (mirror_contents mcontents (set_member ctx i m)) a n"
          using member.rd_bytes [OF mg, of a n v m] q mc s by simp
        then show ?thesis
          using Cons.IH [of "set_member ctx i m" "Some v"] s i(3) later(3) Cons.prems(3) True None 2 q child
          by simp
      qed
    next
      case (Some b)
      obtain v m where v: "mirror_verify_loop (min n 65536) a b None 0 ?m = (v, m)" by fastforce
      note s = set_member_inv [OF Cons.prems(1) i(1) True conjunct1 [OF verify_loop_inv [OF mg v]]
          conjunct2 [OF verify_loop_inv [OF mg v]]]
      have b: "b = range_bytes (mirror_contents mcontents ctx) a n" using Cons.prems(4) Some by simp
      then have "v = None"
        using verify_loop_agrees [OF tame mg, of b a "min n 65536" 0] mc v by simp
      then show ?thesis
        using Cons.IH [of "set_member ctx i m" "Some b"] s i(3) later(3) Cons.prems(3) True Some v b child
        by simp
    qed
  qed
qed

end


section \<open>Properties\<close>

text \<open>C21: An operation under a replica policy selects exactly as many members as the policy asks
  for, all of them when it names no count, and a policy that asks for more replicas than there
  are members is refused by both reads and writes without touching a member.\<close>

theorem mirror_selects_copies:
  assumes "0 < mc_count ctx"
  shows "if copies_exceed ctx policy
    then mirror_read_policy malloc_ok ctx a n policy = (Inl INFS_STATUS_NOT_SUPPORTED, ctx) \<and>
         mirror_write_policy ctx a bs policy = (INFS_STATUS_NOT_SUPPORTED, ctx)
    else card {i. i < mc_count ctx \<and> mirror_policy_member ctx policy i} =
         (case policy of
            None \<Rightarrow> mc_count ctx
          | Some p \<Rightarrow> if pol_protection_copies p = 0 then mc_count ctx else unat (pol_protection_copies p))"
  using mirror_member_count [OF assms]
  by (auto simp: mirror_read_policy_def mirror_write_policy_def mirror_policy_copies_def Let_def
      unat_eq_0 split: option.splits)

theorem mirror_selects_copies_witness:
  "card {i. i < 3 \<and> mirror_policy_member
      \<lparr> mc_members = replicate 3 \<lparr> st_ops = None, st_context = None \<rparr>, mc_healthy = replicate 3 True,
        mc_size_bytes = 0, mc_is_device = False \<rparr>
      (Some \<lparr> pol_object_id = zeros 16, pol_protection_copies = 2, pol_encryption_domain = 0 \<rparr>) i} = 2"
  using mirror_selects_copies [of
      "\<lparr> mc_members = replicate 3 \<lparr> st_ops = None, st_context = None \<rparr>, mc_healthy = replicate 3 True,
        mc_size_bytes = 0, mc_is_device = False \<rparr>"
      "Some \<lparr> pol_object_id = zeros 16, pol_protection_copies = 2, pol_encryption_domain = 0 \<rparr>"]
  by (simp add: copies_exceed_def)

text \<open>C18: A mirrored write and a mirrored flush report success exactly when every selected member
  was healthy and its own operation succeeded, and at least one was selected; a member loses its
  health mark only if it was selected and its own operation failed with a device I/O error; members
  that are not selected or not healthy are left alone.\<close>

theorem mirror_success_is_complete:
  assumes "mirror_wf ctx"
  shows "(\<not> copies_exceed ctx policy \<longrightarrow>
      mirror_outcome ctx (mirror_policy_member ctx policy)
        (\<lambda>m. infs_storage_write_policy m a bs (child_policy policy)) (mirror_write_policy ctx a bs policy)) \<and>
    mirror_outcome ctx (\<lambda>_. True) infs_storage_flush (mirror_flush ctx)"
proof -
  have "mirror_outcome ctx sel f (mirror_apply_loop sel f [0..<mc_count ctx] False False INFS_STATUS_OK ctx)" for sel f
    using mirror_apply_all(3-5) [OF assms] unfolding mirror_outcome_def by (auto split: prod.split)
  then show ?thesis by (simp add: mirror_write_policy_def mirror_flush_def)
qed

lemma read_loop_skip:
  assumes "\<And>j. j \<in> set js \<Longrightarrow> mirror_member_healthy ctx j \<Longrightarrow>
      fst (infs_storage_read_policy (mc_members ctx ! j) a n None) = Inl INFS_STATUS_IO_ERROR"
    and "distinct js"
  shows "\<exists>ctx1. mirror_read_loop malloc_ok a n None (js @ is) None ctx =
        mirror_read_loop malloc_ok a n None is None ctx1 \<and>
      (\<forall>j. mirror_member_healthy ctx1 j = mirror_member_healthy ctx j) \<and>
      (\<forall>j. j \<notin> set js \<longrightarrow> mc_members ctx1 ! j = mc_members ctx ! j)"
  using assms
proof (induction js arbitrary: ctx)
  case Nil
  then show ?case by auto
next
  case (Cons i js)
  have child: "child_policy None = None" by (simp add: child_policy_def)
  show ?case
  proof (cases "mirror_member_healthy ctx i")
    case False
    then show ?thesis using Cons.IH [of ctx] Cons.prems by auto
  next
    case True
    obtain m where m: "infs_storage_read_policy (mc_members ctx ! i) a n None = (Inl INFS_STATUS_IO_ERROR, m)"
      using Cons.prems(1) [of i] True by (auto simp: prod_eq_iff)
    let ?c = "set_member ctx i m"
    have h: "mirror_member_healthy ?c j = mirror_member_healthy ctx j"
      "j \<noteq> i \<Longrightarrow> mc_members ?c ! j = mc_members ctx ! j" for j
      by (simp_all add: set_member_def mirror_member_healthy_def)
    have "fst (infs_storage_read_policy (mc_members ?c ! j) a n None) = Inl INFS_STATUS_IO_ERROR"
      if "j \<in> set js" "mirror_member_healthy ?c j" for j
      using Cons.prems(1) [of j] Cons.prems(2) that h [of j] by (cases "j = i") auto
    then obtain ctx1 where "mirror_read_loop malloc_ok a n None (js @ is) None ?c =
        mirror_read_loop malloc_ok a n None is None ctx1"
      "\<forall>j. mirror_member_healthy ctx1 j = mirror_member_healthy ?c j"
      "\<forall>j. j \<notin> set js \<longrightarrow> mc_members ctx1 ! j = mc_members ?c ! j"
      using Cons.IH [of ?c] Cons.prems(2) by auto
    then show ?thesis using True m h child by (intro exI [of _ ctx1]) simp
  qed
qed

lemma read_loop_no_memory:
  assumes "n \<noteq> 0" "\<exists>j\<in>set is. mirror_member_healthy ctx j"
  shows "fst (mirror_read_loop False a n None is (Some buffer) ctx) = Inl INFS_STATUS_NO_MEMORY"
  using assms by (induction "is") auto

lemma first_answer_loop:
  assumes "first_answer ctx a n i"
  shows "\<exists>ctx1. mirror_read malloc_ok ctx a n =
        mirror_read_loop malloc_ok a n None (i # [Suc i..<mc_count ctx]) None ctx1 \<and>
      (\<forall>j. mirror_member_healthy ctx1 j = mirror_member_healthy ctx j) \<and>
      mc_members ctx1 ! i = mc_members ctx ! i"
proof -
  have i: "i < mc_count ctx" using assms by (simp add: first_answer_def)
  then have "[0..<mc_count ctx] = [0..<i] @ i # [Suc i..<mc_count ctx]"
    using upt_add_eq_append [of 0 i "mc_count ctx - i"] by (simp add: upt_conv_Cons)
  then have e: "mirror_read malloc_ok ctx a n =
      mirror_read_loop malloc_ok a n None ([0..<i] @ i # [Suc i..<mc_count ctx]) None ctx"
    by (simp only: mirror_read_def mirror_read_policy_def copies_exceed_def option.case if_False)
  show ?thesis
    unfolding e using read_loop_skip [of "[0..<i]" ctx a n malloc_ok "i # [Suc i..<mc_count ctx]"] assms
    by (auto simp: first_answer_def)
qed

lemma first_answer_error:
  assumes "first_answer ctx a n i" "fst (infs_storage_read_policy (mc_members ctx ! i) a n None) = Inl status"
  shows "fst (mirror_read malloc_ok ctx a n) = Inl status"
proof -
  obtain ctx1 where c: "mirror_read malloc_ok ctx a n =
        mirror_read_loop malloc_ok a n None (i # [Suc i..<mc_count ctx]) None ctx1"
      "\<And>j. mirror_member_healthy ctx1 j = mirror_member_healthy ctx j" "mc_members ctx1 ! i = mc_members ctx ! i"
    using first_answer_loop [OF assms(1), of malloc_ok] by blast
  obtain m where m: "infs_storage_read_policy (mc_members ctx1 ! i) a n None = (Inl status, m)"
    using assms(2) c(3) by (auto simp: prod_eq_iff)
  then show ?thesis using c assms by (simp add: first_answer_def child_policy_def)
qed

lemma first_answer_no_memory:
  assumes "first_answer ctx a n i" "fst (infs_storage_read_policy (mc_members ctx ! i) a n None) \<in> range Inr"
    and "i < j" "j < mc_count ctx" "mirror_member_healthy ctx j" "n \<noteq> 0"
  shows "fst (mirror_read False ctx a n) = Inl INFS_STATUS_NO_MEMORY"
proof -
  obtain ctx1 where c: "mirror_read False ctx a n =
        mirror_read_loop False a n None (i # [Suc i..<mc_count ctx]) None ctx1"
      "\<And>j. mirror_member_healthy ctx1 j = mirror_member_healthy ctx j" "mc_members ctx1 ! i = mc_members ctx ! i"
    using first_answer_loop [OF assms(1), of False] by blast
  obtain buffer m where m: "infs_storage_read_policy (mc_members ctx1 ! i) a n None = (Inr buffer, m)"
    using assms(2) c(3) by (auto simp: prod_eq_iff)
  have "mirror_member_healthy (set_member ctx1 i m) j" "j \<in> set [Suc i..<mc_count ctx]"
    using assms(3-5) c(2) by (simp_all add: set_member_def mirror_member_healthy_def)
  then have "fst (mirror_read_loop False a n None [Suc i..<mc_count ctx] (Some buffer) (set_member ctx1 i m)) =
      Inl INFS_STATUS_NO_MEMORY"
    using read_loop_no_memory [OF assms(6)] by blast
  then show ?thesis using c m assms(1) by (simp add: first_answer_def child_policy_def)
qed

lemma ram_mirror_wf [simp]: "mirror_wf (ram_mirror ds hs) \<longleftrightarrow> length hs = length ds"
  by (auto simp: ram_mirror_def mirror_wf_def)

lemma ram_mirror_count [simp]: "mc_count (ram_mirror ds hs) = length ds"
  by (simp add: ram_mirror_def)

lemma ram_mirror_healthy [simp]: "mirror_member_healthy (ram_mirror ds hs) i = hs ! i"
  by (simp add: ram_mirror_def mirror_member_healthy_def)

lemma ram_mirror_member [simp]:
  "i < length ds \<Longrightarrow> mc_members (ram_mirror ds hs) ! i =
     \<lparr> st_ops = Some (posix_storage_ops ram_os ram_random), st_context = Some (ds ! i) \<rparr>"
  by (simp add: ram_mirror_def)

theorem mirror_success_is_complete_witness:
  "\<exists>st ctx'. mirror_flush (ram_mirror [\<lparr> dev_bytes = [], dev_broken = False \<rparr>, \<lparr> dev_bytes = [], dev_broken = True \<rparr>]
      [True, True]) = (st, ctx') \<and> st \<noteq> INFS_STATUS_OK \<and>
    mirror_member_healthy ctx' 0 \<and> \<not> mirror_member_healthy ctx' 1"
proof -
  let ?ctx = "ram_mirror [\<lparr> dev_bytes = [], dev_broken = False \<rparr>, \<lparr> dev_bytes = [], dev_broken = True \<rparr>] [True, True]"
  obtain st ctx' where f: "mirror_flush ?ctx = (st, ctx')" by fastforce
  have "fst (infs_storage_flush (mc_members ?ctx ! 0)) = INFS_STATUS_OK"
    "fst (infs_storage_flush (mc_members ?ctx ! 1)) = INFS_STATUS_IO_ERROR"
    by (simp_all add: infs_storage_flush_def with_op_def infs_storage_valid_def posix_storage_ops_def
        posix_flush_def ram_os_def)
  note st = this
  have "mirror_outcome ?ctx (\<lambda>_. True) infs_storage_flush (st, ctx')"
    using mirror_success_is_complete [of ?ctx] f by simp
  then have "st \<noteq> INFS_STATUS_OK" "mirror_member_healthy ctx' i =
      (mirror_member_healthy ?ctx i \<and> fst (infs_storage_flush (mc_members ?ctx ! i)) \<noteq> INFS_STATUS_IO_ERROR)"
    if "i < 2" for i
    using st that by (auto simp: mirror_outcome_def simp del: ram_mirror_member)
  from this(1) [of 0] this(2) [of 0] this(2) [of 1]
  have "st \<noteq> INFS_STATUS_OK" "mirror_member_healthy ctx' 0" "\<not> mirror_member_healthy ctx' 1"
    using st by (simp_all del: ram_mirror_member)
  then show ?thesis using f by blast
qed

text \<open>C19: A mirror over POSIX devices behaves as one store. As long as its healthy replicas agree,
  a read that succeeds returns exactly the mirrored bytes. After a write in which some replica
  succeeds and every other replica succeeds or fails with a device I/O error, the replicas that
  are still healthy again agree, hold the new bytes in the written range and the old bytes
  elsewhere, and reading that range back can only return the bytes written. A replica that
  fails with another error keeps its health mark without the new bytes, so that case is
  excluded by the hypothesis.\<close>

theorem mirror_read_after_write:
  assumes host: "posix_host os fgood fcontents"
    and mirrored: "mirror_inv (handle_inv (posix_storage_ops os rnd) fgood) (handle_contents fcontents) ctx"
    and wr: "mirror_write ctx a bs = (st, ctx')" and len: "length bs \<le> 2 ^ 64"
    and partial: "\<And>i. i < mc_count ctx \<Longrightarrow> mirror_member_healthy ctx i \<Longrightarrow>
      fst (infs_storage_write_policy (mc_members ctx ! i) a bs None) \<in> {INFS_STATUS_OK, INFS_STATUS_IO_ERROR}"
    and survivor: "i0 < mc_count ctx" "mirror_member_healthy ctx i0"
      "fst (infs_storage_write_policy (mc_members ctx ! i0) a bs None) = INFS_STATUS_OK"
  shows "mirror_inv (handle_inv (posix_storage_ops os rnd) fgood) (handle_contents fcontents) ctx' \<and>
    mirror_contents (handle_contents fcontents) ctx' =
      range_update (mirror_contents (handle_contents fcontents) ctx) a bs \<and>
    (\<forall>b n r. fst (mirror_read malloc_ok ctx b n) = Inr r \<longrightarrow>
       r = range_bytes (mirror_contents (handle_contents fcontents) ctx) b n) \<and>
    (\<forall>b n r. fst (mirror_read malloc_ok ctx' b n) = Inr r \<longrightarrow>
       r = range_bytes (range_update (mirror_contents (handle_contents fcontents) ctx) a bs) b n) \<and>
    (\<forall>r. fst (mirror_read malloc_ok ctx' a (length bs)) = Inr r \<longrightarrow> r = bs)"
proof -
  let ?G = "handle_inv (posix_storage_ops os rnd) fgood" and ?C = "handle_contents fcontents"
  have m: "mirror_of ?G ?C" by (rule posix_mirror [OF host])
  note w = mirror_of.write_survivors [OF m mirrored wr partial survivor]
  have rd: "fst (mirror_read malloc_ok c b n) = Inr r \<Longrightarrow> r = range_bytes (mirror_contents ?C c) b n"
    if "mirror_inv ?G ?C c" for c b n r
    using mirror_of.mirror_store [OF m, of malloc_ok] byte_store.rd_bytes that by (metis prod.collapse)
  have "fst (mirror_read malloc_ok ctx' a (length bs)) = Inr r \<Longrightarrow> r = bs" for r
    using rd [OF conjunct1 [OF w], of a "length bs" r] conjunct2 [OF w] range_bytes_update [OF len] by simp
  moreover have "fst (mirror_read malloc_ok ctx' b n) = Inr r \<Longrightarrow>
      r = range_bytes (range_update (mirror_contents ?C ctx) a bs) b n" for b n r
    using rd [OF conjunct1 [OF w], of b n r] conjunct2 [OF w] by simp
  ultimately show ?thesis using w rd [OF mirrored] by blast
qed

lemma ram_mirror_inv:
  assumes "length hs = length ds" "i < length ds" "hs ! i"
    "\<And>i. i < length ds \<Longrightarrow> ram_good (ds ! i) \<and> ram_contents (ds ! i) = C"
  shows "mirror_inv ram_handle_inv (handle_contents ram_contents) (ram_mirror ds hs)"
  unfolding mirror_inv_def using assms
  by (intro conjI exI [of _ i] exI [of _ C]) (auto simp: handle_inv_def handle_contents_def)

lemma ram_write_status:
  "fst (infs_storage_write_policy \<lparr> st_ops = Some (posix_storage_ops ram_os ram_random), st_context = Some d \<rparr> a bs None) =
     (if dev_broken d then INFS_STATUS_IO_ERROR
      else if length (dev_bytes d) < unat a + length bs then INFS_STATUS_NO_SPACE else INFS_STATUS_OK)"
  by (simp add: infs_storage_write_policy_def infs_storage_write_def with_op_def infs_storage_valid_def
      posix_storage_ops_def posix_write_at_def ram_os_def ram_pwrite_def policy_is_explicit_def)

lemma ram_read_status:
  "fst (infs_storage_read_policy \<lparr> st_ops = Some (posix_storage_ops ram_os ram_random), st_context = Some d \<rparr> a n None) =
     (if dev_broken d \<or> length (dev_bytes d) < unat a + n then Inl INFS_STATUS_IO_ERROR
      else Inr (get_bytes (unat a) n (dev_bytes d)))"
  by (simp add: infs_storage_read_policy_def infs_storage_read_def with_op_def infs_storage_valid_def
      posix_storage_ops_def posix_read_at_def ram_os_def ram_pread_def policy_is_explicit_def)

lemma ram_pread_status: "fst (os_pread_full ram_os f b k) = Inl EIO \<or> fst (os_pread_full ram_os f b k) \<in> range Inr"
  by (simp add: ram_os_def ram_pread_def)

theorem mirror_read_after_write_witness:
  "\<exists>st ctx'. mirror_write (ram_mirror [\<lparr> dev_bytes = zeros 8, dev_broken = True \<rparr>, \<lparr> dev_bytes = zeros 8, dev_broken = False \<rparr>]
        [True, True]) 2 [5, 6] = (st, ctx') \<and>
     (\<forall>r. fst (mirror_read True ctx' 2 2) = Inr r \<longrightarrow> r = [5, 6])"
proof -
  let ?ds = "[\<lparr> dev_bytes = zeros 8, dev_broken = True \<rparr>, \<lparr> dev_bytes = zeros 8, dev_broken = False \<rparr>]"
  let ?ctx = "ram_mirror ?ds [True, True]"
  have C: "i < length ?ds \<Longrightarrow> ram_good (?ds ! i) \<and> ram_contents (?ds ! i) = (\<lambda>_. 0)" for i
    by (cases i) (auto simp: ram_good_def ram_contents_def zeros_def fun_eq_iff)
  have I: "mirror_inv ram_handle_inv (handle_contents ram_contents) ?ctx"
    by (rule ram_mirror_inv [OF _ _ _ C, of _ 1]) simp_all
  obtain st ctx' where w: "mirror_write ?ctx 2 [5, 6] = (st, ctx')" by fastforce
  have f: "i < 2 \<Longrightarrow> fst (infs_storage_write_policy (mc_members ?ctx ! i) 2 [5, 6] None) =
      (if i = 0 then INFS_STATUS_IO_ERROR else INFS_STATUS_OK)" for i
    by (cases i) (simp_all add: ram_write_status)
  have l: "length [5, 6 :: byte] \<le> 2 ^ 64" by simp
  have p: "i < mc_count ?ctx \<Longrightarrow> mirror_member_healthy ?ctx i \<Longrightarrow>
      fst (infs_storage_write_policy (mc_members ?ctx ! i) 2 [5, 6] None) \<in> {INFS_STATUS_OK, INFS_STATUS_IO_ERROR}" for i
    by (cases i) (simp_all add: ram_write_status)
  have "\<forall>r. fst (mirror_read True ctx' 2 2) = Inr r \<longrightarrow> r = [5, 6]"
    using mirror_read_after_write [OF ram.posix_host_axioms I w l p, of 1 True] f [of 1]
    by (simp add: numeral_2_eq_2)
  then show ?thesis using w by blast
qed

lemma posix_read_failover:
  assumes host: "posix_host os fgood fcontents"
    and mirrored: "mirror_inv (handle_inv (posix_storage_ops os rnd) fgood) (handle_contents fcontents) ctx"
    and tame: "\<And>f b k. fgood f \<Longrightarrow> fst (os_pread_full os f b k) \<in> insert (Inl EIO) (range Inr)"
    and alive: "i < mc_count ctx" "mirror_member_healthy ctx i"
      "fst (infs_storage_read_policy (mc_members ctx ! i) a n None) \<in> range Inr"
  shows "fst (mirror_read True ctx a n) =
    Inr (range_bytes (mirror_contents (handle_contents fcontents) ctx) a n)"
proof -
  let ?G = "handle_inv (posix_storage_ops os rnd) fgood" and ?C = "handle_contents fcontents"
  have m: "mirror_of ?G ?C" by (rule posix_mirror [OF host])
  have t: "fst (infs_storage_read_policy h b k None) \<in> insert (Inl INFS_STATUS_IO_ERROR) (range Inr)"
    if "?G h" for h b k
    using that tame [of _ b k]
    by (auto simp: handle_inv_def infs_storage_read_policy_def infs_storage_read_def with_op_def
        infs_storage_valid_def posix_storage_ops_def posix_read_at_def policy_is_explicit_def
        split: prod.splits sum.splits; force)
  have e: "mirror_read True ctx a n = mirror_read_loop True a n None [0..<mc_count ctx] None ctx"
    by (simp add: mirror_read_def mirror_read_policy_def copies_exceed_def)
  have "\<exists>bs. fst (mirror_read_loop True a n None [0..<mc_count ctx] None ctx) = Inr bs"
    by (rule mirror_of.read_loop_returns [OF m t mirrored upt_subset distinct_upt]) (use alive in auto)
  then obtain bs where bs: "mirror_read True ctx a n = (Inr bs, snd (mirror_read True ctx a n))"
    using e by (auto simp: prod_eq_iff)
  show "fst (mirror_read True ctx a n) = Inr (range_bytes (mirror_contents ?C ctx) a n)"
    using byte_store.rd_bytes [OF mirror_of.mirror_store [OF m] mirrored bs] bs by (simp add: prod_eq_iff)
qed

text \<open>C20: Which device failures a mirrored read survives. If every read of a replica succeeds or
  fails with a device I/O error and the comparison buffer can be allocated, one healthy replica
  that can be read is enough for the mirrored read to succeed with the mirrored bytes. Other
  failures stay visible: when the first healthy replica that does not fail with a device I/O
  error fails with another status, the read returns that status, whatever the later replicas
  hold; and when it succeeds but a later healthy replica cannot be compared for lack of memory,
  the read fails with the out-of-memory status.\<close>

theorem mirror_read_failover:
  assumes host: "posix_host os fgood fcontents"
    and mirrored: "mirror_inv (handle_inv (posix_storage_ops os rnd) fgood) (handle_contents fcontents) ctx"
  shows "((\<forall>f b k. fgood f \<longrightarrow> fst (os_pread_full os f b k) \<in> insert (Inl EIO) (range Inr)) \<and>
      (\<exists>i<mc_count ctx. mirror_member_healthy ctx i \<and>
        fst (infs_storage_read_policy (mc_members ctx ! i) a n None) \<in> range Inr) \<longrightarrow>
      fst (mirror_read True ctx a n) =
        Inr (range_bytes (mirror_contents (handle_contents fcontents) ctx) a n)) \<and>
    (first_answer ctx a n i \<and> fst (infs_storage_read_policy (mc_members ctx ! i) a n None) = Inl status \<longrightarrow>
      fst (mirror_read malloc_ok ctx a n) = Inl status) \<and>
    (first_answer ctx a n i \<and> fst (infs_storage_read_policy (mc_members ctx ! i) a n None) \<in> range Inr \<and>
      i < j \<and> j < mc_count ctx \<and> mirror_member_healthy ctx j \<and> n \<noteq> 0 \<longrightarrow>
      fst (mirror_read False ctx a n) = Inl INFS_STATUS_NO_MEMORY)"
proof (intro conjI impI; elim conjE)
  assume tame: "\<forall>f b k. fgood f \<longrightarrow> fst (os_pread_full os f b k) \<in> insert (Inl EIO) (range Inr)"
    and alive: "\<exists>i<mc_count ctx. mirror_member_healthy ctx i \<and>
        fst (infs_storage_read_policy (mc_members ctx ! i) a n None) \<in> range Inr"
  obtain i where "i < mc_count ctx" "mirror_member_healthy ctx i"
    "fst (infs_storage_read_policy (mc_members ctx ! i) a n None) \<in> range Inr" using alive by blast
  with tame show "fst (mirror_read True ctx a n) =
      Inr (range_bytes (mirror_contents (handle_contents fcontents) ctx) a n)"
    by (intro posix_read_failover [OF assms]) auto
qed (rule first_answer_error first_answer_no_memory; assumption)+

theorem mirror_read_failover_witness:
  "fst (mirror_read True (ram_mirror [\<lparr> dev_bytes = zeros 8, dev_broken = True \<rparr>, \<lparr> dev_bytes = zeros 8, dev_broken = False \<rparr>]
      [True, True]) 2 2) = Inr [0, 0]"
proof -
  let ?ds = "[\<lparr> dev_bytes = zeros 8, dev_broken = True \<rparr>, \<lparr> dev_bytes = zeros 8, dev_broken = False \<rparr>]"
  let ?ctx = "ram_mirror ?ds [True, True]"
  have C: "i < length ?ds \<Longrightarrow> ram_good (?ds ! i) \<and> ram_contents (?ds ! i) = (\<lambda>_. 0)" for i
    by (cases i) (auto simp: ram_good_def ram_contents_def zeros_def fun_eq_iff)
  have I: "mirror_inv ram_handle_inv (handle_contents ram_contents) ?ctx"
    by (rule ram_mirror_inv [OF _ _ _ C, of _ 1]) simp_all
  have "mirror_contents (handle_contents ram_contents) ?ctx = (\<lambda>_. 0)"
    by (simp add: mirror_contents_def first_healthy_def ram_mirror_def handle_contents_def C [of 0, simplified])
  moreover have "fst (mirror_read True ?ctx 2 2) =
      Inr (range_bytes (mirror_contents (handle_contents ram_contents) ?ctx) 2 2)"
  proof (rule mirror_read_failover [OF ram.posix_host_axioms I, THEN conjunct1, THEN mp], intro conjI)
    show "\<exists>i<mc_count ?ctx. mirror_member_healthy ?ctx i \<and>
        fst (infs_storage_read_policy (mc_members ?ctx ! i) 2 2 None) \<in> range Inr"
      by (intro exI [of _ 1]) (simp add: ram_read_status)
  qed (simp add: ram_pread_status)
  ultimately show ?thesis by (simp add: range_bytes_def upt_rec numeral_2_eq_2)
qed

end
