(* ===== verification/Kernel_Base.thy ===== *)
theory Kernel_Base
  imports Posix_Io
begin

text \<open>
  Error values of the Linux kernel sources. A kernel function returns a negative errno or a
  result; the model returns \<open>Inl e\<close> for \<open>-e\<close> and \<open>Inr\<close> for the result, over the errno type of
  the POSIX backend. \<open>EFSCORRUPTED\<close> is \<open>EUCLEAN\<close>, as \<open>kernel/infiltratorfs_format.h\<close> defines it.
\<close>

type_synonym 'a kernel_result = "posix_errno + 'a"

abbreviation (input) "EFSCORRUPTED \<equiv> E_OTHER 117"
abbreviation (input) "ERANGE \<equiv> E_OTHER 34"
abbreviation (input) "ESTALE \<equiv> E_OTHER 116"

text \<open>The errno the kernel uses where the portable code reports a status.\<close>

definition as_kernel :: "infs_status \<Rightarrow> posix_errno" where
  "as_kernel s = (if s = INFS_STATUS_CORRUPT then EFSCORRUPTED else infs_status_to_errno s)"

lemma as_kernel_simps [simp]:
  "as_kernel INFS_STATUS_CORRUPT = EFSCORRUPTED"
  "as_kernel INFS_STATUS_INVALID_ARGUMENT = EINVAL"
  by (simp_all add: as_kernel_def infs_status_to_errno_def)

lemma map_sum_if: "map_sum f g (if b then x else y) = (if b then map_sum f g x else map_sum f g y)"
  by simp

end
