(* ===== verification/Locator.thy ===== *)
theory Locator
  imports Kernel_Base
begin

unbundle bit_operations_syntax

text \<open>
  Recovery locators: \<open>src/locator.c\<close>, its kernel counterpart \<open>kernel/infiltratorfs_locator_format.c\<close>,
  and the readers of \<open>src/fs.c\<close> built on them (\<open>infs_probe_format_signature\<close>,
  \<open>infs_read_best_superblock\<close>). Two fixed blocks and the primary superblock each hold a geometry
  map; discovery reads the checkpoints those maps name and keeps the superblocks that agree with
  the map they were found through. The lemmas show that the codec is canonical and that both
  implementations accept and produce the same blocks, that the planned bootstrap extent avoids
  every fixed block, that discovery only returns validated headers of one file system, and that
  the best header is the newest discovered one.
\<close>

abbreviation (input) "INFS_LOCATOR_SCHEMA_VERSION \<equiv> (1 :: u16)"
abbreviation (input) "INFS_LOCATOR_BLOCK_A \<equiv> (1 :: u64)"
abbreviation (input) "INFS_LOCATOR_BLOCK_B \<equiv> (2047 :: u64)"
abbreviation (input) "INFS_LOCATOR_MIN_VOLUME_BLOCKS \<equiv> (4096 :: u64)"
abbreviation (input) "INFS_LOCATOR_HEADER_BYTES \<equiv> (80 :: nat)"
abbreviation (input) "INFS_CHECKPOINT_COUNT \<equiv> (3 :: nat)"
abbreviation (input) "INFS_LOCATOR_MAX_CANDIDATES \<equiv> (9 :: nat)"

definition locator_magic :: bytes where
  "locator_magic = [0x49, 0x4E, 0x46, 0x53, 0x4C, 0x30, 0x31, 0x39]"

record infs_locator =
  loc_generation :: u64
  loc_total_blocks :: u64
  loc_checkpoint :: "u64 list"
  loc_filesystem_uuid :: bytes

record infs_locator_candidate =
  lc_physical_block :: u64
  lc_declared_total_blocks :: u64
  lc_declared_checkpoint :: "u64 list"
  lc_filesystem_uuid :: bytes
  lc_source_locator :: u8

section \<open>The portable codec\<close>

definition all_zero :: "bytes \<Rightarrow> bool" where
  "all_zero p \<longleftrightarrow> foldl (OR) 0 p = 0"

definition locator_fields_valid :: "infs_locator \<Rightarrow> bool" where
  "locator_fields_valid loc =
     (if loc_generation loc = 0 \<or> loc_total_blocks loc < INFS_LOCATOR_MIN_VOLUME_BLOCKS \<or>
         all_zero (loc_filesystem_uuid loc) \<or> loc_checkpoint loc ! 0 \<noteq> 0
      then False
      else list_all (\<lambda>i. let pos = loc_checkpoint loc ! i in
             \<not> (pos \<ge> loc_total_blocks loc \<or> pos = INFS_LOCATOR_BLOCK_A \<or> pos = INFS_LOCATOR_BLOCK_B) \<and>
             list_all (\<lambda>j. pos \<noteq> loc_checkpoint loc ! j) [i + 1..<INFS_CHECKPOINT_COUNT])
           [0..<INFS_CHECKPOINT_COUNT])"

definition locator_write_fields :: "infs_locator \<Rightarrow> bytes \<Rightarrow> bytes" where
  "locator_write_fields loc block =
     (let block = put_bytes 0 locator_magic block;
          block = put_bytes 8 (put_u16 INFS_LOCATOR_SCHEMA_VERSION) block;
          block = put_bytes 10 (put_u16 80) block;
          block = put_bytes 12 (put_u16 INFS_FORMAT_MAJOR) block;
          block = put_bytes 14 (put_u16 INFS_LOCATOR_FORMAT_MINOR) block;
          block = put_bytes 16 (put_u64 (loc_generation loc)) block;
          block = put_bytes 24 (put_u64 (loc_total_blocks loc)) block;
          block = foldl (\<lambda>b i. put_bytes (32 + i * 8) (put_u64 (loc_checkpoint loc ! i)) b) block
                    [0..<INFS_CHECKPOINT_COUNT]
      in put_bytes 56 (loc_filesystem_uuid loc) block)"

definition infs_locator_encode :: "infs_locator \<Rightarrow> bytes infs_result" where
  "infs_locator_encode loc =
     (if \<not> locator_fields_valid loc then Inl INFS_STATUS_INVALID_ARGUMENT
      else
        let block = locator_write_fields loc (zeros INFS_BLOCK_SIZE)
        in Inr (put_bytes 72 (put_u64 (infs_crc64_ecma block)) block))"

definition locator_read_fields :: "bytes \<Rightarrow> infs_locator" where
  "locator_read_fields block =
     \<lparr> loc_generation = get_u64 (get_bytes 16 8 block), loc_total_blocks = get_u64 (get_bytes 24 8 block),
       loc_checkpoint = map (\<lambda>i. get_u64 (get_bytes (32 + i * 8) 8 block)) [0..<INFS_CHECKPOINT_COUNT],
       loc_filesystem_uuid = get_bytes 56 16 block \<rparr>"

definition infs_locator_decode :: "bytes \<Rightarrow> u64 \<Rightarrow> infs_locator infs_result" where
  "infs_locator_decode block physical_device_blocks =
     (if physical_device_blocks < INFS_LOCATOR_MIN_VOLUME_BLOCKS \<or> get_bytes 0 8 block \<noteq> locator_magic \<or>
         get_u16 (get_bytes 8 2 block) \<noteq> INFS_LOCATOR_SCHEMA_VERSION \<or>
         get_u16 (get_bytes 10 2 block) \<noteq> 80 \<or>
         get_u16 (get_bytes 12 2 block) \<noteq> INFS_FORMAT_MAJOR \<or>
         get_u16 (get_bytes 14 2 block) \<noteq> INFS_LOCATOR_FORMAT_MINOR
      then Inl INFS_STATUS_CORRUPT
      else
        let stored_crc = get_u64 (get_bytes 72 8 block);
            canonical = put_bytes 72 (zeros 8) block
        in if stored_crc \<noteq> infs_crc64_ecma canonical \<or>
              \<not> all_zero (get_bytes INFS_LOCATOR_HEADER_BYTES (INFS_BLOCK_SIZE - INFS_LOCATOR_HEADER_BYTES) block)
           then Inl INFS_STATUS_CORRUPT
           else
             let loc = locator_read_fields block
             in if \<not> locator_fields_valid loc \<or> loc_total_blocks loc > physical_device_blocks
                then Inl INFS_STATUS_CORRUPT else Inr loc)"

section \<open>Placement of the bootstrap metadata\<close>

definition infs_locator_plan_initial_metadata :: "u64 \<Rightarrow> u64 \<Rightarrow> u64 infs_result" where
  "infs_locator_plan_initial_metadata total_blocks metadata_blocks =
     (if total_blocks < INFS_LOCATOR_MIN_VOLUME_BLOCKS \<or> metadata_blocks = 0 \<or> metadata_blocks > total_blocks
      then Inl INFS_STATUS_INVALID_ARGUMENT
      else
        let midpoint = total_blocks div 2
        in if metadata_blocks \<le> INFS_LOCATOR_BLOCK_B - 2 \<and> metadata_blocks < midpoint - 2 then Inr 2
           else if midpoint > INFS_LOCATOR_BLOCK_B + 1 \<and>
                   metadata_blocks < midpoint - (INFS_LOCATOR_BLOCK_B + 1)
           then Inr (INFS_LOCATOR_BLOCK_B + 1)
           else Inl INFS_STATUS_NO_SPACE)"

section \<open>Discovery\<close>

definition locator_hints :: "infs_locator \<Rightarrow> u8 \<Rightarrow> infs_locator_candidate list" where
  "locator_hints loc source =
     map (\<lambda>j. \<lparr> lc_physical_block = loc_checkpoint loc ! j, lc_declared_total_blocks = loc_total_blocks loc,
                lc_declared_checkpoint = map (\<lambda>k. loc_checkpoint loc ! k) [0..<INFS_CHECKPOINT_COUNT],
                lc_filesystem_uuid = loc_filesystem_uuid loc, lc_source_locator = source \<rparr>)
       [0..<INFS_CHECKPOINT_COUNT]"

fun candidates_loop ::
    "infs_locator list \<Rightarrow> u8 \<Rightarrow> u64 \<Rightarrow> nat list \<Rightarrow> infs_locator_candidate list \<Rightarrow>
     infs_locator_candidate list infs_result" where
  "candidates_loop locators valid_mask physical_blocks [] out =
     (if out = [] then Inl INFS_STATUS_CORRUPT else Inr out)"
| "candidates_loop locators valid_mask physical_blocks (i # is) out =
     (if \<not> bit valid_mask i then candidates_loop locators valid_mask physical_blocks is out
      else if \<not> locator_fields_valid (locators ! i) \<or> loc_total_blocks (locators ! i) > physical_blocks
      then Inl INFS_STATUS_CORRUPT
      else candidates_loop locators valid_mask physical_blocks is
             (out @ locator_hints (locators ! i) (word_of_nat i)))"

definition infs_locator_candidates ::
    "infs_locator list \<Rightarrow> u8 \<Rightarrow> u64 \<Rightarrow> infs_locator_candidate list infs_result" where
  "infs_locator_candidates locators valid_mask physical_blocks =
     (if valid_mask AND NOT 3 \<noteq> 0 then Inl INFS_STATUS_INVALID_ARGUMENT
      else if valid_mask AND 3 = 3 \<and> loc_filesystem_uuid (locators ! 0) \<noteq> loc_filesystem_uuid (locators ! 1)
      then Inl INFS_STATUS_CORRUPT
      else candidates_loop locators valid_mask physical_blocks [0..<2] [])"

text \<open>Keep the first failure only.\<close>

definition note_error :: "infs_status \<Rightarrow> infs_status \<Rightarrow> infs_status" where
  "note_error first_read_error status =
     (if first_read_error = INFS_STATUS_OK then status else first_read_error)"

text \<open>\<open>struct infs_locator locator[2] = {0}\<close>.\<close>

definition empty_locator :: infs_locator where
  "empty_locator = \<lparr> loc_generation = 0, loc_total_blocks = 0, loc_checkpoint = replicate 3 0,
     loc_filesystem_uuid = zeros 16 \<rparr>"

fun locator_read_loop ::
    "u64 \<Rightarrow> (nat \<times> u64) list \<Rightarrow> infs_locator list \<Rightarrow> u8 \<Rightarrow> infs_status \<Rightarrow> 'd infs_storage \<Rightarrow>
     infs_locator list \<times> u8 \<times> infs_status \<times> 'd infs_storage" where
  "locator_read_loop physical_blocks [] locator vmask err st = (locator, vmask, err, st)"
| "locator_read_loop physical_blocks ((i, address) # rest) locator vmask err st =
     (case infs_storage_read st (address * 4096) INFS_BLOCK_SIZE of
        (Inl status, st') \<Rightarrow>
          locator_read_loop physical_blocks rest locator vmask (note_error err status) st'
      | (Inr raw, st') \<Rightarrow>
          (case infs_locator_decode raw physical_blocks of
             Inr loc \<Rightarrow> locator_read_loop physical_blocks rest (locator[i := loc]) (vmask OR push_bit i 1) err st'
           | Inl _ \<Rightarrow> locator_read_loop physical_blocks rest locator vmask err st'))"

text \<open>The primary superblock as a geometry map.\<close>

definition primary_map :: "ext_lib \<Rightarrow> bytes \<Rightarrow> infs_locator" where
  "primary_map E raw =
     (let anchor = superblock_of E (get_bytes 0 252 raw)
      in \<lparr> loc_generation = sb_generation anchor, loc_total_blocks = sb_total_blocks anchor,
           loc_checkpoint = map (\<lambda>i. sb_checkpoint_block anchor ! i) [0..<INFS_CHECKPOINT_COUNT],
           loc_filesystem_uuid = sb_filesystem_uuid anchor \<rparr>)"

definition read_primary ::
    "ext_lib \<Rightarrow> u64 \<Rightarrow> infs_status \<Rightarrow> 'd infs_storage \<Rightarrow> infs_locator option \<times> infs_status \<times> 'd infs_storage" where
  "read_primary E physical_blocks err st =
     (case infs_storage_read st 0 INFS_BLOCK_SIZE of
        (Inl status, st') \<Rightarrow> (None, note_error err status, st')
      | (Inr raw, st') \<Rightarrow>
          (if infs_validate_superblock_block_minor E raw INFS_LOCATOR_FORMAT_MINOR \<and>
              locator_fields_valid (primary_map E raw) \<and>
              loc_total_blocks (primary_map E raw) \<le> physical_blocks
           then (Some (primary_map E raw), err, st') else (None, err, st')))"

text \<open>The primary map is added unless a surviving locator describes the same geometry; a
  different identity is corruption.\<close>

fun primary_loop :: "infs_locator \<Rightarrow> infs_locator list \<Rightarrow> u8 \<Rightarrow> nat list \<Rightarrow> bool \<Rightarrow> bool infs_result" where
  "primary_loop primary locator vmask [] same_geometry = Inr same_geometry"
| "primary_loop primary locator vmask (i # is) same_geometry =
     (if \<not> bit vmask i then primary_loop primary locator vmask is same_geometry
      else if loc_filesystem_uuid primary \<noteq> loc_filesystem_uuid (locator ! i) then Inl INFS_STATUS_CORRUPT
      else primary_loop primary locator vmask is
             (same_geometry \<or> loc_total_blocks primary = loc_total_blocks (locator ! i) \<and>
                              loc_checkpoint primary = loc_checkpoint (locator ! i)))"

definition discovery_locations ::
    "infs_locator list \<Rightarrow> u8 \<Rightarrow> u64 \<Rightarrow> infs_locator option \<Rightarrow> infs_locator_candidate list infs_result" where
  "discovery_locations locator vmask physical_blocks primary =
     (case (if vmask \<noteq> 0 then infs_locator_candidates locator vmask physical_blocks else Inr []) of
        Inl status \<Rightarrow> Inl status
      | Inr locations \<Rightarrow>
          (case primary of
             None \<Rightarrow> Inr locations
           | Some p \<Rightarrow>
               (case primary_loop p locator vmask [0..<2] False of
                  Inl status \<Rightarrow> Inl status
                | Inr same_geometry \<Rightarrow> Inr (if same_geometry then locations else locations @ locator_hints p 2))))"

definition header_matches :: "ext_lib \<Rightarrow> infs_locator_candidate \<Rightarrow> bytes \<Rightarrow> bool" where
  "header_matches E hint raw =
     (let sb = superblock_of E (get_bytes 0 252 raw)
      in infs_validate_superblock_block_minor E raw INFS_LOCATOR_FORMAT_MINOR \<and>
         sb_total_blocks sb = lc_declared_total_blocks hint \<and>
         sb_filesystem_uuid sb = lc_filesystem_uuid hint \<and>
         list_all (\<lambda>j. sb_checkpoint_block sb ! j = lc_declared_checkpoint hint ! j) [0..<INFS_CHECKPOINT_COUNT])"

text \<open>One entry per candidate: the accepted header, or \<open>None\<close> where \<open>valid[i]\<close> stays 0.\<close>

fun header_loop ::
    "ext_lib \<Rightarrow> infs_locator_candidate list \<Rightarrow> infs_status \<Rightarrow> 'd infs_storage \<Rightarrow>
     infs_superblock_disk option list \<times> infs_status \<times> 'd infs_storage" where
  "header_loop E [] err st = ([], err, st)"
| "header_loop E (hint # hints) err st =
     (case infs_storage_read st (lc_physical_block hint * 4096) INFS_BLOCK_SIZE of
        (Inl status, st') \<Rightarrow>
          (let (rest, err', st'') = header_loop E hints (note_error err status) st' in (None # rest, err', st''))
      | (Inr raw, st') \<Rightarrow>
          (let (rest, err', st'') = header_loop E hints err st'
           in ((if header_matches E hint raw then Some (superblock_of E (get_bytes 0 252 raw)) else None) # rest,
               err', st'')))"

text \<open>The result carries the status, the headers, the reported read error and the handle; headers
  and read error are only defined on the paths that reach the candidate loop.\<close>

definition infs_locator_discover_019_headers_with_errors ::
    "ext_lib \<Rightarrow> 'd infs_storage \<Rightarrow> u64 \<Rightarrow>
     infs_status \<times> infs_superblock_disk option list \<times> infs_status \<times> 'd infs_storage" where
  "infs_locator_discover_019_headers_with_errors E st physical_size_bytes =
     (let physical_blocks = physical_size_bytes div 4096
      in if \<not> infs_storage_valid st \<or> physical_size_bytes mod 4096 \<noteq> 0 \<or>
            physical_blocks < INFS_LOCATOR_MIN_VOLUME_BLOCKS
         then (INFS_STATUS_INVALID_ARGUMENT, [], INFS_STATUS_OK, st)
         else
           let (locator, vmask, err, st) =
                 locator_read_loop physical_blocks [(0, INFS_LOCATOR_BLOCK_A), (1, INFS_LOCATOR_BLOCK_B)]
                   [empty_locator, empty_locator] 0 INFS_STATUS_OK st;
               (primary, err, st) = read_primary E physical_blocks err st
           in case discovery_locations locator vmask physical_blocks primary of
                Inl status \<Rightarrow> (status, [], INFS_STATUS_OK, st)
              | Inr [] \<Rightarrow>
                  ((if err = INFS_STATUS_OK then INFS_STATUS_CORRUPT else err), [], INFS_STATUS_OK, st)
              | Inr locations \<Rightarrow>
                  (let (headers, err, st) = header_loop E locations err st
                   in ((if \<exists>h \<in> set headers. h \<noteq> None then INFS_STATUS_OK
                        else if err = INFS_STATUS_OK then INFS_STATUS_CORRUPT else err), headers, err, st)))"

definition infs_locator_discover_019_headers ::
    "ext_lib \<Rightarrow> 'd infs_storage \<Rightarrow> u64 \<Rightarrow> infs_superblock_disk option list infs_result \<times> 'd infs_storage" where
  "infs_locator_discover_019_headers E st physical_size_bytes =
     (case infs_locator_discover_019_headers_with_errors E st physical_size_bytes of
        (status, headers, err, st') \<Rightarrow>
          (if status = INFS_STATUS_OK then Inr headers else Inl status, st'))"

section \<open>Readers of the superblock\<close>

definition infs_probe_format_signature ::
    "'d infs_storage \<Rightarrow> (u16 \<times> u16) infs_result \<times> 'd infs_storage" where
  "infs_probe_format_signature st =
     (case infs_storage_read st 0 12 of
        (Inl status, st') \<Rightarrow> (Inl status, st')
      | (Inr prefix, st') \<Rightarrow>
          (if get_bytes 0 8 prefix \<noteq> INFS_MAGIC then Inl INFS_STATUS_NOT_FOUND
           else Inr (ucast (prefix ! 8) OR push_bit 8 (ucast (prefix ! 9)),
                     ucast (prefix ! 10) OR push_bit 8 (ucast (prefix ! 11))), st'))"

text \<open>The index of the valid header with the largest generation, 0 before any was found.\<close>

definition best_step :: "infs_superblock_disk option list \<Rightarrow> nat \<times> u64 \<Rightarrow> nat \<Rightarrow> nat \<times> u64" where
  "best_step headers acc i =
     (case acc of (best, generation) \<Rightarrow>
       if i < length headers then
         (case headers ! i of
            Some sb \<Rightarrow> if sb_generation sb > generation then (i, sb_generation sb) else (best, generation)
          | None \<Rightarrow> (best, generation))
       else (best, generation))"

definition best_header :: "infs_superblock_disk option list \<Rightarrow> infs_superblock_disk" where
  "best_header headers = the (headers ! fst (foldl (best_step headers) (0, 0) [0..<INFS_LOCATOR_MAX_CANDIDATES]))"

fun count_copies ::
    "ext_lib \<Rightarrow> infs_superblock_disk \<Rightarrow> nat list \<Rightarrow> nat \<Rightarrow> 'd infs_storage \<Rightarrow> nat \<times> 'd infs_storage" where
  "count_copies E out [] copies st = (copies, st)"
| "count_copies E out (i # is) copies st =
     (case infs_storage_read st (sb_checkpoint_block out ! i * 4096) INFS_BLOCK_SIZE of
        (Inl _, st') \<Rightarrow> count_copies E out is copies st'
      | (Inr raw, st') \<Rightarrow>
          (case infs_decode_superblock E raw of
             Inl _ \<Rightarrow> count_copies E out is copies st'
           | Inr copy \<Rightarrow>
               count_copies E out is
                 (if sb_total_blocks copy = sb_total_blocks out \<and>
                     sb_filesystem_uuid copy = sb_filesystem_uuid out \<and>
                     sb_checkpoint_block copy = sb_checkpoint_block out
                  then copies + 1 else copies) st'))"

definition infs_read_best_superblock ::
    "ext_lib \<Rightarrow> 'd infs_storage \<Rightarrow> u64 \<Rightarrow> (infs_superblock_disk \<times> nat) infs_result \<times> 'd infs_storage" where
  "infs_read_best_superblock E st size_bytes =
     (case infs_locator_discover_019_headers E st size_bytes of
        (Inl status, st') \<Rightarrow> (Inl status, st')
      | (Inr headers, st') \<Rightarrow>
          (let out = best_header headers;
               (copies, st'') = count_copies E out [0..<INFS_CHECKPOINT_COUNT] 0 st'
           in (Inr (out, copies), st'')))"

section \<open>The kernel codec\<close>

text \<open>The kernel reads the same 80 bytes as a packed structure.\<close>

record infilfs_locator_disk =
  ld_magic :: bytes
  ld_schema :: u16
  ld_header_size :: u16
  ld_major :: u16
  ld_minor :: u16
  ld_generation :: u64
  ld_total_blocks :: u64
  ld_checkpoints :: "u64 list"
  ld_filesystem_uuid :: bytes
  ld_checksum :: u64

definition locator_disk_of :: "ext_lib \<Rightarrow> bytes \<Rightarrow> infilfs_locator_disk" where
  "locator_disk_of E bs = \<lparr> ld_magic = get_bytes 0 8 bs, ld_schema = ld16 E (get_bytes 8 2 bs),
     ld_header_size = ld16 E (get_bytes 10 2 bs), ld_major = ld16 E (get_bytes 12 2 bs),
     ld_minor = ld16 E (get_bytes 14 2 bs), ld_generation = ld64 E (get_bytes 16 8 bs),
     ld_total_blocks = ld64 E (get_bytes 24 8 bs),
     ld_checkpoints = [ld64 E (get_bytes 32 8 bs), ld64 E (get_bytes 40 8 bs), ld64 E (get_bytes 48 8 bs)],
     ld_filesystem_uuid = get_bytes 56 16 bs, ld_checksum = ld64 E (get_bytes 72 8 bs) \<rparr>"

definition locator_disk_bytes :: "ext_lib \<Rightarrow> infilfs_locator_disk \<Rightarrow> bytes" where
  "locator_disk_bytes E d = ld_magic d @ st16 E (ld_schema d) @ st16 E (ld_header_size d) @
     st16 E (ld_major d) @ st16 E (ld_minor d) @ st64 E (ld_generation d) @ st64 E (ld_total_blocks d) @
     st64 E (ld_checkpoints d ! 0) @ st64 E (ld_checkpoints d ! 1) @ st64 E (ld_checkpoints d ! 2) @
     ld_filesystem_uuid d @ st64 E (ld_checksum d)"

definition infilfs_locator_shape_valid :: "infs_locator \<Rightarrow> bool" where
  "infilfs_locator_shape_valid loc =
     (if loc_generation loc = 0 \<or> loc_total_blocks loc < INFS_LOCATOR_MIN_VOLUME_BLOCKS \<or>
         loc_checkpoint loc ! 0 \<noteq> 0
      then False
      else if \<not> foldl (\<lambda>nonzero i. nonzero \<or> loc_filesystem_uuid loc ! i \<noteq> 0) False [0..<16] then False
      else list_all (\<lambda>i. \<not> (loc_checkpoint loc ! i \<ge> loc_total_blocks loc \<or>
                            loc_checkpoint loc ! i = INFS_LOCATOR_BLOCK_A \<or>
                            loc_checkpoint loc ! i = INFS_LOCATOR_BLOCK_B) \<and>
             list_all (\<lambda>j. loc_checkpoint loc ! i \<noteq> loc_checkpoint loc ! j) [i + 1..<INFS_CHECKPOINT_COUNT])
           [0..<INFS_CHECKPOINT_COUNT])"

text \<open>\<open>infilfs_rw_crc64_zeroed\<close> and \<open>infilfs_crc64_block_valid\<close>: the CRC of a buffer with a
  field taken as zero (over a table of the same constants), and the check of a checksum field whose
  first eight bytes hold it.\<close>

fun infilfs_crc64_from :: "nat \<Rightarrow> nat \<Rightarrow> nat \<Rightarrow> u64 \<Rightarrow> bytes \<Rightarrow> u64" where
  "infilfs_crc64_from zero_offset zero_length i crc [] = crc"
| "infilfs_crc64_from zero_offset zero_length i crc (d # data) =
     (let byte = (if i \<ge> zero_offset \<and> i - zero_offset < zero_length then 0 else d)
      in infilfs_crc64_from zero_offset zero_length (i + 1)
           (push_bit 8 crc XOR crc64_ecma_table ! unat (ucast (drop_bit 56 crc XOR ucast byte) :: u8)) data)"

definition infilfs_rw_crc64_zeroed :: "bytes \<Rightarrow> nat \<Rightarrow> nat \<Rightarrow> u64" where
  "infilfs_rw_crc64_zeroed data zero_offset zero_length =
     infilfs_crc64_from zero_offset zero_length 0 0 data"

definition infilfs_crc64_block_valid :: "ext_lib \<Rightarrow> bytes \<Rightarrow> nat \<Rightarrow> nat \<Rightarrow> bool" where
  "infilfs_crc64_block_valid E block checksum_offset checksum_size =
     (if checksum_size < 8 \<or> INFS_BLOCK_SIZE - checksum_size < checksum_offset then False
      else if checksum_size > 8 \<and>
              \<not> list_all (\<lambda>b. b = 0) (get_bytes (checksum_offset + 8) (checksum_size - 8) block) then False
      else ld64 E (get_bytes checksum_offset 8 block) =
           infilfs_rw_crc64_zeroed block checksum_offset checksum_size)"

definition infilfs_locator_decode_019 :: "ext_lib \<Rightarrow> bytes \<Rightarrow> u64 \<Rightarrow> infs_locator kernel_result" where
  "infilfs_locator_decode_019 E block device_blocks =
     (if device_blocks < INFS_LOCATOR_MIN_VOLUME_BLOCKS then Inl EFSCORRUPTED
      else
        let disk = locator_disk_of E block
        in if ld_magic disk \<noteq> locator_magic \<or> ld_schema disk \<noteq> INFS_LOCATOR_SCHEMA_VERSION \<or>
              ld_header_size disk \<noteq> 80 \<or> ld_major disk \<noteq> INFS_FORMAT_MAJOR \<or>
              ld_minor disk \<noteq> INFS_LOCATOR_FORMAT_MINOR \<or>
              \<not> list_all (\<lambda>b. b = 0) (get_bytes 80 (INFS_BLOCK_SIZE - 80) block) \<or>
              \<not> infilfs_crc64_block_valid E block 72 8
           then Inl EFSCORRUPTED
           else
             let candidate = \<lparr> loc_generation = ld_generation disk, loc_total_blocks = ld_total_blocks disk,
                   loc_checkpoint = map (\<lambda>i. ld_checkpoints disk ! i) [0..<INFS_CHECKPOINT_COUNT],
                   loc_filesystem_uuid = ld_filesystem_uuid disk \<rparr>
             in if \<not> infilfs_locator_shape_valid candidate \<or> loc_total_blocks candidate > device_blocks
                then Inl EFSCORRUPTED else Inr candidate)"

definition infilfs_locator_encode_019 :: "ext_lib \<Rightarrow> infs_locator \<Rightarrow> bytes kernel_result" where
  "infilfs_locator_encode_019 E loc =
     (if \<not> infilfs_locator_shape_valid loc then Inl EINVAL
      else
        let disk = \<lparr> ld_magic = locator_magic, ld_schema = INFS_LOCATOR_SCHEMA_VERSION, ld_header_size = 80,
              ld_major = INFS_FORMAT_MAJOR, ld_minor = INFS_LOCATOR_FORMAT_MINOR,
              ld_generation = loc_generation loc, ld_total_blocks = loc_total_blocks loc,
              ld_checkpoints = map (\<lambda>i. loc_checkpoint loc ! i) [0..<INFS_CHECKPOINT_COUNT],
              ld_filesystem_uuid = loc_filesystem_uuid loc, ld_checksum = 0 \<rparr>;
            block = put_bytes 0 (locator_disk_bytes E disk) (zeros INFS_BLOCK_SIZE)
        in Inr (put_bytes 72 (st64 E (infilfs_rw_crc64_zeroed block 72 8)) block))"


section \<open>Canonical layout\<close>

definition locator_wf :: "infs_locator \<Rightarrow> bool" where
  "locator_wf loc \<longleftrightarrow> length (loc_checkpoint loc) = 3 \<and> length (loc_filesystem_uuid loc) = 16"

definition locator_layout :: "infs_locator \<Rightarrow> bytes" where
  "locator_layout loc = locator_magic @ put_u16 1 @ put_u16 80 @ put_u16 0 @ put_u16 19 @
     put_u64 (loc_generation loc) @ put_u64 (loc_total_blocks loc) @
     put_u64 (loc_checkpoint loc ! 0) @ put_u64 (loc_checkpoint loc ! 1) @ put_u64 (loc_checkpoint loc ! 2) @
     loc_filesystem_uuid loc"

section \<open>Reference definitions and examples\<close>

text \<open>The byte order the kernel's conversion helpers are documented to have.\<close>

definition ext_le :: "ext_lib \<Rightarrow> bool" where
  "ext_le E \<longleftrightarrow> ext_ok E \<and> (\<forall>bs. length bs = 2 \<longrightarrow> ld16 E bs = get_u16 bs) \<and>
     (\<forall>bs. length bs = 8 \<longrightarrow> ld64 E bs = get_u64 bs)"

text \<open>The geometry maps an image holds: the two locators and the primary superblock.\<close>

definition primary_valid :: "ext_lib \<Rightarrow> u64 \<Rightarrow> bytes \<Rightarrow> bool" where
  "primary_valid E phys raw \<longleftrightarrow> infs_validate_superblock_block_minor E raw 19 \<and>
     locator_fields_valid (primary_map E raw) \<and> loc_total_blocks (primary_map E raw) \<le> phys"

definition geometry_maps :: "ext_lib \<Rightarrow> (u64 \<Rightarrow> bytes) \<Rightarrow> u64 \<Rightarrow> infs_locator set" where
  "geometry_maps E img phys =
     {m. infs_locator_decode (img 1) phys = Inr m \<or> infs_locator_decode (img 2047) phys = Inr m \<or>
         m = primary_map E (img 0) \<and> primary_valid E phys (img 0)}"

text \<open>The headers discovery may return: superblocks that a map names and that repeat that map.\<close>

definition map_matches :: "ext_lib \<Rightarrow> infs_locator \<Rightarrow> bytes \<Rightarrow> bool" where
  "map_matches E m raw \<longleftrightarrow>
     (let sb = superblock_of E (get_bytes 0 252 raw)
      in infs_validate_superblock_block_minor E raw 19 \<and> sb_total_blocks sb = loc_total_blocks m \<and>
         sb_filesystem_uuid sb = loc_filesystem_uuid m \<and>
         list_all (\<lambda>j. sb_checkpoint_block sb ! j = loc_checkpoint m ! j) [0..<3])"

definition admitted :: "ext_lib \<Rightarrow> (u64 \<Rightarrow> bytes) \<Rightarrow> u64 \<Rightarrow> infs_superblock_disk set" where
  "admitted E img phys =
     {superblock_of E (get_bytes 0 252 (img (loc_checkpoint m ! j))) | m j.
        m \<in> geometry_maps E img phys \<and> j < 3 \<and> map_matches E m (img (loc_checkpoint m ! j))}"

definition identity_conflict :: "ext_lib \<Rightarrow> (u64 \<Rightarrow> bytes) \<Rightarrow> u64 \<Rightarrow> bool" where
  "identity_conflict E img phys \<longleftrightarrow>
     (\<exists>a\<in>geometry_maps E img phys. \<exists>b\<in>geometry_maps E img phys. loc_filesystem_uuid a \<noteq> loc_filesystem_uuid b)"

text \<open>The surviving maps of a pass over the locators and the primary.\<close>

definition surviving :: "infs_locator list \<Rightarrow> u8 \<Rightarrow> infs_locator option \<Rightarrow> infs_locator list" where
  "surviving l m prim =
     (if bit m 0 then [l ! 0] else []) @ (if bit m 1 then [l ! 1] else []) @ (case prim of None \<Rightarrow> [] | Some p \<Rightarrow> [p])"

definition search_hints :: "infs_locator list \<Rightarrow> u8 \<Rightarrow> infs_locator option \<Rightarrow> infs_locator_candidate list" where
  "search_hints l m prim =
     (if bit m 0 then locator_hints (l ! 0) 0 else []) @ (if bit m 1 then locator_hints (l ! 1) 1 else []) @
     (case prim of None \<Rightarrow> []
      | Some p \<Rightarrow> if (\<exists>i<2. bit m i \<and> loc_total_blocks p = loc_total_blocks (l ! i) \<and>
                        loc_checkpoint p = loc_checkpoint (l ! i)) then [] else locator_hints p 2)"

definition copy_agrees :: "ext_lib \<Rightarrow> infs_superblock_disk \<Rightarrow> bytes \<Rightarrow> bool" where
  "copy_agrees E out raw \<longleftrightarrow>
     (case infs_decode_superblock E raw of
        Inl _ \<Rightarrow> False
      | Inr copy \<Rightarrow> sb_total_blocks copy = sb_total_blocks out \<and> sb_filesystem_uuid copy = sb_filesystem_uuid out \<and>
                    sb_checkpoint_block copy = sb_checkpoint_block out)"

definition header_at :: "ext_lib \<Rightarrow> (u64 \<Rightarrow> bytes) \<Rightarrow> infs_locator_candidate \<Rightarrow> infs_superblock_disk option" where
  "header_at E img h =
     (if header_matches E h (img (lc_physical_block h))
      then Some (superblock_of E (get_bytes 0 252 (img (lc_physical_block h)))) else None)"

text \<open>A working in-memory device that holds at least \<open>phys\<close> blocks.\<close>

definition ram_serving :: "(u64 \<Rightarrow> byte) \<Rightarrow> u64 \<Rightarrow> ram_device infs_storage \<Rightarrow> bool" where
  "ram_serving C phys st \<longleftrightarrow>
     (\<exists>d. st = \<lparr> st_ops = Some (posix_storage_ops ram_os ram_random), st_context = Some d \<rparr> \<and>
          ram_good d \<and> ram_contents d = C \<and> \<not> dev_broken d \<and> unat phys * 4096 \<le> length (dev_bytes d))"

definition geometry_of :: "infs_superblock_disk \<Rightarrow> infs_locator" where
  "geometry_of sb = \<lparr> loc_generation = sb_generation sb, loc_total_blocks = sb_total_blocks sb,
     loc_checkpoint = sb_checkpoint_block sb, loc_filesystem_uuid = sb_filesystem_uuid sb \<rparr>"

definition encoded :: "'e + bytes \<Rightarrow> bytes" where
  "encoded r = (case r of Inr b \<Rightarrow> b | Inl _ \<Rightarrow> zeros 4096)"

definition volume_image :: "ext_lib \<Rightarrow> infs_superblock_disk \<Rightarrow> u64 \<Rightarrow> bytes" where
  "volume_image E sb p =
     (if p = 1 \<or> p = 2047 then encoded (infs_locator_encode (geometry_of sb))
      else if p \<in> set (sb_checkpoint_block sb) then encoded (infs_encode_superblock E sb)
      else zeros 4096)"

text \<open>A storage handle that serves an image.\<close>

definition image_ops :: "(u64 \<Rightarrow> bytes) \<Rightarrow> u64 \<Rightarrow> unit infs_storage_ops" where
  "image_ops img phys = \<lparr> op_read_at = Some (\<lambda>c a n.
       (if a mod 4096 = 0 \<and> n = 4096 \<and> a div 4096 < phys then Inr (img (a div 4096)) else Inl INFS_STATUS_IO_ERROR, c)),
     op_write_at = None, op_read_at_policy = None, op_write_at_policy = None, op_flush = None,
     op_get_size = Some (\<lambda>c. (Inr (phys * 4096, True), c)), op_random_bytes = None, op_current_time = None,
     op_close = None \<rparr>"

definition image_storage :: "(u64 \<Rightarrow> bytes) \<Rightarrow> u64 \<Rightarrow> unit infs_storage" where
  "image_storage img phys = \<lparr> st_ops = Some (image_ops img phys), st_context = Some () \<rparr>"

definition example_volume :: infs_superblock_disk where
  "example_volume = example_superblock \<lparr> sb_total_blocks := 5000, sb_checkpoint_block := [0, 2500, 4999] \<rparr>"

definition example_image :: "u64 \<Rightarrow> bytes" where
  "example_image p = (if p < 5000 then volume_image le_lib example_volume p
     else volume_image le_lib example_volume (p * 4096 div 4096))"

definition example_storage :: "unit infs_storage" where
  "example_storage = image_storage (volume_image le_lib example_volume) 5000"

definition example_locator :: infs_locator where
  "example_locator = geometry_of example_volume"

lemma all_zero_iff: "all_zero p \<longleftrightarrow> (\<forall>b\<in>set p. b = 0)"
  using or_bytes_zero_iff [of p] by (simp add: all_zero_def or_bytes_def)

lemma all_zero_get: "all_zero (get_bytes off n b) \<Longrightarrow> off + n \<le> length b \<Longrightarrow> get_bytes off n b = zeros n"
  using all_zero_eq_zeros [of "get_bytes off n b"] by (simp add: all_zero_iff)

lemmas locator_words [simp] = loc16.st_width loc64.st_width loc16.ld_st loc64.ld_st

lemma put_next:
  "length P = off \<Longrightarrow> length ys \<le> k \<Longrightarrow> put_bytes off ys (P @ zeros k) = (P @ ys) @ zeros (k - length ys)"
  by (simp add: put_bytes_def zeros_def)

lemma locator_magic_length [simp]: "length locator_magic = 8"
  by (simp add: locator_magic_def)

lemma length_locator_layout [simp]: "locator_wf loc \<Longrightarrow> length (locator_layout loc) = 72"
  by (simp add: locator_layout_def locator_wf_def)

lemma put_first: "length ys \<le> k \<Longrightarrow> put_bytes 0 ys (zeros k) = ys @ zeros (k - length ys)"
  by (simp add: put_bytes_def zeros_def)

lemma write_fields_layout:
  "locator_wf loc \<Longrightarrow> locator_write_fields loc (zeros 4096) = locator_layout loc @ zeros 4024"
  by (simp add: locator_write_fields_def locator_layout_def locator_wf_def put_first put_next upt_rec
      numeral_2_eq_2 flip: append_assoc)

lemma locator_encode_layout:
  assumes "locator_wf loc" "locator_fields_valid loc"
  shows "infs_locator_encode loc =
    Inr (locator_layout loc @ put_u64 (infs_crc64_ecma (locator_layout loc @ zeros 4024)) @ zeros 4016)"
  using assms by (simp add: infs_locator_encode_def write_fields_layout put_next)

lemma locator_fields_of_layout:
  assumes "locator_wf loc" "block = locator_layout loc @ rest"
  shows "locator_read_fields block = loc" "get_bytes 0 8 block = locator_magic"
    "get_u16 (get_bytes 8 2 block) = 1" "get_u16 (get_bytes 10 2 block) = 80"
    "get_u16 (get_bytes 12 2 block) = 0" "get_u16 (get_bytes 14 2 block) = 19"
proof -
  have "[loc_checkpoint loc ! 0, loc_checkpoint loc ! 1, loc_checkpoint loc ! 2] = loc_checkpoint loc"
    using assms(1) by (auto simp: locator_wf_def numeral_3_eq_3 length_Suc_conv)
  then show "locator_read_fields block = loc"
    using assms unfolding locator_read_fields_def
    by (simp add: locator_layout_def locator_wf_def buffer_simps upt_rec)
qed (use assms in \<open>simp_all add: locator_layout_def buffer_simps\<close>)

lemma layout_of_block:
  assumes "length block = 4096" "get_bytes 0 8 block = locator_magic"
    "get_u16 (get_bytes 8 2 block) = 1" "get_u16 (get_bytes 10 2 block) = 80"
    "get_u16 (get_bytes 12 2 block) = 0" "get_u16 (get_bytes 14 2 block) = 19"
  shows "locator_layout (locator_read_fields block) = get_bytes 0 72 block"
    "locator_wf (locator_read_fields block)"
proof -
  have w: "put_u16 (get_u16 (get_bytes o' 2 block)) = get_bytes o' 2 block" if "o' + 2 \<le> 4096" for o'
    using that assms(1) by (intro loc16.st_ld) simp
  have x: "put_u64 (get_u64 (get_bytes o' 8 block)) = get_bytes o' 8 block" if "o' + 8 \<le> 4096" for o'
    using that assms(1) by (intro loc64.st_ld) simp
  show "locator_layout (locator_read_fields block) = get_bytes 0 72 block"
    unfolding locator_layout_def locator_read_fields_def
    using assms w [of 8] w [of 10] w [of 12] w [of 14]
    by (simp add: x get_join upt_rec flip: assms(2))
  show "locator_wf (locator_read_fields block)"
    using assms(1) by (simp add: locator_wf_def locator_read_fields_def)
qed

lemma locator_decode_layout:
  assumes "length block = 4096"
  shows "infs_locator_decode block dev = Inr loc \<longleftrightarrow>
    4096 \<le> dev \<and> locator_wf loc \<and> locator_fields_valid loc \<and> loc_total_blocks loc \<le> dev \<and>
    infs_locator_encode loc = Inr block"
proof
  assume d: "infs_locator_decode block dev = Inr loc"
  then have h: "4096 \<le> dev" "get_bytes 0 8 block = locator_magic"
    "get_u16 (get_bytes 8 2 block) = 1" "get_u16 (get_bytes 10 2 block) = 80"
    "get_u16 (get_bytes 12 2 block) = 0" "get_u16 (get_bytes 14 2 block) = 19"
    and crc: "get_u64 (get_bytes 72 8 block) = infs_crc64_ecma (put_bytes 72 (zeros 8) block)"
    and z: "all_zero (get_bytes 80 4016 block)" and loc: "loc = locator_read_fields block"
    and v: "locator_fields_valid loc" "loc_total_blocks loc \<le> dev"
    by (auto simp: infs_locator_decode_def Let_def not_less split: if_splits)
  note lay = layout_of_block [OF assms h(2-6), folded loc]
  have tl: "get_bytes 80 4016 block = zeros 4016" by (rule all_zero_get [OF z]) (simp add: assms)
  have eight: "get_bytes 72 8 block = put_u64 (infs_crc64_ecma (put_bytes 72 (zeros 8) block))"
    using loc64.st_ld [of "get_bytes 72 8 block"] crc assms by simp
  have block: "block = get_bytes 0 72 block @ get_bytes 72 8 block @ get_bytes 80 4016 block"
    using assms by (simp add: get_join get_whole)
  have "put_bytes 72 (zeros 8) block = locator_layout loc @ zeros 8 @ zeros 4016"
    by (subst block) (simp add: put_bytes_def lay(1) tl assms)
  then have "put_bytes 72 (zeros 8) block = locator_layout loc @ zeros 4024"
    by (simp add: zeros_def flip: replicate_add)
  then show "4096 \<le> dev \<and> locator_wf loc \<and> locator_fields_valid loc \<and> loc_total_blocks loc \<le> dev \<and>
    infs_locator_encode loc = Inr block"
    using h(1) v lay block tl eight by (simp add: locator_encode_layout)
next
  assume a: "4096 \<le> dev \<and> locator_wf loc \<and> locator_fields_valid loc \<and> loc_total_blocks loc \<le> dev \<and>
    infs_locator_encode loc = Inr block"
  define crc where "crc = infs_crc64_ecma (locator_layout loc @ zeros 4024)"
  have b: "block = locator_layout loc @ put_u64 crc @ zeros 4016"
    using a locator_encode_layout [of loc] by (auto simp: crc_def)
  have "put_bytes 72 (zeros 8) block = locator_layout loc @ zeros 8 @ zeros 4016"
    unfolding b using a by (simp add: put_bytes_def)
  then have p: "put_bytes 72 (zeros 8) block = locator_layout loc @ zeros 4024"
    by (simp add: zeros_def flip: replicate_add)
  have "get_u64 (get_bytes 72 8 block) = crc" "get_bytes 80 4016 block = zeros 4016"
    unfolding b using a by (simp_all add: buffer_simps)
  then show "infs_locator_decode block dev = Inr loc"
    using a p locator_fields_of_layout [of loc block, OF _ b]
    by (simp add: infs_locator_decode_def Let_def crc_def all_zero_iff zeros_def not_less)
qed

section \<open>The kernel codec\<close>

lemma ext_le_st:
  assumes "ext_le E"
  shows "st16 E v = put_u16 v" "st64 E w = put_u64 w"
proof -
  have ext: "ext_ok E" using assms by (simp add: ext_le_def)
  have "st16 E (ld16 E (put_u16 v)) = put_u16 v" "st64 E (ld64 E (put_u64 w)) = put_u64 w"
    by (simp_all add: byte_codec.st_ld [OF ext_okD(1) [OF ext]] byte_codec.st_ld [OF ext_okD(3) [OF ext]])
  then show "st16 E v = put_u16 v" "st64 E w = put_u64 w"
    using assms by (simp_all add: ext_le_def)
qed

lemma crc64_from_map:
  "infilfs_crc64_from zo zl i crc data =
     crc64_loop crc (map (\<lambda>(j, d). if zo \<le> j \<and> j - zo < zl then 0 else d) (enumerate i data))"
  by (induction data arbitrary: i crc) (simp_all add: Let_def xor.commute)

lemma rw_crc64_zeroed:
  assumes "zo + zl \<le> length data"
  shows "infilfs_rw_crc64_zeroed data zo zl = infs_crc64_ecma (put_bytes zo (zeros zl) data)"
proof -
  have "map (\<lambda>(j, d). if zo \<le> j \<and> j - zo < zl then 0 else d) (enumerate 0 data) = put_bytes zo (zeros zl) data"
    using assms by (intro nth_equalityI) (auto simp: nth_enumerate_eq nth_put zeros_def)
  then show ?thesis by (simp add: infilfs_rw_crc64_zeroed_def infs_crc64_ecma_def crc64_from_map)
qed

lemma shape_valid_eq: "locator_wf loc \<Longrightarrow> infilfs_locator_shape_valid loc = locator_fields_valid loc"
proof -
  assume wf: "locator_wf loc"
  have f: "foldl (\<lambda>nonzero i. nonzero \<or> P i) a is = (a \<or> (\<exists>i\<in>set is. P i))" for P a and "is" :: "nat list"
    by (induction "is" arbitrary: a) auto
  have "(\<exists>i\<in>set [0..<16]. loc_filesystem_uuid loc ! i \<noteq> 0) \<longleftrightarrow> \<not> all_zero (loc_filesystem_uuid loc)"
    using wf by (auto simp: all_zero_iff locator_wf_def all_set_conv_all_nth)
  then show ?thesis
    unfolding infilfs_locator_shape_valid_def locator_fields_valid_def f Let_def by auto
qed

lemma kernel_decode_eq:
  assumes "ext_le E" "length block = 4096"
  shows "infilfs_locator_decode_019 E block dev = map_sum as_kernel (\<lambda>x. x) (infs_locator_decode block dev)"
proof -
  have l16: "a + 2 \<le> 4096 \<Longrightarrow> ld16 E (get_bytes a 2 block) = get_u16 (get_bytes a 2 block)"
    and l64: "a + 8 \<le> 4096 \<Longrightarrow> ld64 E (get_bytes a 8 block) = get_u64 (get_bytes a 8 block)" for a
    using assms by (simp_all add: ext_le_def)
  have c: "infilfs_crc64_block_valid E block 72 8 \<longleftrightarrow>
      get_u64 (get_bytes 72 8 block) = infs_crc64_ecma (put_bytes 72 (zeros 8) block)"
    using assms(2) by (simp add: infilfs_crc64_block_valid_def l64 rw_crc64_zeroed)
  have z: "list_all (\<lambda>b. b = 0) (get_bytes 80 4016 block) \<longleftrightarrow> all_zero (get_bytes 80 4016 block)"
    by (simp add: all_zero_iff list_all_iff)
  define loc where "loc = locator_read_fields block"
  have "locator_wf loc" using assms(2) by (simp add: loc_def locator_wf_def locator_read_fields_def)
  then have v: "infilfs_locator_shape_valid loc = locator_fields_valid loc" by (rule shape_valid_eq)
  have r: "\<lparr> loc_generation = ld_generation (locator_disk_of E block),
      loc_total_blocks = ld_total_blocks (locator_disk_of E block),
      loc_checkpoint = map (\<lambda>i. ld_checkpoints (locator_disk_of E block) ! i) [0..<3],
      loc_filesystem_uuid = ld_filesystem_uuid (locator_disk_of E block) \<rparr> = loc"
    by (simp add: loc_def locator_disk_of_def locator_read_fields_def l64 upt_rec)
  show ?thesis
    unfolding infilfs_locator_decode_019_def infs_locator_decode_def Let_def r v c loc_def [symmetric]
    using z by (simp add: locator_disk_of_def l16)
qed

lemma kernel_encode_eq:
  assumes "ext_le E" "locator_wf loc"
  shows "infilfs_locator_encode_019 E loc = map_sum as_kernel (\<lambda>x. x) (infs_locator_encode loc)"
proof -
  let ?d = "\<lparr> ld_magic = locator_magic, ld_schema = 1, ld_header_size = 80, ld_major = 0, ld_minor = 19,
      ld_generation = loc_generation loc, ld_total_blocks = loc_total_blocks loc,
      ld_checkpoints = map (\<lambda>i. loc_checkpoint loc ! i) [0..<3],
      ld_filesystem_uuid = loc_filesystem_uuid loc, ld_checksum = 0 \<rparr>"
  have "locator_disk_bytes E ?d = locator_layout loc @ put_u64 0"
    by (simp add: locator_disk_bytes_def locator_layout_def ext_le_st [OF assms(1)] upt_rec numeral_2_eq_2)
  then have b: "put_bytes 0 (locator_disk_bytes E ?d) (zeros 4096) = locator_layout loc @ zeros 8 @ zeros 4016"
    using assms(2) by (simp add: put_first loc64.st_zero)
  then have b': "put_bytes 0 (locator_disk_bytes E ?d) (zeros 4096) = locator_layout loc @ zeros 4024"
    by (simp add: zeros_def flip: replicate_add)
  have "put_bytes 72 (zeros 8) (locator_layout loc @ zeros 8 @ zeros 4016) = locator_layout loc @ zeros 8 @ zeros 4016"
    using assms(2) by (simp add: put_bytes_def)
  then have c: "infilfs_rw_crc64_zeroed (locator_layout loc @ zeros 4024) 72 8 =
      infs_crc64_ecma (locator_layout loc @ zeros 4024)"
    using assms(2) b b' by (simp add: rw_crc64_zeroed)
  show ?thesis
    unfolding infilfs_locator_encode_019_def infs_locator_encode_def shape_valid_eq [OF assms(2)] Let_def b'
      write_fields_layout [OF assms(2)] c ext_le_st [OF assms(1)] map_sum_if by simp
qed

section \<open>Placement\<close>

lemma plan_avoids:
  assumes "infs_locator_plan_initial_metadata blocks n = Inr root" "p < n"
  shows "root + p \<notin> {0, 1, 2047, blocks div 2, blocks - 1} \<and> root + p < blocks div 2 \<and> root \<le> root + p"
proof -
  have r: "root = 2 \<and> n \<le> 2045 \<and> n < blocks div 2 - 2 \<or>
      root = 2048 \<and> blocks div 2 > 2048 \<and> n < blocks div 2 - 2048" and t: "4096 \<le> blocks"
    using assms(1) by (auto simp: infs_locator_plan_initial_metadata_def Let_def not_less split: if_splits)
  have u: "unat (blocks div 2) = unat blocks div 2" by (simp add: unat_div)
  have T: "4096 \<le> unat blocks" using t by (simp add: word_le_nat_alt)
  have p: "unat p < unat n" using assms(2) by (simp add: word_less_nat_alt)
  from r show ?thesis
  proof
    assume r: "root = 2 \<and> n \<le> 2045 \<and> n < blocks div 2 - 2"
    have s: "unat (blocks div 2 - 2) = unat blocks div 2 - 2"
      using T u by (simp add: unat_sub word_le_nat_alt)
    have "unat n \<le> 2045" "unat n < unat blocks div 2 - 2"
      using r s by (simp_all add: word_le_nat_alt word_less_nat_alt)
    moreover have "unat (2 + p) = 2 + unat p"
      using p \<open>unat n \<le> 2045\<close> by (simp add: unat_word_ariths)
    moreover have "unat (blocks - 1) = unat blocks - 1" using T by (simp add: unat_sub word_le_nat_alt)
    ultimately show ?thesis
      unfolding conjunct1 [OF r] using p u T by (auto simp: word_unat_eq_iff word_less_nat_alt word_le_nat_alt)
  next
    assume r: "root = 2048 \<and> blocks div 2 > 2048 \<and> n < blocks div 2 - 2048"
    have m: "2048 < unat blocks div 2" using r u by (simp add: word_less_nat_alt)
    have s: "unat (blocks div 2 - 2048) = unat blocks div 2 - 2048"
      using m u by (simp add: unat_sub word_le_nat_alt)
    have n: "unat n < unat blocks div 2 - 2048"
      using r s by (simp add: word_less_nat_alt)
    moreover have "unat (2048 + p) = 2048 + unat p"
      using p n unsigned_less [of blocks, where ?'a = nat] by (simp add: unat_word_ariths)
    moreover have "unat (blocks - 1) = unat blocks - 1" using T by (simp add: unat_sub word_le_nat_alt)
    ultimately show ?thesis
      unfolding conjunct1 [OF r] using p u T by (auto simp: word_unat_eq_iff word_less_nat_alt word_le_nat_alt)
  qed
qed

section \<open>Discovery over a block image\<close>

lemma mask3_cases:
  fixes m :: u8
  assumes "\<And>i. bit m i \<Longrightarrow> i < 2"
  obtains "m = 0" | "m = 1" | "m = 2" | "m = 3"
proof -
  have "m = (if bit m 0 then 1 else 0) OR (if bit m 1 then 2 else 0)"
  proof (rule bit_word_eqI)
    fix n assume "n < LENGTH(8)"
    show "bit m n \<longleftrightarrow> bit ((if bit m 0 then 1 else 0) OR (if bit m 1 then 2 else 0) :: u8) n"
      using assms [of n] by (cases "n = 0"; cases "n = 1") (auto simp: bit_or_iff bit_1_iff bit_2_iff)
  qed
  then show ?thesis using that by (auto split: if_splits)
qed

lemma bits3 [simp]:
  "bit (1 :: u8) 0" "\<not> bit (1 :: u8) (Suc 0)" "\<not> bit (2 :: u8) 0" "bit (2 :: u8) (Suc 0)" "bit (3 :: u8) 0" "bit (3 :: u8) (Suc 0)"
  by (simp_all add: bit_1_iff bit_2_iff bit_numeral_rec)

lemma hints_nonempty [simp]: "locator_hints m src \<noteq> []"
  by (simp add: locator_hints_def)

lemma discovery_locations_eq:
  assumes "\<And>i. bit m i \<Longrightarrow> i < 2"
    and "\<And>mp. mp \<in> set (surviving l m prim) \<Longrightarrow> locator_fields_valid mp \<and> loc_total_blocks mp \<le> phys"
  shows "discovery_locations l m phys prim =
    (if \<exists>a\<in>set (surviving l m prim). \<exists>b\<in>set (surviving l m prim). loc_filesystem_uuid a \<noteq> loc_filesystem_uuid b
     then Inl INFS_STATUS_CORRUPT
     else Inr (search_hints l m prim))"
proof -
  have two: "[0..<2] = [0, Suc 0]" by (simp add: upt_rec)
  have ex: "(\<exists>i<2. P i) \<longleftrightarrow> P 0 \<or> P (Suc 0)" for P :: "nat \<Rightarrow> bool"
    by (auto simp: less_2_cases_iff)
  have v: "bit m 0 \<Longrightarrow> locator_fields_valid (l ! 0) \<and> loc_total_blocks (l ! 0) \<le> phys"
    "bit m 1 \<Longrightarrow> locator_fields_valid (l ! 1) \<and> loc_total_blocks (l ! 1) \<le> phys"
    using assms(2) by (simp_all add: surviving_def)
  note d = discovery_locations_def infs_locator_candidates_def two ex surviving_def search_hints_def not_less
  show ?thesis
  proof (rule mask3_cases [of m])
    show "bit m i \<Longrightarrow> i < 2" for i by (rule assms(1))
  next
    assume "m = 0"
    then show ?thesis by (cases prim) (simp_all add: d)
  next
    assume "m = 1"
    then show ?thesis using v(1) by (cases prim) (auto simp: d)
  next
    assume "m = 2"
    then show ?thesis using v(2) by (cases prim) (auto simp: d)
  next
    assume "m = 3"
    then show ?thesis using v by (cases prim) (auto simp: d)
  qed
qed

lemma hint_fields:
  assumes "j < 3"
  shows "lc_physical_block (locator_hints m src ! j) = loc_checkpoint m ! j"
    "header_matches E (locator_hints m src ! j) raw = map_matches E m raw"
  using assms by (simp_all add: locator_hints_def header_matches_def map_matches_def list_all_iff)

lemma length_hints [simp]: "length (locator_hints m src) = 3"
  by (simp add: locator_hints_def)

lemma in_hints: "h \<in> set (locator_hints m src) \<longleftrightarrow> (\<exists>j<3. h = locator_hints m src ! j)"
  by (auto simp: in_set_conv_nth)

lemma decode_fields:
  "infs_locator_decode raw phys = Inr m \<Longrightarrow> locator_fields_valid m \<and> loc_total_blocks m \<le> phys"
  by (auto simp: infs_locator_decode_def Let_def not_less split: if_splits)

lemma geometry_map_fields:
  "m \<in> geometry_maps E img phys \<Longrightarrow> locator_fields_valid m \<and> loc_total_blocks m \<le> phys"
  using decode_fields by (auto simp: geometry_maps_def primary_valid_def)

lemma fields_valid_checkpoint:
  assumes "locator_fields_valid m" "j < 3"
  shows "loc_checkpoint m ! j < loc_total_blocks m" "loc_checkpoint m ! j \<noteq> 1" "loc_checkpoint m ! j \<noteq> 2047"
    "loc_checkpoint m ! 0 = 0"
  using assms by (auto simp: locator_fields_valid_def list_all_iff Let_def not_le split: if_splits)

lemma length_search_hints: "length (search_hints l m prim) \<le> 9"
  by (simp add: search_hints_def split: option.split)

lemma search_hints_sound:
  "h \<in> set (search_hints l m prim) \<Longrightarrow>
   \<exists>mp\<in>set (surviving l m prim). \<exists>src. \<exists>j<3. h = locator_hints mp src ! j"
  by (auto simp: search_hints_def surviving_def in_hints split: if_splits option.splits)

lemma search_hints_complete:
  assumes "mp \<in> set (surviving l m prim)" "j < 3"
    and "\<And>a b. a \<in> set (surviving l m prim) \<Longrightarrow> b \<in> set (surviving l m prim) \<Longrightarrow>
      loc_filesystem_uuid a = loc_filesystem_uuid b"
  shows "\<exists>h\<in>set (search_hints l m prim). lc_physical_block h = loc_checkpoint mp ! j \<and>
    (\<forall>raw. header_matches E h raw = map_matches E mp raw)"
proof -
  have direct: "\<exists>h\<in>set (search_hints l m prim). lc_physical_block h = loc_checkpoint q ! j \<and>
      (\<forall>raw. header_matches E h raw = map_matches E q raw)"
    if "set (locator_hints q src) \<subseteq> set (search_hints l m prim)" for q src
    using that assms(2) hint_fields(1) [OF assms(2), of q src] hint_fields(2) [OF assms(2), of E q src]
    by (intro bexI [of _ "locator_hints q src ! j"]) auto
  have loc: "\<exists>h\<in>set (search_hints l m prim). lc_physical_block h = loc_checkpoint (l ! i) ! j \<and>
      (\<forall>raw. header_matches E h raw = map_matches E (l ! i) raw)" if "bit m i" "i < 2" for i
  proof (rule direct)
    show "set (locator_hints (l ! i) (word_of_nat i)) \<subseteq> set (search_hints l m prim)"
      using that by (auto simp: search_hints_def less_2_cases_iff)
  qed
  consider "bit m 0 \<and> mp = l ! 0" | "bit m 1 \<and> mp = l ! 1" | "prim = Some mp"
    using assms(1) by (auto simp: surviving_def split: if_splits option.splits)
  then show ?thesis
  proof cases
    case 1
    then show ?thesis using loc [of 0] by simp
  next
    case 2
    then show ?thesis using loc [of 1] by simp
  next
    case prim: 3
    show ?thesis
    proof (cases "\<exists>i<2. bit m i \<and> loc_total_blocks mp = loc_total_blocks (l ! i) \<and>
        loc_checkpoint mp = loc_checkpoint (l ! i)")
      case True
      then obtain i where i: "i < 2" "bit m i" "loc_total_blocks mp = loc_total_blocks (l ! i)"
        "loc_checkpoint mp = loc_checkpoint (l ! i)" by blast
      then have "l ! i \<in> set (surviving l m prim)" by (auto simp: surviving_def less_2_cases_iff)
      then have "loc_filesystem_uuid mp = loc_filesystem_uuid (l ! i)" using assms(1,3) by blast
      then have "map_matches E mp raw = map_matches E (l ! i) raw" for raw
        using i by (simp add: map_matches_def)
      then show ?thesis using loc [OF i(2,1)] i(4) by simp
    next
      case False
      show ?thesis
      proof (rule direct)
        show "set (locator_hints mp 2) \<subseteq> set (search_hints l m prim)"
          unfolding search_hints_def prim option.case if_not_P [OF False] by auto
      qed
    qed
  qed
qed

lemma header_at_Some: "header_at E img h = Some sb \<longleftrightarrow> header_matches E h (img (lc_physical_block h)) \<and>
    sb = superblock_of E (get_bytes 0 252 (img (lc_physical_block h)))"
  by (auto simp: header_at_def)

section \<open>The best header\<close>

lemma best_fold:
  assumes "foldl (best_step hs) (0, 0) [0..<k] = (b, g)"
  shows "(\<forall>i<k. i < length hs \<longrightarrow> (\<forall>sb. hs ! i = Some sb \<longrightarrow> sb_generation sb \<le> g)) \<and>
    (g \<noteq> 0 \<longrightarrow> b < length hs \<and> (\<exists>sb. hs ! b = Some sb \<and> sb_generation sb = g))"
  using assms
proof (induction k arbitrary: b g)
  case 0
  then show ?case by simp
next
  case (Suc k)
  obtain b1 g1 where f: "foldl (best_step hs) (0, 0) [0..<k] = (b1, g1)" by fastforce
  note IH = Suc.IH [OF f]
  have st: "best_step hs (b1, g1) k = (b, g)" using Suc.prems f by simp
  show ?case
  proof (cases "k < length hs \<and> (\<exists>sb. hs ! k = Some sb \<and> sb_generation sb > g1)")
    case True
    then obtain sb where sb: "k < length hs" "hs ! k = Some sb" "g1 < sb_generation sb" by blast
    then have "b = k" "g = sb_generation sb" using st by (auto simp: best_step_def)
    then show ?thesis
      using IH sb by (auto simp: less_Suc_eq intro: order_trans less_imp_le)
  next
    case False
    then have "b = b1" "g = g1" using st by (auto simp: best_step_def split: if_splits option.splits)
    then show ?thesis using IH False by (auto simp: less_Suc_eq not_less)
  qed
qed

lemma best_header_newest:
  assumes "length hs \<le> 9" "Some sb \<in> set hs" "\<And>x. Some x \<in> set hs \<Longrightarrow> sb_generation x \<noteq> 0"
  shows "Some (best_header hs) \<in> set hs" "Some x \<in> set hs \<Longrightarrow> sb_generation x \<le> sb_generation (best_header hs)"
proof -
  obtain b g where f: "foldl (best_step hs) (0, 0) [0..<9] = (b, g)" by fastforce
  note F = best_fold [OF f]
  have le: "sb_generation x \<le> g" if x: "Some x \<in> set hs" for x
  proof -
    obtain i where i: "i < length hs" "hs ! i = Some x" using x by (auto simp: in_set_conv_nth)
    then have "i < 9" using assms(1) by simp
    then show ?thesis using conjunct1 [OF F] i by blast
  qed
  have "g \<noteq> 0" using le [OF assms(2)] assms(3) [OF assms(2)] by (auto simp: word_le_0_iff)
  then obtain s' where s': "b < length hs" "hs ! b = Some s'" "sb_generation s' = g" using F by blast
  then have bh: "best_header hs = s'" by (simp add: best_header_def f)
  show "Some (best_header hs) \<in> set hs" using bh s' nth_mem [of b hs] by simp
  show "Some x \<in> set hs \<Longrightarrow> sb_generation x \<le> sb_generation (best_header hs)" using bh s' le by simp
qed

lemma admitted_valid:
  assumes "sb \<in> admitted E img phys"
  obtains m j where "m \<in> geometry_maps E img phys" "j < 3"
    "infs_validate_superblock_block E (img (loc_checkpoint m ! j))"
    "sb = superblock_of E (get_bytes 0 252 (img (loc_checkpoint m ! j)))"
    "sb_checkpoint_block sb ! j = loc_checkpoint m ! j" "sb_checkpoint_block sb = loc_checkpoint m"
    "sb_total_blocks sb = loc_total_blocks m" "sb_filesystem_uuid sb = loc_filesystem_uuid m"
proof -
  obtain m j where m: "m \<in> geometry_maps E img phys" "j < 3" "map_matches E m (img (loc_checkpoint m ! j))"
    "sb = superblock_of E (get_bytes 0 252 (img (loc_checkpoint m ! j)))"
    using assms by (auto simp: admitted_def)
  have len: "length (loc_checkpoint m) = 3" using m(1)
    by (auto simp: geometry_maps_def primary_map_def Let_def infs_locator_decode_def locator_read_fields_def
        split: if_splits)
  have "sb_checkpoint_block sb = loc_checkpoint m"
    using m(3) len unfolding m(4) map_matches_def Let_def
    by (intro nth_equalityI) (auto simp: superblock_of_def list_all_iff)
  then show ?thesis
    using that [OF m(1,2) _ m(4)] m(2,3) by (auto simp: map_matches_def Let_def m(4) infs_validate_superblock_block_def)
qed

lemma admitted_generation: "sb \<in> admitted E img phys \<Longrightarrow> sb_generation sb \<noteq> 0"
  by (auto elim!: admitted_valid simp: validate_superblock_iff superblock_fields_ok_def)

locale block_reader =
  fixes good :: "'d infs_storage \<Rightarrow> bool"
    and img :: "u64 \<Rightarrow> bytes"
    and phys :: u64
  assumes rd_valid: "good st \<Longrightarrow> infs_storage_valid st"
    and rd_keeps: "good st \<Longrightarrow> infs_storage_read st a n = (r, st') \<Longrightarrow> good st'"
    and rd_image: "good st \<Longrightarrow> infs_storage_read st (p * 4096) 4096 = (Inr bs, st') \<Longrightarrow> bs = img p"
    and img_length: "length (img p) = 4096"
begin

lemma locator_read_loop_ok:
  "good st \<Longrightarrow> locator_read_loop phys as l m err st = (l', m', err', st') \<Longrightarrow> length l = 2 \<Longrightarrow>
   (\<And>i a. (i, a) \<in> set as \<Longrightarrow> i < 2 \<and> a = (if i = 0 then 1 else 2047)) \<Longrightarrow>
   (\<And>i. bit m i \<Longrightarrow> i < 2 \<and> infs_locator_decode (img (if i = 0 then 1 else 2047)) phys = Inr (l ! i)) \<Longrightarrow>
   good st' \<and> (\<forall>i. bit m' i \<longrightarrow> i < 2 \<and> infs_locator_decode (img (if i = 0 then 1 else 2047)) phys = Inr (l' ! i))"
proof (induction "as" arbitrary: l m err st)
  case Nil
  then show ?case by auto
next
  case (Cons x "as")
  obtain i a where x: "x = (i, a)" by (cases x)
  have i: "i < 2" "a = (if i = 0 then 1 else 2047)" using Cons.prems(4) [of i a] x by auto
  obtain q st1 where q: "infs_storage_read st (a * 4096) 4096 = (q, st1)" by fastforce
  note g = rd_keeps [OF Cons.prems(1) q]
  have rest: "\<And>i a. (i, a) \<in> set as \<Longrightarrow> i < 2 \<and> a = (if i = 0 then 1 else 2047)"
    by (rule Cons.prems(4)) simp
  consider e where "locator_read_loop phys as l m e st1 = (l', m', err', st')"
    | loc where "infs_locator_decode (img a) phys = Inr loc"
      "locator_read_loop phys as (l[i := loc]) (m OR push_bit i 1) err st1 = (l', m', err', st')"
    using Cons.prems(2) q x rd_image [OF Cons.prems(1), of a _ st1]
    by (cases q) (auto split: sum.splits)
  then show ?case
  proof cases
    case 1
    then show ?thesis using Cons.IH [OF g 1 Cons.prems(3) rest Cons.prems(5)] by blast
  next
    case 2
    have keep: "k < 2 \<and> infs_locator_decode (img (if k = 0 then 1 else 2047)) phys = Inr (l[i := loc] ! k)"
      if "bit (m OR push_bit i 1) k" for k
      using that 2(1) i Cons.prems(3) Cons.prems(5) [of k]
      by (cases "k = i") (auto simp: bit_or_iff bit_exp_iff)
    have len: "length (l[i := loc]) = 2" using Cons.prems(3) by simp
    show ?thesis by (rule Cons.IH [OF g 2(2) len rest keep])
  qed
qed

lemma read_primary_ok:
  assumes "good st" "read_primary E phys err st = (prim, err', st')"
  shows "good st' \<and> (\<forall>p. prim = Some p \<longrightarrow> p = primary_map E (img 0) \<and> primary_valid E phys (img 0))"
proof -
  obtain q st1 where q: "infs_storage_read st (0 * 4096) 4096 = (q, st1)" by fastforce
  show ?thesis
    using assms(2) q rd_keeps [OF assms(1) q] rd_image [OF assms(1), of 0 _ st1]
    by (cases q) (auto simp: read_primary_def primary_valid_def split: if_splits)
qed

lemma header_loop_ok:
  "good st \<Longrightarrow> header_loop E hints err st = (hs, err', st') \<Longrightarrow>
   good st' \<and> length hs = length hints \<and>
   (\<forall>i<length hints. \<forall>sb. hs ! i = Some sb \<longrightarrow>
      header_matches E (hints ! i) (img (lc_physical_block (hints ! i))) \<and>
      sb = superblock_of E (get_bytes 0 252 (img (lc_physical_block (hints ! i)))))"
proof (induction hints arbitrary: err st hs)
  case Nil
  then show ?case by simp
next
  case (Cons h hints)
  obtain q st1 where q: "infs_storage_read st (lc_physical_block h * 4096) 4096 = (q, st1)" by fastforce
  note g = rd_keeps [OF Cons.prems(1) q]
  obtain e hs1 where r: "header_loop E hints e st1 = (hs1, err', st')" and hs: "hs = hd hs # hs1"
    "\<And>sb. hd hs = Some sb \<Longrightarrow> header_matches E h (img (lc_physical_block h)) \<and>
      sb = superblock_of E (get_bytes 0 252 (img (lc_physical_block h)))"
    using Cons.prems(2) q rd_image [OF Cons.prems(1), of "lc_physical_block h" _ st1]
    by (cases q) (auto split: prod.splits if_splits)
  note IH = Cons.IH [OF g r]
  have l: "length hs = Suc (length hs1)" by (subst hs(1)) simp
  have n: "hs ! 0 = hd hs" "hs ! Suc i = hs1 ! i" for i by (subst hs(1), simp)+
  show ?case
  proof (intro conjI allI impI)
    show "good st'" "length hs = length (h # hints)" using IH l by simp_all
    fix i sb assume i: "i < length (h # hints)" "hs ! i = Some sb"
    then show "header_matches E ((h # hints) ! i) (img (lc_physical_block ((h # hints) ! i)))"
      "sb = superblock_of E (get_bytes 0 252 (img (lc_physical_block ((h # hints) ! i))))"
      using IH hs(2) [of sb] n by (cases i; simp)+
  qed
qed

lemma discover_sound:
  assumes "good st" "infs_locator_discover_019_headers_with_errors E st nbytes = (status, hs, err, st')"
    and phys: "nbytes div 4096 = phys"
  shows "good st'" "{sb. Some sb \<in> set hs} \<subseteq> admitted E img phys" "length hs \<le> 9"
    "status = INFS_STATUS_OK \<longleftrightarrow> (\<exists>sb. Some sb \<in> set hs)"
proof -
  obtain l m e1 s1 where l: "locator_read_loop phys [(0, 1), (1, 2047)] [empty_locator, empty_locator] 0 INFS_STATUS_OK st =
       (l, m, e1, s1)" using prod_cases4 by blast
  obtain prim e2 s2 where p: "read_primary E phys e1 s1 = (prim, e2, s2)" using prod_cases3 by blast
  have lo: "good s1" "\<And>i. bit m i \<Longrightarrow> i < 2 \<and> infs_locator_decode (img (if i = 0 then 1 else 2047)) phys = Inr (l ! i)"
  proof -
    have "good s1 \<and> (\<forall>i. bit m i \<longrightarrow> i < 2 \<and> infs_locator_decode (img (if i = 0 then 1 else 2047)) phys = Inr (l ! i))"
      by (rule locator_read_loop_ok [OF assms(1) l]) (auto split: if_splits)
    then show "good s1" "\<And>i. bit m i \<Longrightarrow> i < 2 \<and> infs_locator_decode (img (if i = 0 then 1 else 2047)) phys = Inr (l ! i)"
      by blast+
  qed
  have po: "good s2" "\<And>q. prim = Some q \<Longrightarrow> q = primary_map E (img 0) \<and> primary_valid E phys (img 0)"
    using read_primary_ok [OF lo(1) p] by auto
  have maps: "set (surviving l m prim) \<subseteq> geometry_maps E img phys"
    using lo(2) [of 0] lo(2) [of 1] po(2) by (auto simp: surviving_def geometry_maps_def split: option.splits)
  have loc: "discovery_locations l m phys prim \<in> {Inl INFS_STATUS_CORRUPT, Inr (search_hints l m prim)}"
  proof -
    have "bit m i \<Longrightarrow> i < 2" for i using lo(2) by blast
    moreover have "mp \<in> set (surviving l m prim) \<Longrightarrow> locator_fields_valid mp \<and> loc_total_blocks mp \<le> phys" for mp
      using geometry_map_fields maps by blast
    ultimately show ?thesis by (subst discovery_locations_eq) simp_all
  qed
  obtain hs3 e3 s3 where h: "header_loop E (search_hints l m prim) e2 s2 = (hs3, e3, s3)" using prod_cases3 by blast
  note ho = header_loop_ok [OF po(1) h]
  have sub: "{sb. Some sb \<in> set hs3} \<subseteq> admitted E img phys"
  proof
    fix sb assume "sb \<in> {sb. Some sb \<in> set hs3}"
    then obtain k where "k < length hs3" "hs3 ! k = Some sb" by (auto simp: in_set_conv_nth)
    then have k: "search_hints l m prim ! k \<in> set (search_hints l m prim)"
      "header_at E img (search_hints l m prim ! k) = Some sb" using ho by (auto simp: header_at_Some)
    obtain mp src j where "mp \<in> geometry_maps E img phys" "j < 3" "search_hints l m prim ! k = locator_hints mp src ! j"
      using search_hints_sound [OF k(1)] maps by blast
    then show "sb \<in> admitted E img phys"
      using k(2) hint_fields(1) [of j mp src] hint_fields(2) [of j E mp src]
      by (auto simp: header_at_Some admitted_def)
  qed
  have ex: "(\<exists>h\<in>set hs3. h \<noteq> None) \<longleftrightarrow> (\<exists>sb. Some sb \<in> set hs3)" by auto
  define bad where "bad \<longleftrightarrow> \<not> infs_storage_valid st \<or> nbytes mod 4096 \<noteq> 0 \<or> phys < 4096"
  have run: "(status, hs, err, st') =
      (if bad then (INFS_STATUS_INVALID_ARGUMENT, [], INFS_STATUS_OK, st)
       else case discovery_locations l m phys prim of
         Inl stt \<Rightarrow> (stt, [], INFS_STATUS_OK, s2)
       | Inr [] \<Rightarrow> ((if e2 = INFS_STATUS_OK then INFS_STATUS_CORRUPT else e2), [], INFS_STATUS_OK, s2)
       | Inr locations \<Rightarrow>
           (case header_loop E locations e2 s2 of (headers, err, st) \<Rightarrow>
             ((if \<exists>h \<in> set headers. h \<noteq> None then INFS_STATUS_OK
               else if err = INFS_STATUS_OK then INFS_STATUS_CORRUPT else err), headers, err, st)))"
    unfolding assms(2) [symmetric] infs_locator_discover_019_headers_with_errors_def Let_def phys bad_def l p prod.case ..
  have "good st' \<and> {sb. Some sb \<in> set hs} \<subseteq> admitted E img phys \<and> length hs \<le> 9 \<and>
      (status = INFS_STATUS_OK \<longleftrightarrow> (\<exists>sb. Some sb \<in> set hs))"
  proof (cases "bad \<or> discovery_locations l m phys prim = Inl INFS_STATUS_CORRUPT \<or> search_hints l m prim = []")
    case True
    then have "hs = [] \<and> status \<noteq> INFS_STATUS_OK \<and> st' \<in> {st, s2}"
      using run loc by (auto split: if_splits)
    then show ?thesis using assms(1) po(1) by auto
  next
    case False
    then have d: "discovery_locations l m phys prim = Inr (search_hints l m prim)" using loc by simp
    obtain c cs where "search_hints l m prim = c # cs" using False by (cases "search_hints l m prim") auto
    then have "(status, hs, err, st') = ((if \<exists>h \<in> set hs3. h \<noteq> None then INFS_STATUS_OK
               else if e3 = INFS_STATUS_OK then INFS_STATUS_CORRUPT else e3), hs3, e3, s3)"
      using run False d h by simp
    then have "hs = hs3" "st' = s3" "status = INFS_STATUS_OK \<longleftrightarrow> (\<exists>h \<in> set hs3. h \<noteq> None)"
      by (auto split: if_splits)
    then show ?thesis using ho sub ex length_search_hints [of l m prim] by auto
  qed
  then show "good st'" "{sb. Some sb \<in> set hs} \<subseteq> admitted E img phys" "length hs \<le> 9"
    "status = INFS_STATUS_OK \<longleftrightarrow> (\<exists>sb. Some sb \<in> set hs)" by blast+
qed

end

locale block_device = block_reader +
  assumes rd_total: "good st \<Longrightarrow> p < phys \<Longrightarrow> \<exists>bs st'. infs_storage_read st (p * 4096) 4096 = (Inr bs, st')"
begin

lemma read_block:
  assumes "good st" "p < phys"
  obtains st' where "infs_storage_read st (p * 4096) 4096 = (Inr (img p), st')" "good st'"
proof -
  obtain bs st' where r: "infs_storage_read st (p * 4096) 4096 = (Inr bs, st')"
    using rd_total [OF assms] by blast
  show ?thesis using that [of st'] r rd_image [OF assms(1) r] rd_keeps [OF assms(1) r] by simp
qed

lemma locator_reads:
  assumes "good st" "4096 \<le> phys"
  obtains l m st' where
    "locator_read_loop phys [(0, 1), (1, 2047)] [empty_locator, empty_locator] 0 INFS_STATUS_OK st =
       (l, m, INFS_STATUS_OK, st')" "good st'"
    "\<And>i. bit m i \<Longrightarrow> i < 2"
    "bit m 0 = (\<exists>loc. infs_locator_decode (img 1) phys = Inr loc)"
    "bit m 1 = (\<exists>loc. infs_locator_decode (img 2047) phys = Inr loc)"
    "bit m 0 \<Longrightarrow> infs_locator_decode (img 1) phys = Inr (l ! 0)"
    "bit m 1 \<Longrightarrow> infs_locator_decode (img 2047) phys = Inr (l ! 1)"
proof -
  have p: "1 < phys" "2047 < phys" using assms(2) by unat_arith+
  obtain s1 where s1: "infs_storage_read st (1 * 4096) 4096 = (Inr (img 1), s1)" "good s1"
    by (rule read_block [OF assms(1) p(1)])
  obtain s2 where s2: "infs_storage_read s1 (2047 * 4096) 4096 = (Inr (img 2047), s2)" "good s2"
    by (rule read_block [OF s1(2) p(2)])
  define pick where "pick = (\<lambda>r :: infs_locator infs_result. case r of Inr loc \<Rightarrow> loc | Inl _ \<Rightarrow> empty_locator)"
  define ok where "ok = (\<lambda>r :: infs_locator infs_result. \<exists>loc. r = Inr loc)"
  let ?d1 = "infs_locator_decode (img 1) phys" and ?d2 = "infs_locator_decode (img 2047) phys"
  define m :: u8 where "m = (if ok ?d1 then 1 else 0) OR (if ok ?d2 then 2 else 0)"
  have b: "bit m 0 = ok ?d1" "bit m 1 = ok ?d2" "\<And>i. bit m i \<Longrightarrow> i < 2"
    by (auto simp: m_def bit_or_iff bit_1_iff bit_2_iff split: if_splits)
  show ?thesis
  proof (rule that [of "[pick ?d1, pick ?d2]" m s2])
    show "locator_read_loop phys [(0, 1), (1, 2047)] [empty_locator, empty_locator] 0 INFS_STATUS_OK st =
        ([pick ?d1, pick ?d2], m, INFS_STATUS_OK, s2)"
      using s1(1) s2(1) by (cases ?d1; cases ?d2) (simp_all add: pick_def ok_def m_def)
  qed (use b s2(2) in \<open>auto simp: ok_def pick_def\<close>)
qed

lemma primary_read:
  assumes "good st" "4096 \<le> phys"
  obtains st' where
    "read_primary E phys err st = ((if primary_valid E phys (img 0) then Some (primary_map E (img 0)) else None), err, st')"
    "good st'"
proof -
  have "0 < phys" using assms(2) by unat_arith
  then obtain s1 where "infs_storage_read st (0 * 4096) 4096 = (Inr (img 0), s1)" "good s1"
    by (rule read_block [OF assms(1)])
  then show ?thesis
    using that [of s1] by (cases "primary_valid E phys (img 0)") (auto simp: read_primary_def primary_valid_def)
qed

lemma header_reads:
  "good st \<Longrightarrow> (\<And>h. h \<in> set hints \<Longrightarrow> lc_physical_block h < phys) \<Longrightarrow>
   \<exists>st'. good st' \<and> header_loop E hints err st =
     (map (header_at E img) hints, err, st')"
proof (induction hints arbitrary: st)
  case Nil
  then show ?case by auto
next
  case (Cons h hints)
  obtain s1 where s1: "infs_storage_read st (lc_physical_block h * 4096) 4096 = (Inr (img (lc_physical_block h)), s1)" "good s1"
    by (rule read_block [OF Cons.prems(1)]) (use Cons.prems(2) in auto)
  show ?case using Cons.IH [OF s1(2)] Cons.prems(2) s1(1) by (fastforce simp: header_at_def)
qed

lemma search_exact:
  assumes maps: "set (surviving l m prim) = geometry_maps E img phys" and nc: "\<not> identity_conflict E img phys"
  shows "{sb. Some sb \<in> set (map (header_at E img) (search_hints l m prim))} = admitted E img phys" (is "?L = _")
proof (intro equalityI subsetI)
  fix sb assume "sb \<in> ?L"
  then obtain h where h0: "h \<in> set (search_hints l m prim)" "header_at E img h = Some sb"
    by (auto simp: eq_commute)
  note h = h0(1) h0(2) [unfolded header_at_Some, THEN conjunct1] h0(2) [unfolded header_at_Some, THEN conjunct2]
  obtain mp src j where "mp \<in> set (surviving l m prim)" "j < 3" "h = locator_hints mp src ! j"
    using search_hints_sound [OF h(1)] by blast
  then show "sb \<in> admitted E img phys"
    using h(2,3) maps hint_fields(1) [of j mp src] hint_fields(2) [of j E mp src]
    by (auto simp: admitted_def)
next
  fix sb assume "sb \<in> admitted E img phys"
  then obtain mp j where mp: "mp \<in> set (surviving l m prim)" "j < 3" "map_matches E mp (img (loc_checkpoint mp ! j))"
    "sb = superblock_of E (get_bytes 0 252 (img (loc_checkpoint mp ! j)))"
    using maps by (auto simp: admitted_def)
  have "\<And>a b. a \<in> set (surviving l m prim) \<Longrightarrow> b \<in> set (surviving l m prim) \<Longrightarrow>
      loc_filesystem_uuid a = loc_filesystem_uuid b"
    using nc maps unfolding identity_conflict_def by blast
  from search_hints_complete [OF mp(1,2) this, of E]
  obtain h where h: "h \<in> set (search_hints l m prim)" "lc_physical_block h = loc_checkpoint mp ! j"
    "\<And>raw. header_matches E h raw = map_matches E mp raw" by blast
  then have "header_at E img h = Some sb" using mp(3,4) by (simp add: header_at_Some)
  then show "sb \<in> ?L" using h(1) by (simp add: image_eqI [of _ _ h])
qed

lemma discover_exact:
  assumes "good st" "4096 \<le> phys" "phys < 2 ^ 52"
  obtains st' hs where "good st'"
    "infs_locator_discover_019_headers_with_errors E st (phys * 4096) =
      (if identity_conflict E img phys then (INFS_STATUS_CORRUPT, [], INFS_STATUS_OK, st')
       else (if admitted E img phys = {} then INFS_STATUS_CORRUPT else INFS_STATUS_OK, hs, INFS_STATUS_OK, st'))"
    "\<not> identity_conflict E img phys \<Longrightarrow> {sb. Some sb \<in> set hs} = admitted E img phys \<and> length hs \<le> 9"
proof -
  have size: "phys * 4096 div 4096 = phys" "phys * 4096 mod 4096 = 0"
    using assms(3) by (simp_all add: word_unat_eq_iff unat_div unat_mod unat_word_ariths word_less_nat_alt)
  obtain l m s1 where l: "locator_read_loop phys [(0, 1), (1, 2047)] [empty_locator, empty_locator] 0 INFS_STATUS_OK st =
       (l, m, INFS_STATUS_OK, s1)" "good s1" "\<And>i. bit m i \<Longrightarrow> i < 2"
    "bit m 0 = (\<exists>loc. infs_locator_decode (img 1) phys = Inr loc)"
    "bit m 1 = (\<exists>loc. infs_locator_decode (img 2047) phys = Inr loc)"
    "bit m 0 \<Longrightarrow> infs_locator_decode (img 1) phys = Inr (l ! 0)"
    "bit m 1 \<Longrightarrow> infs_locator_decode (img 2047) phys = Inr (l ! 1)"
    by (rule locator_reads [OF assms(1,2)]) blast
  let ?prim = "if primary_valid E phys (img 0) then Some (primary_map E (img 0)) else None"
  obtain s2 where s2: "read_primary E phys INFS_STATUS_OK s1 = (?prim, INFS_STATUS_OK, s2)" "good s2"
    by (rule primary_read [OF l(2) assms(2)])
  have maps: "set (surviving l m ?prim) = geometry_maps E img phys"
    using l(4-7) by (auto simp: surviving_def geometry_maps_def)
  have loc: "discovery_locations l m phys ?prim =
      (if identity_conflict E img phys then Inl INFS_STATUS_CORRUPT else Inr (search_hints l m ?prim))"
    using discovery_locations_eq [of m l ?prim phys] l(3) geometry_map_fields [of _ E img phys]
    unfolding identity_conflict_def maps by blast
  have inside: "lc_physical_block h < phys" if in_hints: "h \<in> set (search_hints l m ?prim)" for h
  proof -
    obtain mp src j where "mp \<in> geometry_maps E img phys" "j < 3" "h = locator_hints mp src ! j"
      using search_hints_sound [OF in_hints] maps by blast
    then show ?thesis
      using geometry_map_fields [of mp E img phys] fields_valid_checkpoint(1) [of mp j]
        order_less_le_trans [of "loc_checkpoint mp ! j" "loc_total_blocks mp" phys] by (simp add: hint_fields)
  qed
  define hs where "hs = map (header_at E img) (search_hints l m ?prim)"
  obtain s3 where s3: "good s3" "header_loop E (search_hints l m ?prim) INFS_STATUS_OK s2 = (hs, INFS_STATUS_OK, s3)"
    using header_reads [OF s2(2) inside, of "search_hints l m ?prim" E INFS_STATUS_OK] unfolding hs_def by blast
  have exact: "\<not> identity_conflict E img phys \<Longrightarrow> {sb. Some sb \<in> set hs} = admitted E img phys"
    unfolding hs_def by (rule search_exact [OF maps])
  have some: "\<not> identity_conflict E img phys \<Longrightarrow> (\<exists>h\<in>set hs. h \<noteq> None) \<longleftrightarrow> admitted E img phys \<noteq> {}"
    using exact by auto
  have lt: "\<not> phys < 4096" using assms(2) by simp
  note unfold = infs_locator_discover_019_headers_with_errors_def size Let_def l(1) [unfolded One_nat_def] s2(1) prod.case loc lt
    rd_valid [OF assms(1)]
  show ?thesis
  proof (cases "identity_conflict E img phys")
    case True
    then show ?thesis
      using that [of s2] s2(2) by (simp add: unfold del: locator_read_loop.simps header_loop.simps)
  next
    case False
    have empty: "search_hints l m ?prim = [] \<Longrightarrow> hs = []" by (simp add: hs_def)
    have "\<exists>st'. good st' \<and> infs_locator_discover_019_headers_with_errors E st (phys * 4096) =
        (if admitted E img phys = {} then INFS_STATUS_CORRUPT else INFS_STATUS_OK, hs, INFS_STATUS_OK, st')"
    proof (cases "search_hints l m ?prim")
      case Nil
      then show ?thesis
        using False s2(2) empty some [OF False] by (simp add: unfold del: locator_read_loop.simps header_loop.simps)
    next
      case (Cons h t)
      then show ?thesis
        using False s3 some [OF False] by (simp add: unfold del: locator_read_loop.simps header_loop.simps)
    qed
    moreover have "length hs \<le> 9" using length_search_hints by (simp add: hs_def)
    ultimately show ?thesis using that exact False by auto
  qed
qed

lemma count_copies_ok:
  "good st \<Longrightarrow> (\<And>i. i \<in> set is \<Longrightarrow> sb_checkpoint_block out ! i < phys) \<Longrightarrow>
   \<exists>st'. good st' \<and> count_copies E out is c st =
     (c + length (filter (\<lambda>i. copy_agrees E out (img (sb_checkpoint_block out ! i))) is), st')"
proof (induction "is" arbitrary: c st)
  case Nil
  then show ?case by auto
next
  case (Cons i "is")
  obtain s1 where s1: "infs_storage_read st (sb_checkpoint_block out ! i * 4096) 4096 =
      (Inr (img (sb_checkpoint_block out ! i)), s1)" "good s1"
    by (rule read_block [OF Cons.prems(1)]) (use Cons.prems(2) in auto)
  have r: "j \<in> set is \<Longrightarrow> sb_checkpoint_block out ! j < phys" for j using Cons.prems(2) by simp
  show ?case
    using Cons.IH [OF s1(2) r, of c] Cons.IH [OF s1(2) r, of "c + 1"] s1(1)
    by (cases "infs_decode_superblock E (img (sb_checkpoint_block out ! i))") (auto simp: copy_agrees_def)
qed

lemma read_best_exact:
  assumes "good st" "4096 \<le> phys" "phys < 2 ^ 52" "\<not> identity_conflict E img phys" "admitted E img phys \<noteq> {}"
  obtains best copies st' where "infs_read_best_superblock E st (phys * 4096) = (Inr (best, copies), st')" "good st'"
    "best \<in> admitted E img phys" "\<And>sb. sb \<in> admitted E img phys \<Longrightarrow> sb_generation sb \<le> sb_generation best"
    "copies = length (filter (\<lambda>i. copy_agrees E best (img (sb_checkpoint_block best ! i))) [0..<3])"
proof -
  obtain s1 hs where d: "good s1"
    "infs_locator_discover_019_headers_with_errors E st (phys * 4096) = (INFS_STATUS_OK, hs, INFS_STATUS_OK, s1)"
    "{sb. Some sb \<in> set hs} = admitted E img phys" "length hs \<le> 9"
    by (rule discover_exact [OF assms(1-3), of E]) (use assms(4,5) in auto)
  obtain x where "Some x \<in> set hs" using assms(5) d(3) by auto
  moreover have nz: "Some x \<in> set hs \<Longrightarrow> sb_generation x \<noteq> 0" for x
    using d(3) by (intro admitted_generation [of x E img phys]) auto
  ultimately have n: "Some (best_header hs) \<in> set hs"
    "\<And>sb. Some sb \<in> set hs \<Longrightarrow> sb_generation sb \<le> sb_generation (best_header hs)"
    using best_header_newest [OF d(4)] by blast+
  have b: "best_header hs \<in> admitted E img phys"
    "\<And>sb. sb \<in> admitted E img phys \<Longrightarrow> sb_generation sb \<le> sb_generation (best_header hs)"
    using n unfolding d(3) [symmetric] by blast+
  have inside: "sb_checkpoint_block (best_header hs) ! i < phys" if "i \<in> set [0..<3]" for i
  proof -
    obtain m where "m \<in> geometry_maps E img phys" "sb_checkpoint_block (best_header hs) = loc_checkpoint m"
      by (rule admitted_valid [OF b(1)])
    then show ?thesis
      using geometry_map_fields [of m E img phys] fields_valid_checkpoint(1) [of m i] that
        order_less_le_trans [of "loc_checkpoint m ! i" "loc_total_blocks m" phys] by simp
  qed
  obtain s2 where c: "good s2" "count_copies E (best_header hs) [0..<3] 0 s1 =
      (0 + length (filter (\<lambda>i. copy_agrees E (best_header hs) (img (sb_checkpoint_block (best_header hs) ! i))) [0..<3]), s2)"
    using count_copies_ok [OF d(1) inside] by blast
  show ?thesis
    using that [of "best_header hs" _ s2] c b d(2)
    by (simp add: infs_read_best_superblock_def infs_locator_discover_019_headers_def Let_def)
qed

end

context backend
begin

lemma dispatch_plain_read:
  assumes "st_ops s = Some ops" "st_context s = Some c"
  shows "infs_storage_read s a n = (fst (rd c a n), s \<lparr> st_context := Some (snd (rd c a n)) \<rparr>)"
  using assms storage_valid read_at by (auto simp: infs_storage_read_def with_op_def split: prod.splits)

end

sublocale backend \<subseteq> blocks: block_reader "\<lambda>st. handle_inv ops good st \<and> handle_contents contents st = C"
  "\<lambda>p. range_bytes C (p * 4096) 4096" phys for C phys
proof
  fix st :: "'d infs_storage" and a n r st'
  assume g: "handle_inv ops good st \<and> handle_contents contents st = C"
  then obtain c where c: "st_ops st = Some ops" "st_context st = Some c" "good c" "contents c = C"
    by (auto simp: handle_inv_def handle_contents_def)
  show "infs_storage_valid st" using c storage_valid by blast
  assume "infs_storage_read st a n = (r, st')"
  then have "st' = st \<lparr> st_context := Some (snd (rd c a n)) \<rparr>" using dispatch_plain_read c by auto
  moreover have "good (snd (rd c a n)) \<and> contents (snd (rd c a n)) = C"
    using rd_inv [OF c(3), of a n "fst (rd c a n)" "snd (rd c a n)"] c(4) by simp
  ultimately show "handle_inv ops good st' \<and> handle_contents contents st' = C"
    using c by (simp add: handle_inv_def handle_contents_def)
next
  fix st :: "'d infs_storage" and p bs st'
  assume g: "handle_inv ops good st \<and> handle_contents contents st = C"
    and r: "infs_storage_read st (p * 4096) 4096 = (Inr bs, st')"
  then obtain c where c: "st_ops st = Some ops" "st_context st = Some c" "good c" "contents c = C"
    by (auto simp: handle_inv_def handle_contents_def)
  then have "rd c (p * 4096) 4096 = (Inr bs, snd (rd c (p * 4096) 4096))"
    using r dispatch_plain_read by (simp add: prod_eq_iff)
  then show "bs = range_bytes C (p * 4096) 4096" using rd_bytes c by blast
qed simp_all

lemma ram_read:
  "infs_storage_read \<lparr> st_ops = Some (posix_storage_ops ram_os ram_random), st_context = Some d \<rparr> a n =
     ((if dev_broken d \<or> length (dev_bytes d) < unat a + n then Inl INFS_STATUS_IO_ERROR
       else Inr (get_bytes (unat a) n (dev_bytes d))),
      \<lparr> st_ops = Some (posix_storage_ops ram_os ram_random), st_context = Some d \<rparr>)"
  by (simp add: infs_storage_read_def with_op_def infs_storage_valid_def posix_storage_ops_def
      posix_read_at_def ram_os_def ram_pread_def)

interpretation ram_blocks: block_device "ram_serving C phys" "\<lambda>p. range_bytes C (p * 4096) 4096" phys for C phys
proof
  fix st a n r st' assume g: "ram_serving C phys st"
  then show "infs_storage_valid st"
    by (auto simp: ram_serving_def infs_storage_valid_def posix_storage_ops_def)
  assume "infs_storage_read st a n = (r, st')"
  then show "ram_serving C phys st'" using g by (auto simp: ram_serving_def ram_read)
next
  fix st p bs st' assume g: "ram_serving C phys st" and r: "infs_storage_read st (p * 4096) 4096 = (Inr bs, st')"
  then obtain d where d: "st = \<lparr> st_ops = Some (posix_storage_ops ram_os ram_random), st_context = Some d \<rparr>"
    "ram_good d" "ram_contents d = C" by (auto simp: ram_serving_def)
  show "bs = range_bytes C (p * 4096) 4096"
    using ram.posix.blocks.rd_image [of ram_random st C p bs st'] d r by (auto simp: handle_inv_def handle_contents_def)
next
  fix st p assume g: "ram_serving C phys st" and p: "p < phys"
  obtain d where d: "st = \<lparr> st_ops = Some (posix_storage_ops ram_os ram_random), st_context = Some d \<rparr>"
    "\<not> dev_broken d" "unat phys * 4096 \<le> length (dev_bytes d)" "ram_good d" using g by (auto simp: ram_serving_def)
  have "unat p < unat phys" using p by (simp add: word_less_nat_alt)
  then have le: "unat p * 4096 + 4096 \<le> length (dev_bytes d)" using d(3) by simp
  then have "unat (p * 4096) = unat p * 4096"
    using d(4) by (simp add: unat_word_ariths ram_good_def)
  then show "\<exists>bs st'. infs_storage_read st (p * 4096) 4096 = (Inr bs, st')"
    using d(1,2) le by (simp add: ram_read)
qed simp_all

section \<open>A healthy volume\<close>

lemma image_read:
  "infs_storage_read (image_storage img phys) a n =
     ((if a mod 4096 = 0 \<and> n = 4096 \<and> a div 4096 < phys then Inr (img (a div 4096)) else Inl INFS_STATUS_IO_ERROR),
      image_storage img phys)"
  by (simp add: infs_storage_read_def with_op_def image_storage_def image_ops_def infs_storage_valid_def)

lemma image_valid: "infs_storage_valid (image_storage img phys)"
  by (simp add: infs_storage_valid_def image_storage_def image_ops_def)

lemma block_address:
  "(p :: u64) < 2 ^ 52 \<Longrightarrow> p * 4096 div 4096 = p \<and> p * 4096 mod 4096 = 0"
  by (simp add: word_unat_eq_iff unat_div unat_mod unat_word_ariths word_less_nat_alt)

lemma image_block_device:
  assumes "\<And>p. length (img p) = 4096" "phys < 2 ^ 52"
  shows "block_device (\<lambda>st. st = image_storage img phys) (\<lambda>p. if p < phys then img p else img (p * 4096 div 4096)) phys"
proof
  fix st p assume "st = image_storage img phys" and p: "p < phys"
  then show "\<exists>bs st'. infs_storage_read st (p * 4096) 4096 = (Inr bs, st')"
    using block_address [of p] assms(2) by (simp add: image_read)
qed (use assms block_address in \<open>auto simp: image_read image_valid split: if_splits\<close>)

lemma sealed_superblock:
  assumes "ext_ok E" "superblock_wf sb" "superblock_fields_ok E sb"
  obtains c where "infs_encode_superblock E sb = Inr (encoded (infs_encode_superblock E sb))"
    "length (encoded (infs_encode_superblock E sb)) = 4096"
    "infs_validate_superblock_block_minor E (encoded (infs_encode_superblock E sb)) 19"
    "superblock_of E (get_bytes 0 252 (encoded (infs_encode_superblock E sb))) = sb \<lparr> sb_checksum := c \<rparr>"
proof -
  obtain b c where b: "infs_encode_superblock E sb = Inr b" "length b = INFS_BLOCK_SIZE"
    "infs_decode_superblock E b = Inr (sb \<lparr> sb_checksum := c \<rparr>)"
    by (rule encode_superblock_validates [OF assms])
  then show ?thesis
    using that [of c] by (auto simp: encoded_def infs_decode_superblock_def infs_validate_superblock_block_def split: if_splits)
qed

lemma sealed_locator:
  assumes "locator_wf loc" "locator_fields_valid loc"
  shows "infs_locator_encode loc = Inr (encoded (infs_locator_encode loc))"
    "length (encoded (infs_locator_encode loc)) = 4096"
    "loc_total_blocks loc \<le> phys \<Longrightarrow> infs_locator_decode (encoded (infs_locator_encode loc)) phys = Inr loc"
proof -
  show e: "infs_locator_encode loc = Inr (encoded (infs_locator_encode loc))"
    and l: "length (encoded (infs_locator_encode loc)) = 4096"
    using assms by (simp_all add: locator_encode_layout encoded_def)
  have "4096 \<le> loc_total_blocks loc" using assms(2) by (simp add: locator_fields_valid_def not_less split: if_splits)
  then show "loc_total_blocks loc \<le> phys \<Longrightarrow> infs_locator_decode (encoded (infs_locator_encode loc)) phys = Inr loc"
    using assms e l by (subst locator_decode_layout) auto
qed

lemma primary_map_geometry: 
  "length (get_bytes 0 252 raw) = 252 \<Longrightarrow> primary_map E raw = geometry_of (superblock_of E (get_bytes 0 252 raw))"
  by (simp add: primary_map_def geometry_of_def Let_def superblock_of_def upt_rec numeral_2_eq_2)

lemma volume_image_blocks:
  assumes "ext_ok E" "superblock_wf sb" "superblock_fields_ok E sb" "locator_fields_valid (geometry_of sb)"
  shows "length (volume_image E sb p) = 4096"
    "j < 3 \<Longrightarrow> volume_image E sb (sb_checkpoint_block sb ! j) = encoded (infs_encode_superblock E sb)"
    "volume_image E sb 0 = encoded (infs_encode_superblock E sb)"
proof -
  have wf: "locator_wf (geometry_of sb)" using assms(2) by (simp add: geometry_of_def locator_wf_def superblock_wf_def)
  obtain c where c: "length (encoded (infs_encode_superblock E sb)) = 4096"
    by (rule sealed_superblock [OF assms(1-3)])
  show "length (volume_image E sb p) = 4096"
    using c sealed_locator(2) [OF wf assms(4)] by (simp add: volume_image_def)
  have at: "volume_image E sb (sb_checkpoint_block sb ! j) = encoded (infs_encode_superblock E sb)" if "j < 3" for j
    using fields_valid_checkpoint [OF assms(4) that] that assms(2)
    by (simp add: volume_image_def geometry_of_def superblock_wf_def)
  then show "j < 3 \<Longrightarrow> volume_image E sb (sb_checkpoint_block sb ! j) = encoded (infs_encode_superblock E sb)" .
  show "volume_image E sb 0 = encoded (infs_encode_superblock E sb)"
    using at [of 0] fields_valid_checkpoint(4) [OF assms(4), of 0] by (simp add: geometry_of_def)
qed

lemma volume_image_admitted:
  assumes "ext_ok E" "superblock_wf sb" "superblock_fields_ok E sb" "locator_fields_valid (geometry_of sb)"
    "sb_total_blocks sb \<le> phys" "\<And>p. p < phys \<Longrightarrow> img p = volume_image E sb p" "4096 \<le> phys"
  obtains c where "admitted E img phys = {sb \<lparr> sb_checksum := c \<rparr>}" "\<not> identity_conflict E img phys"
proof -
  let ?b = "encoded (infs_encode_superblock E sb)"
  obtain c where c: "infs_validate_superblock_block_minor E ?b 19" "length ?b = 4096"
    "superblock_of E (get_bytes 0 252 ?b) = sb \<lparr> sb_checksum := c \<rparr>"
    by (rule sealed_superblock [OF assms(1-3)])
  note v = volume_image_blocks [OF assms(1-4)]
  have wf: "locator_wf (geometry_of sb)" using assms(2) by (simp add: geometry_of_def locator_wf_def superblock_wf_def)
  have small: "0 < phys" "1 < phys" "2047 < phys" using assms(7) by unat_arith+
  have tot: "loc_total_blocks (geometry_of sb) \<le> phys" using assms(5) by (simp add: geometry_of_def)
  have "infs_locator_decode (img 1) phys = Inr (geometry_of sb)"
    "infs_locator_decode (img 2047) phys = Inr (geometry_of sb)"
    using sealed_locator(3) [OF wf assms(4) tot] small by (simp_all add: assms(6) volume_image_def)
  moreover have "primary_map E (img 0) = geometry_of sb"
    using c(2,3) small by (simp add: assms(6) v(3) primary_map_geometry) (simp add: geometry_of_def)
  moreover have "primary_valid E phys (img 0)"
    using calculation(3) c(1) assms(4) tot small by (simp add: primary_valid_def assms(6) v(3))
  ultimately have maps: "geometry_maps E img phys = {geometry_of sb}"
    by (auto simp: geometry_maps_def)
  have at: "img (sb_checkpoint_block sb ! j) = ?b" if "j < 3" for j
  proof -
    have "sb_checkpoint_block sb ! j < phys"
      using fields_valid_checkpoint(1) [OF assms(4) that] assms(5) by (simp add: geometry_of_def)
    then show ?thesis using v(2) [OF that] assms(6) by simp
  qed
  have "map_matches E (geometry_of sb) ?b"
    using c by (simp add: map_matches_def Let_def geometry_of_def list_all_iff)
  then have "admitted E img phys = {sb \<lparr> sb_checksum := c \<rparr>}"
    using at c(3) unfolding admitted_def maps by (auto simp: geometry_of_def intro!: exI [of _ 0])
  moreover have "\<not> identity_conflict E img phys" by (simp add: identity_conflict_def maps)
  ultimately show ?thesis using that by blast
qed

lemma example_volume_ok:
  "superblock_wf example_volume" "superblock_fields_ok le_lib example_volume"
  "locator_fields_valid (geometry_of example_volume)" "sb_total_blocks example_volume = 5000"
  "sb_generation example_volume = 5"
proof -
  show "superblock_wf example_volume" "superblock_fields_ok le_lib example_volume"
    using example_superblock_ok by (simp_all add: example_volume_def superblock_wf_def superblock_fields_ok_def)
  have "\<not> all_zero example_id" by (auto simp: all_zero_iff example_id_def zeros_def)
  then show "locator_fields_valid (geometry_of example_volume)"
    by (simp add: locator_fields_valid_def geometry_of_def example_volume_def example_superblock_def upt_rec)
qed (simp_all add: example_volume_def example_superblock_def)

lemma example_device:
  shows "block_device (\<lambda>st. st = example_storage) example_image 5000"
    "block_reader (\<lambda>st. st = example_storage) example_image"
    "(\<And>c. admitted le_lib example_image 5000 = {example_volume \<lparr> sb_checksum := c \<rparr>} \<Longrightarrow>
      \<not> identity_conflict le_lib example_image 5000 \<Longrightarrow> thesis) \<Longrightarrow> thesis"
proof -
  have "block_device (\<lambda>st. st = image_storage (volume_image le_lib example_volume) 5000)
      (\<lambda>p. if p < 5000 then volume_image le_lib example_volume p
        else volume_image le_lib example_volume (p * 4096 div 4096)) 5000"
    by (rule image_block_device)
      (simp_all add: volume_image_blocks(1) [OF ext_ok_le_lib example_volume_ok(1-3)])
  then show b: "block_device (\<lambda>st. st = example_storage) example_image 5000"
    unfolding example_storage_def example_image_def .
  then show "block_reader (\<lambda>st. st = example_storage) example_image" by (rule block_device.axioms(1))
  assume t: "\<And>c. admitted le_lib example_image 5000 = {example_volume \<lparr> sb_checksum := c \<rparr>} \<Longrightarrow>
      \<not> identity_conflict le_lib example_image 5000 \<Longrightarrow> thesis"
  show thesis
    by (rule volume_image_admitted [OF ext_ok_le_lib example_volume_ok(1-3), of 5000 example_image])
      (simp_all add: example_volume_ok example_image_def t)
qed

section \<open>Properties\<close>

lemma example_locator_ok: "locator_wf example_locator" "locator_fields_valid example_locator"
  using example_volume_ok(1,3)
  by (simp_all add: example_locator_def locator_wf_def geometry_of_def superblock_wf_def)

text \<open>C23: The locator encoding is canonical: a block decodes to a locator on a device exactly when
  the device is large enough, the locator fits it, and the block is the encoding of that locator;
  so decoding inverts encoding, no other block decodes to the same locator, and every other block is
  reported as corrupt.\<close>

theorem locator_canonical:
  assumes "length block = INFS_BLOCK_SIZE"
  shows "(infs_locator_decode block dev = Inr loc \<longleftrightarrow>
      4096 \<le> dev \<and> loc_total_blocks loc \<le> dev \<and> locator_wf loc \<and> infs_locator_encode loc = Inr block) \<and>
    (\<forall>e. infs_locator_decode block dev = Inl e \<longrightarrow> e = INFS_STATUS_CORRUPT)"
  using locator_decode_layout [OF assms, of dev loc]
  by (auto simp: infs_locator_encode_def infs_locator_decode_def Let_def split: if_splits)

theorem locator_canonical_witness:
  "infs_locator_decode (encoded (infs_locator_encode example_locator)) 5000 = Inr example_locator"
proof -
  note e = sealed_locator(1,2) [OF example_locator_ok]
  have "loc_total_blocks example_locator = 5000"
    by (simp add: example_locator_def geometry_of_def example_volume_ok)
  then show ?thesis
    using locator_canonical [OF e(2), of 5000 example_locator] e(1) example_locator_ok by simp
qed

text \<open>C24: The kernel and the portable library implement the same locator format: on every block they
  decode to the same locator or both report corruption, and they encode every locator to the same
  block or both refuse it.\<close>

theorem locator_kernel_equivalent:
  assumes "ext_le E" "length block = INFS_BLOCK_SIZE" "locator_wf loc"
  shows "infilfs_locator_decode_019 E block dev = map_sum as_kernel (\<lambda>x. x) (infs_locator_decode block dev) \<and>
    infilfs_locator_encode_019 E loc = map_sum as_kernel (\<lambda>x. x) (infs_locator_encode loc)"
  using kernel_decode_eq [OF assms(1,2)] kernel_encode_eq [OF assms(1,3)] by simp

theorem locator_kernel_equivalent_witness:
  "infilfs_locator_decode_019 le_lib (encoded (infilfs_locator_encode_019 le_lib example_locator)) 5000 =
     Inr example_locator"
proof -
  have le: "ext_le le_lib" by (simp add: ext_le_def) (simp add: le_lib_def get_u16_le get_u64_le)
  note e = sealed_locator(1,2) [OF example_locator_ok]
  have "loc_total_blocks example_locator \<le> 5000"
    by (simp add: example_locator_def geometry_of_def example_volume_ok)
  then show ?thesis
    using locator_kernel_equivalent [OF le e(2) example_locator_ok(1), of 5000]
      sealed_locator(3) [OF example_locator_ok, of 5000] e(1) by (simp add: encoded_def split: sum.splits)
qed

text \<open>C25: The planned bootstrap extent never overlaps a fixed block: when planning succeeds, every
  block of the extent lies below the midpoint checkpoint and is neither the primary, a locator, the
  midpoint nor the end checkpoint, without wrap-around; it is refused as an argument error exactly for
  a volume below the minimum or an empty or oversized extent.\<close>

theorem plan_avoids_fixed_blocks:
  "case infs_locator_plan_initial_metadata blocks n of
     Inr root \<Rightarrow> (\<forall>p<n. root + p \<notin> {0, 1, 2047, blocks div 2, blocks - 1} \<and> root + p < blocks div 2 \<and> root \<le> root + p)
   | Inl e \<Rightarrow> e = (if blocks < 4096 \<or> n = 0 \<or> blocks < n then INFS_STATUS_INVALID_ARGUMENT else INFS_STATUS_NO_SPACE)"
proof (cases "infs_locator_plan_initial_metadata blocks n")
  case (Inl e)
  then show ?thesis by (auto simp: infs_locator_plan_initial_metadata_def Let_def split: if_splits)
next
  case (Inr root)
  then show ?thesis using plan_avoids [OF Inr] by simp
qed

theorem plan_avoids_fixed_blocks_witness:
  "infs_locator_plan_initial_metadata 8192 2040 = Inr 2 \<and>
   2 + (2039 :: u64) \<notin> {0, 1, 2047, 8192 div 2, 8192 - 1}"
proof -
  have "infs_locator_plan_initial_metadata 8192 2040 = Inr 2"
    by (simp add: infs_locator_plan_initial_metadata_def)
  then show ?thesis using plan_avoids_fixed_blocks [of 8192 2040] by (auto dest: spec [of _ 2039])
qed

text \<open>C26: Discovery never invents a header, whatever reads fail. Every header it returns agrees
  with a geometry map (a locator, or the primary superblock's own) that the device holds: it is
  the content of a checkpoint block that map names, inside the device, it passes superblock
  validation, and its checkpoint list, size and file-system UUID are those of the map. At
  most nine headers are returned, and discovery succeeds exactly when it returns one.\<close>

theorem discovery_sound:
  assumes "block_reader good img" "good st" "nbytes div 4096 = phys"
    and "infs_locator_discover_019_headers_with_errors E st nbytes = (status, headers, err, st')"
  shows "(\<forall>sb. Some sb \<in> set headers \<longrightarrow>
      (\<exists>m\<in>geometry_maps E img phys. \<exists>p\<in>set (loc_checkpoint m). p < phys \<and>
         infs_validate_superblock_block E (img p) \<and> sb = superblock_of E (get_bytes 0 252 (img p)) \<and>
         sb_checkpoint_block sb = loc_checkpoint m \<and> sb_filesystem_uuid sb = loc_filesystem_uuid m \<and>
         sb_total_blocks sb = loc_total_blocks m \<and> sb_total_blocks sb \<le> phys)) \<and>
    length headers \<le> 9 \<and> (status = INFS_STATUS_OK \<longleftrightarrow> (\<exists>sb. Some sb \<in> set headers))"
proof -
  note d = block_reader.discover_sound [OF assms(1,2,4,3)]
  have "\<exists>m\<in>geometry_maps E img phys. \<exists>p\<in>set (loc_checkpoint m). p < phys \<and>
         infs_validate_superblock_block E (img p) \<and> sb = superblock_of E (get_bytes 0 252 (img p)) \<and>
         sb_checkpoint_block sb = loc_checkpoint m \<and> sb_filesystem_uuid sb = loc_filesystem_uuid m \<and>
         sb_total_blocks sb = loc_total_blocks m \<and> sb_total_blocks sb \<le> phys"
    if sb: "Some sb \<in> set headers" for sb
  proof -
    have "sb \<in> admitted E img phys" using d(2) sb by blast
    then obtain m j where m: "m \<in> geometry_maps E img phys" "j < 3"
      "infs_validate_superblock_block E (img (loc_checkpoint m ! j))"
      "sb = superblock_of E (get_bytes 0 252 (img (loc_checkpoint m ! j)))"
      "sb_checkpoint_block sb = loc_checkpoint m" "sb_total_blocks sb = loc_total_blocks m"
      "sb_filesystem_uuid sb = loc_filesystem_uuid m"
      by (rule admitted_valid)
    have f: "locator_fields_valid m" "loc_total_blocks m \<le> phys" using geometry_map_fields [OF m(1)] by blast+
    have "length (loc_checkpoint m) = 3" unfolding m(5) [symmetric] by (simp add: m(4) superblock_of_def)
    then have "loc_checkpoint m ! j \<in> set (loc_checkpoint m)" using m(2) by simp
    moreover have "loc_checkpoint m ! j < phys"
      using fields_valid_checkpoint(1) [OF f(1) m(2)] f(2) by simp
    ultimately show ?thesis
      using m(3,5,6,7) f(2) by (intro bexI [OF _ m(1)] bexI [of _ "loc_checkpoint m ! j"] conjI m(4)) simp_all
  qed
  then show ?thesis using d(3,4) by blast
qed

theorem discovery_sound_witness:
  "\<exists>headers err st' sb. infs_locator_discover_019_headers_with_errors le_lib example_storage 20480000 =
      (INFS_STATUS_OK, headers, err, st') \<and> Some sb \<in> set headers \<and>
      (\<exists>m\<in>geometry_maps le_lib example_image 5000. sb_filesystem_uuid sb = loc_filesystem_uuid m)"
proof -
  obtain c where a: "admitted le_lib example_image 5000 = {example_volume \<lparr> sb_checksum := c \<rparr>}"
    "\<not> identity_conflict le_lib example_image 5000" by (rule example_device(3))
  have n: "(5000 :: u64) * 4096 = 20480000" "(20480000 :: u64) div 4096 = 5000" "4096 \<le> (5000 :: u64)"
    "(5000 :: u64) < 2 ^ 52" by simp_all
  obtain headers err st' where d: "infs_locator_discover_019_headers_with_errors le_lib example_storage 20480000 =
      (INFS_STATUS_OK, headers, err, st')"
    by (rule block_device.discover_exact [OF example_device(1) refl n(3,4), of le_lib]) (use a n(1) in auto)
  note s = discovery_sound [OF example_device(2) refl n(2) d]
  then obtain sb where sb: "Some sb \<in> set headers" by blast
  then have "\<exists>m\<in>geometry_maps le_lib example_image 5000. sb_filesystem_uuid sb = loc_filesystem_uuid m"
    using s by blast
  then show ?thesis using d sb by blast
qed

text \<open>C27: On a device whose blocks can be read, discovery is exact: it reports corruption when two
  surviving geometry maps name different file systems or no checkpoint agrees with the map that names
  it, and otherwise returns precisely the superblocks that agree with a surviving map.\<close>

theorem discovery_exact:
  assumes "block_device good img phys" "good st" "4096 \<le> phys" "phys < 2 ^ 52"
  shows "case infs_locator_discover_019_headers E st (phys * 4096) of
      (Inl e, st') \<Rightarrow> good st' \<and> e = INFS_STATUS_CORRUPT \<and> (identity_conflict E img phys \<or> admitted E img phys = {})
    | (Inr headers, st') \<Rightarrow> good st' \<and> \<not> identity_conflict E img phys \<and> admitted E img phys \<noteq> {} \<and>
        {sb. Some sb \<in> set headers} = admitted E img phys"
proof -
  obtain st' hs where g: "good st'"
    and d: "infs_locator_discover_019_headers_with_errors E st (phys * 4096) =
      (if identity_conflict E img phys then (INFS_STATUS_CORRUPT, [], INFS_STATUS_OK, st')
       else (if admitted E img phys = {} then INFS_STATUS_CORRUPT else INFS_STATUS_OK, hs, INFS_STATUS_OK, st'))"
    and h: "\<not> identity_conflict E img phys \<Longrightarrow> {sb. Some sb \<in> set hs} = admitted E img phys \<and> length hs \<le> 9"
    by (rule block_device.discover_exact [OF assms, of E]) blast
  have "infs_locator_discover_019_headers E st (phys * 4096) =
      (if identity_conflict E img phys \<or> admitted E img phys = {} then Inl INFS_STATUS_CORRUPT else Inr hs, st')"
    unfolding infs_locator_discover_019_headers_def d by simp
  then show ?thesis using g h by simp
qed

theorem discovery_exact_witness:
  "\<exists>headers st'. infs_locator_discover_019_headers le_lib example_storage 20480000 = (Inr headers, st') \<and>
     (\<exists>sb. Some sb \<in> set headers) \<and> (\<forall>sb. Some sb \<in> set headers \<longrightarrow> sb_generation sb = 5)"
proof -
  obtain c where a: "admitted le_lib example_image 5000 = {example_volume \<lparr> sb_checksum := c \<rparr>}"
    "\<not> identity_conflict le_lib example_image 5000" by (rule example_device(3))
  have "(5000 :: u64) * 4096 = 20480000" by simp
  then have e: "case infs_locator_discover_019_headers le_lib example_storage 20480000 of
      (Inl e, st') \<Rightarrow> st' = example_storage \<and> e = INFS_STATUS_CORRUPT \<and>
        (identity_conflict le_lib example_image 5000 \<or> admitted le_lib example_image 5000 = {})
    | (Inr headers, st') \<Rightarrow> st' = example_storage \<and> \<not> identity_conflict le_lib example_image 5000 \<and>
        admitted le_lib example_image 5000 \<noteq> {} \<and> {sb. Some sb \<in> set headers} = admitted le_lib example_image 5000"
    using discovery_exact [OF example_device(1) refl, of le_lib] by simp
  then obtain headers where h: "infs_locator_discover_019_headers le_lib example_storage 20480000 = (Inr headers, example_storage)"
    "{sb. Some sb \<in> set headers} = {example_volume \<lparr> sb_checksum := c \<rparr>}"
    using a by (auto split: prod.splits sum.splits)
  then have "Some sb \<in> set headers \<longleftrightarrow> sb = example_volume \<lparr> sb_checksum := c \<rparr>" for sb by blast
  then show ?thesis using h(1) example_volume_ok(5) by simp
qed

text \<open>C28: The best superblock of a readable device is one of the discovered headers and none of
  them is newer; the reported number of copies counts the checkpoints that repeat its geometry, and is
  at least one.\<close>

theorem best_superblock_is_newest:
  assumes "block_device good img phys" "good st" "4096 \<le> phys" "phys < 2 ^ 52"
    and "\<not> identity_conflict E img phys" "admitted E img phys \<noteq> {}"
  shows "\<exists>best copies st'. infs_read_best_superblock E st (phys * 4096) = (Inr (best, copies), st') \<and> good st' \<and>
    best \<in> admitted E img phys \<and> (\<forall>sb\<in>admitted E img phys. sb_generation sb \<le> sb_generation best) \<and>
    copies = length (filter (\<lambda>i. copy_agrees E best (img (sb_checkpoint_block best ! i))) [0..<3]) \<and> 1 \<le> copies"
proof -
  obtain best copies st' where b: "infs_read_best_superblock E st (phys * 4096) = (Inr (best, copies), st')" "good st'"
    "best \<in> admitted E img phys" "\<And>sb. sb \<in> admitted E img phys \<Longrightarrow> sb_generation sb \<le> sb_generation best"
    "copies = length (filter (\<lambda>i. copy_agrees E best (img (sb_checkpoint_block best ! i))) [0..<3])"
    by (rule block_device.read_best_exact [OF assms, of thesis]) blast
  obtain m j where "m \<in> geometry_maps E img phys" "j < 3" "infs_validate_superblock_block E (img (loc_checkpoint m ! j))"
    "best = superblock_of E (get_bytes 0 252 (img (loc_checkpoint m ! j)))"
    "sb_checkpoint_block best ! j = loc_checkpoint m ! j"
    by (rule admitted_valid [OF b(3)])
  then have "copy_agrees E best (img (sb_checkpoint_block best ! j))" "j \<in> set [0..<3]"
    by (simp_all add: copy_agrees_def infs_decode_superblock_def)
  then have "filter (\<lambda>i. copy_agrees E best (img (sb_checkpoint_block best ! i))) [0..<3] \<noteq> []"
    by (auto simp: filter_empty_conv)
  then have "1 \<le> copies" unfolding b(5) by (simp add: Suc_le_eq)
  then show ?thesis using b by blast
qed

theorem best_superblock_is_newest_witness:
  "\<exists>best copies st'. infs_read_best_superblock le_lib example_storage 20480000 = (Inr (best, copies), st') \<and>
     sb_generation best = 5 \<and> 1 \<le> copies"
proof -
  obtain c where a: "admitted le_lib example_image 5000 = {example_volume \<lparr> sb_checksum := c \<rparr>}"
    "\<not> identity_conflict le_lib example_image 5000" by (rule example_device(3))
  have "(5000 :: u64) * 4096 = 20480000" by simp
  then show ?thesis
    using best_superblock_is_newest [OF example_device(1) refl, of le_lib] a example_volume_ok(5) by auto
qed

end
