(* ===== verification/Checkpoint.thy ===== *)
theory Checkpoint
  imports Locator
begin

text \<open>
  Publication of a checkpoint: the ordering protocol shared by the portable library and the kernel
  (\<open>include/infilfs/checkpoint_protocol.h\<close>), the kernel's callbacks and its repair pass
  (\<open>kernel/infiltratorfs_checkpoint_publish.c\<close>), and the kernel's superblock encoder.

  The block device records what was asked of it. What a power failure may leave behind is a
  specification over that record: a write reaches the medium at once, late, or in part, until a
  flush completes. The theorems show that at every instant of a publication or a repair the medium
  holds exactly one newest superblock of the volume, which is the old or the new one, and the new one
  from the moment the protocol reports the commit.
\<close>

section \<open>The ordering protocol\<close>

record ('e, 's) infs_checkpoint_io =
  io_locator :: "nat \<Rightarrow> 's \<Rightarrow> 'e option \<times> 's"
  io_checkpoint :: "nat \<Rightarrow> 's \<Rightarrow> 'e option \<times> 's"
  io_flush :: "'s \<Rightarrow> 'e option \<times> 's"
  io_committed :: "('s \<Rightarrow> 's) option"

text \<open>The loop over the three copies; \<open>None\<close> is the status 0.\<close>

fun publish_copies ::
    "('e, 's) infs_checkpoint_io \<Rightarrow> nat \<Rightarrow> nat list \<Rightarrow> bool \<Rightarrow> 's \<Rightarrow> 'e option \<times> bool \<times> 's" where
  "publish_copies io first [] committed s = (None, committed, s)"
| "publish_copies io first (n # ns) committed s =
     (case io_checkpoint io ((first + n) mod 3) s of
        (Some status, s) \<Rightarrow> (Some status, committed, s)
      | (None, s) \<Rightarrow>
          (case io_flush io s of
             (Some status, s) \<Rightarrow> (Some status, committed, s)
           | (None, s) \<Rightarrow>
               (if n = 0
                then publish_copies io first ns True (case io_committed io of None \<Rightarrow> s | Some f \<Rightarrow> f s)
                else publish_copies io first ns committed s)))"

text \<open>A locator followed by the barrier.\<close>

definition publish_hint :: "('e, 's) infs_checkpoint_io \<Rightarrow> nat \<Rightarrow> 's \<Rightarrow> 'e option \<times> 's" where
  "publish_hint io copy s =
     (case io_locator io copy s of
        (Some status, s) \<Rightarrow> (Some status, s)
      | (None, s) \<Rightarrow> io_flush io s)"

definition infs_checkpoint_publish ::
    "('e, 's) infs_checkpoint_io \<Rightarrow> nat \<Rightarrow> bool \<Rightarrow> 's \<Rightarrow> 'e option \<times> bool \<times> 's" where
  "infs_checkpoint_publish io first relocate s =
     (if relocate then
        (case publish_hint io 0 s of
           (Some status, s) \<Rightarrow> (Some status, False, s)
         | (None, s) \<Rightarrow>
             (case publish_copies io 1 [0..<3] False s of
                (Some status, committed, s) \<Rightarrow> (Some status, committed, s)
              | (None, committed, s) \<Rightarrow>
                  (case publish_hint io 1 s of (status, s) \<Rightarrow> (status, committed, s))))
      else publish_copies io first [0..<3] False s)"

section \<open>The kernel's device and callbacks\<close>

text \<open>What the block layer was asked to do, in order.\<close>

datatype device_event = Wrote u64 bytes | Write_Failed u64 bytes | Flushed | Flush_Failed

text \<open>A block device as the module sees it: its size, the blocks reads return, the outcome of
  each coming request to the allocator and the block layer (\<open>None\<close> or an exhausted list is success),
  and the log of requests.\<close>

record block_dev =
  bd_device_blocks :: u64
  bd_blocks :: "u64 \<Rightarrow> bytes"
  bd_replies :: "posix_errno option list"
  bd_log :: "device_event list"

definition os_reply :: "block_dev \<Rightarrow> posix_errno option \<times> block_dev" where
  "os_reply d = (case bd_replies d of [] \<Rightarrow> (None, d) | r # rs \<Rightarrow> (r, d \<lparr> bd_replies := rs \<rparr>))"

definition log_event :: "device_event \<Rightarrow> block_dev \<Rightarrow> block_dev" where
  "log_event e d = d \<lparr> bd_log := bd_log d @ [e] \<rparr>"

definition infilfs_read_block :: "u64 \<Rightarrow> block_dev \<Rightarrow> bytes kernel_result \<times> block_dev" where
  "infilfs_read_block block d =
     (if block \<ge> bd_device_blocks d then (Inl EIO, d)
      else case os_reply d of
             (Some _, d) \<Rightarrow> (Inl EIO, d)
           | (None, d) \<Rightarrow> (Inr (bd_blocks d block), d))"

definition infilfs_checkpoint_write_sync :: "u64 \<Rightarrow> bytes \<Rightarrow> block_dev \<Rightarrow> posix_errno option \<times> block_dev" where
  "infilfs_checkpoint_write_sync block data d =
     (if block \<ge> bd_device_blocks d then (Some EIO, d)
      else case os_reply d of
             (Some _, d) \<Rightarrow> (Some ENOMEM, d)
           | (None, d) \<Rightarrow>
               (case os_reply d of
                  (Some _, d) \<Rightarrow> (Some EIO, log_event (Write_Failed block data) d)
                | (None, d) \<Rightarrow>
                    (None, log_event (Wrote block data) (d \<lparr> bd_blocks := (bd_blocks d)(block := data) \<rparr>))))"

record infilfs_checkpoint_publication =
  pub_disk :: infs_superblock_disk
  pub_encoded :: bytes

definition infilfs_publish_flush :: "block_dev \<Rightarrow> posix_errno option \<times> block_dev" where
  "infilfs_publish_flush d =
     (case os_reply d of
        (None, d) \<Rightarrow> (None, log_event Flushed d)
      | (Some e, d) \<Rightarrow> (Some e, log_event Flush_Failed d))"

definition infilfs_publish_checkpoint ::
    "infilfs_checkpoint_publication \<Rightarrow> nat \<Rightarrow> block_dev \<Rightarrow> posix_errno option \<times> block_dev" where
  "infilfs_publish_checkpoint p copy d =
     infilfs_checkpoint_write_sync (sb_checkpoint_block (pub_disk p) ! copy) (pub_encoded p) d"

definition infilfs_publish_locator ::
    "ext_lib \<Rightarrow> infilfs_checkpoint_publication \<Rightarrow> nat \<Rightarrow> block_dev \<Rightarrow> posix_errno option \<times> block_dev" where
  "infilfs_publish_locator E p copy d =
     (case os_reply d of
        (Some _, d) \<Rightarrow> (Some ENOMEM, d)
      | (None, d) \<Rightarrow>
          (let disk = pub_disk p;
               locator = \<lparr> loc_generation = sb_generation disk, loc_total_blocks = sb_total_blocks disk,
                 loc_checkpoint = map (\<lambda>i. sb_checkpoint_block disk ! i) [0..<INFS_CHECKPOINT_COUNT],
                 loc_filesystem_uuid = sb_filesystem_uuid disk \<rparr>
           in case infilfs_locator_encode_019 E locator of
                Inl e \<Rightarrow> (Some e, d)
              | Inr raw \<Rightarrow>
                  infilfs_checkpoint_write_sync
                    (if copy \<noteq> 0 then INFS_LOCATOR_BLOCK_B else INFS_LOCATOR_BLOCK_A) raw d))"

definition infilfs_publication_io ::
    "ext_lib \<Rightarrow> infilfs_checkpoint_publication \<Rightarrow> (posix_errno, block_dev) infs_checkpoint_io" where
  "infilfs_publication_io E p =
     \<lparr> io_locator = infilfs_publish_locator E p, io_checkpoint = infilfs_publish_checkpoint p,
       io_flush = infilfs_publish_flush, io_committed = None \<rparr>"

definition infilfs_checkpoint_publish ::
    "ext_lib \<Rightarrow> infs_superblock_disk \<Rightarrow> bytes \<Rightarrow> nat \<Rightarrow> bool \<Rightarrow> block_dev \<Rightarrow> posix_errno option \<times> bool \<times> block_dev" where
  "infilfs_checkpoint_publish E disk encod first relocate d =
     infs_checkpoint_publish (infilfs_publication_io E \<lparr> pub_disk = disk, pub_encoded = encod \<rparr>) first relocate d"

section \<open>The kernel's superblock encoder\<close>

definition infilfs_rw_crc64 :: "bytes \<Rightarrow> u64" where
  "infilfs_rw_crc64 data =
     foldl (\<lambda>crc d. push_bit 8 crc XOR crc64_ecma_table ! unat (ucast (drop_bit 56 crc XOR ucast d) :: u8)) 0 data"

definition infilfs_rw_store_crc :: "ext_lib \<Rightarrow> nat \<Rightarrow> nat \<Rightarrow> bytes \<Rightarrow> bytes" where
  "infilfs_rw_store_crc E checksum_offset checksum_size block =
     (let block = put_bytes checksum_offset (zeros checksum_size) block;
          crc = infilfs_rw_crc64 block
      in put_bytes checksum_offset (st64 E crc) block)"

definition infilfs_rw_encode_superblock :: "ext_lib \<Rightarrow> infs_superblock_disk \<Rightarrow> bytes" where
  "infilfs_rw_encode_superblock E disk =
     infilfs_rw_store_crc E 220 32 (put_bytes 0 (superblock_bytes E disk) (zeros INFS_BLOCK_SIZE))"

section \<open>Repair\<close>

text \<open>The fields of \<open>struct infilfs_sb_info\<close> that repair reads and writes.\<close>

record infilfs_sb_info =
  sbi_disk :: infs_superblock_disk
  sbi_rdonly :: bool
  sbi_write_poisoned :: bool
  sbi_checkpoint_repair_needed :: bool

fun heal_copies ::
    "infilfs_checkpoint_publication \<Rightarrow> nat list \<Rightarrow> block_dev \<Rightarrow> posix_errno option \<times> block_dev" where
  "heal_copies p [] d = (None, d)"
| "heal_copies p (i # is) d =
     (case infilfs_read_block (sb_checkpoint_block (pub_disk p) ! i) d of
        (Inl e, d) \<Rightarrow> (Some e, d)
      | (Inr raw, d) \<Rightarrow>
          (if raw = pub_encoded p then heal_copies p is d
           else case infilfs_publish_checkpoint p i d of
                  (Some e, d) \<Rightarrow> (Some e, d)
                | (None, d) \<Rightarrow>
                    (case infilfs_publish_flush d of
                       (Some e, d) \<Rightarrow> (Some e, d)
                     | (None, d) \<Rightarrow> heal_copies p is d)))"

definition locator_current :: "ext_lib \<Rightarrow> infs_superblock_disk \<Rightarrow> u64 \<Rightarrow> bytes \<Rightarrow> bool" where
  "locator_current E disk device_blocks raw =
     (case infilfs_locator_decode_019 E raw device_blocks of
        Inl _ \<Rightarrow> False
      | Inr loc \<Rightarrow> loc_total_blocks loc = sb_total_blocks disk \<and> loc_generation loc \<le> sb_generation disk \<and>
          loc_filesystem_uuid loc = sb_filesystem_uuid disk \<and>
          list_all (\<lambda>c. loc_checkpoint loc ! c = sb_checkpoint_block disk ! c) [0..<INFS_CHECKPOINT_COUNT])"

fun heal_hints ::
    "ext_lib \<Rightarrow> infilfs_checkpoint_publication \<Rightarrow> nat list \<Rightarrow> block_dev \<Rightarrow> posix_errno option \<times> block_dev" where
  "heal_hints E p [] d = (None, d)"
| "heal_hints E p (i # is) d =
     (case infilfs_read_block (if i \<noteq> 0 then INFS_LOCATOR_BLOCK_B else INFS_LOCATOR_BLOCK_A) d of
        (Inl e, d) \<Rightarrow> (Some e, d)
      | (Inr raw, d) \<Rightarrow>
          (if locator_current E (pub_disk p) (bd_device_blocks d) raw then heal_hints E p is d
           else case infilfs_publish_locator E p i d of
                  (Some e, d) \<Rightarrow> (Some e, d)
                | (None, d) \<Rightarrow>
                    (case infilfs_publish_flush d of
                       (Some e, d) \<Rightarrow> (Some e, d)
                     | (None, d) \<Rightarrow> heal_hints E p is d)))"

definition infilfs_checkpoint_heal ::
    "ext_lib \<Rightarrow> bool \<Rightarrow> infilfs_sb_info \<Rightarrow> block_dev \<Rightarrow> posix_errno option \<times> infilfs_sb_info \<times> block_dev" where
  "infilfs_checkpoint_heal E promoting sbi d =
     (if sbi_rdonly sbi \<and> \<not> promoting then (None, sbi, d)
      else case os_reply d of
             (Some _, d) \<Rightarrow> (Some ENOMEM, sbi, d)
           | (None, d) \<Rightarrow>
               (let p = \<lparr> pub_disk = sbi_disk sbi, pub_encoded = infilfs_rw_encode_superblock E (sbi_disk sbi) \<rparr>;
                    (ret, d) = heal_copies p [0..<INFS_CHECKPOINT_COUNT] d;
                    (ret, d) =
                      (if ret = None \<and> sb_format_minor (sbi_disk sbi) = INFS_LOCATOR_FORMAT_MINOR
                       then heal_hints E p [0..<2] d else (ret, d))
                in (ret,
                    (if ret \<noteq> None
                     then sbi \<lparr> sbi_write_poisoned := True, sbi_checkpoint_repair_needed := True \<rparr>
                     else sbi \<lparr> sbi_checkpoint_repair_needed := False \<rparr>), d)))"

section \<open>What a power failure leaves behind\<close>

text \<open>Per block the contents the medium may have, and the contents it will have once the
  cache is flushed. \<open>torn b\<close> are the contents a write to \<open>b\<close> cut short may leave.\<close>

type_synonym medium = "u64 \<Rightarrow> bytes set"

fun crash_step :: "(u64 \<Rightarrow> bytes set) \<Rightarrow> medium \<times> medium \<Rightarrow> device_event \<Rightarrow> medium \<times> medium" where
  "crash_step torn (media, cache) (Wrote b d) =
     (media(b := media b \<union> {d} \<union> torn b), cache(b := {d}))"
| "crash_step torn (media, cache) (Write_Failed b d) =
     (media(b := media b \<union> {d} \<union> torn b), cache(b := cache b \<union> {d} \<union> torn b))"
| "crash_step torn (media, cache) Flushed = (cache, cache)"
| "crash_step torn (media, cache) Flush_Failed = (media, cache)"

definition crash_images :: "(u64 \<Rightarrow> bytes set) \<Rightarrow> (u64 \<Rightarrow> bytes) \<Rightarrow> device_event list \<Rightarrow> (u64 \<Rightarrow> bytes) set" where
  "crash_images torn init log =
     {img. \<forall>p. img p \<in> fst (foldl (crash_step torn) (\<lambda>p. {init p}, \<lambda>p. {init p}) log) p}"

text \<open>The logs of a protocol that writes the given blocks in order, each followed by a flush, and
  stops at the first failure, cut at any point.\<close>

fun staged :: "(u64 \<times> bytes) list \<Rightarrow> device_event list \<Rightarrow> bool" where
  "staged [] log = (log = [])"
| "staged ((b, d) # ws) log =
     (log \<in> {[], [Wrote b d], [Write_Failed b d], [Wrote b d, Flush_Failed]} \<or>
      take 2 log = [Wrote b d, Flushed] \<and> staged ws (drop 2 log))"

definition flushes :: "device_event list \<Rightarrow> nat" where
  "flushes log = length (filter (\<lambda>e. e = Flushed) log)"

definition written :: "(u64 \<times> bytes) list \<Rightarrow> (u64 \<Rightarrow> bytes) \<Rightarrow> u64 \<Rightarrow> bytes" where
  "written ws init = foldl (\<lambda>img (b, d). img(b := d)) init ws"

section \<open>The state of a volume on its medium\<close>

definition volume_ok :: "ext_lib \<Rightarrow> u64 \<Rightarrow> infs_superblock_disk \<Rightarrow> bool" where
  "volume_ok E phys sb \<longleftrightarrow> superblock_wf sb \<and> superblock_fields_ok E sb \<and>
     locator_fields_valid (geometry_of sb) \<and> sb_total_blocks sb \<le> phys"

definition sb_block :: "ext_lib \<Rightarrow> infs_superblock_disk \<Rightarrow> bytes" where
  "sb_block E sb = encoded (infs_encode_superblock E sb)"

text \<open>The superblock as it is read back, with its checksum.\<close>

definition sealed :: "ext_lib \<Rightarrow> infs_superblock_disk \<Rightarrow> infs_superblock_disk" where
  "sealed E sb = superblock_of E (get_bytes 0 252 (sb_block E sb))"

definition same_geometry :: "infs_locator \<Rightarrow> infs_superblock_disk \<Rightarrow> bool" where
  "same_geometry m sb \<longleftrightarrow> loc_total_blocks m = sb_total_blocks sb \<and>
     loc_filesystem_uuid m = sb_filesystem_uuid sb \<and> (\<forall>j<3. loc_checkpoint m ! j = sb_checkpoint_block sb ! j)"

text \<open>A block that no validator accepts, which is what a torn write is detected as.\<close>

definition rejected :: "ext_lib \<Rightarrow> u64 \<Rightarrow> bytes \<Rightarrow> bool" where
  "rejected E phys raw \<longleftrightarrow> \<not> infs_validate_superblock_block_minor E raw 19 \<and>
     (\<forall>m. infs_locator_decode raw phys \<noteq> Inr m)"

text \<open>A block holds no superblock of the volume newer than \<open>sb\<close>.\<close>

definition not_newer :: "ext_lib \<Rightarrow> infs_superblock_disk \<Rightarrow> bytes \<Rightarrow> bool" where
  "not_newer E sb raw \<longleftrightarrow>
     (let x = superblock_of E (get_bytes 0 252 raw)
      in infs_validate_superblock_block_minor E raw 19 \<and> sb_filesystem_uuid x = sb_filesystem_uuid sb \<longrightarrow>
         x = sealed E sb \<or> sb_generation x < sb_generation sb)"

text \<open>Discovery finds \<open>sb\<close> and nothing as new.\<close>

definition recovers :: "ext_lib \<Rightarrow> u64 \<Rightarrow> (u64 \<Rightarrow> bytes) \<Rightarrow> infs_superblock_disk \<Rightarrow> bool" where
  "recovers E phys img sb \<longleftrightarrow> \<not> identity_conflict E img phys \<and> sealed E sb \<in> admitted E img phys \<and>
     (\<forall>x\<in>admitted E img phys. x = sealed E sb \<or> sb_generation x < sb_generation sb)"

text \<open>Every map on the medium describes \<open>sb\<close>, and no checkpoint position holds a newer one.\<close>

definition describes :: "ext_lib \<Rightarrow> u64 \<Rightarrow> (u64 \<Rightarrow> bytes) \<Rightarrow> infs_superblock_disk \<Rightarrow> bool" where
  "describes E phys img sb \<longleftrightarrow> (\<forall>m\<in>geometry_maps E img phys. same_geometry m sb) \<and>
     (\<forall>j<3. not_newer E sb (img (sb_checkpoint_block sb ! j)))"

text \<open>All copies and both locators are in place.\<close>

definition settled :: "ext_lib \<Rightarrow> u64 \<Rightarrow> (u64 \<Rightarrow> bytes) \<Rightarrow> infs_superblock_disk \<Rightarrow> bool" where
  "settled E phys img sb \<longleftrightarrow> (\<forall>j<3. img (sb_checkpoint_block sb ! j) = sb_block E sb) \<and>
     (\<forall>a\<in>{1, 2047}. \<exists>m. infs_locator_decode (img a) phys = Inr m \<and> same_geometry m sb)"


section \<open>The writes of a publication\<close>

text \<open>From \<open>d\<close> to \<open>d'\<close> the device was asked for writes \<open>ws\<close> in stages, all of them if \<open>ok\<close>.\<close>

definition logs :: "(u64 \<times> bytes) list \<Rightarrow> block_dev \<Rightarrow> block_dev \<Rightarrow> bool \<Rightarrow> bool" where
  "logs ws d d' ok \<longleftrightarrow> bd_device_blocks d' = bd_device_blocks d \<and>
     (\<exists>log. bd_log d' = bd_log d @ log \<and> staged ws log \<and> (ok \<longrightarrow> flushes log = length ws \<and> bd_blocks d' = written ws (bd_blocks d)))"

definition locator_of :: "infs_superblock_disk \<Rightarrow> infs_locator" where
  "locator_of disk = \<lparr> loc_generation = sb_generation disk, loc_total_blocks = sb_total_blocks disk,
     loc_checkpoint = map (\<lambda>i. sb_checkpoint_block disk ! i) [0..<3], loc_filesystem_uuid = sb_filesystem_uuid disk \<rparr>"

abbreviation hint_block :: "ext_lib \<Rightarrow> infs_superblock_disk \<Rightarrow> bytes" where
  "hint_block E disk \<equiv> encoded (infilfs_locator_encode_019 E (locator_of disk))"

abbreviation hint_write :: "ext_lib \<Rightarrow> infs_superblock_disk \<Rightarrow> nat \<Rightarrow> u64 \<times> bytes" where
  "hint_write E disk copy \<equiv> (if copy \<noteq> 0 then 2047 else 1, hint_block E disk)"

abbreviation copy_writes :: "infilfs_checkpoint_publication \<Rightarrow> nat \<Rightarrow> nat list \<Rightarrow> (u64 \<times> bytes) list" where
  "copy_writes p first ns \<equiv> map (\<lambda>n. (sb_checkpoint_block (pub_disk p) ! ((first + n) mod 3), pub_encoded p)) ns"


abbreviation commit_writes :: "ext_lib \<Rightarrow> infs_superblock_disk \<Rightarrow> nat \<Rightarrow> (u64 \<times> bytes) list" where
  "commit_writes E sb first \<equiv> map (\<lambda>n. (sb_checkpoint_block sb ! ((first + n) mod 3), sb_block E sb)) [0..<3]"

abbreviation relocate_writes :: "ext_lib \<Rightarrow> infs_superblock_disk \<Rightarrow> (u64 \<times> bytes) list" where
  "relocate_writes E sb \<equiv> hint_write E sb 0 # commit_writes E sb 1 @ [hint_write E sb 1]"

text \<open>Torn blocks are detected by the checksums of superblocks and locators.\<close>

definition torn_detected :: "ext_lib \<Rightarrow> u64 \<Rightarrow> (u64 \<Rightarrow> bytes set) \<Rightarrow> bool" where
  "torn_detected E phys torn \<longleftrightarrow> (\<forall>p. \<forall>raw\<in>torn p. rejected E phys raw)"

abbreviation hint_at :: "nat \<Rightarrow> u64" where
  "hint_at i \<equiv> if i \<noteq> 0 then 2047 else 1"

section \<open>An example volume\<close>

definition example_next :: infs_superblock_disk where
  "example_next = example_volume \<lparr> sb_generation := 6 \<rparr>"

definition example_grown :: infs_superblock_disk where
  "example_grown = example_volume \<lparr> sb_generation := 6, sb_total_blocks := 9000, sb_checkpoint_block := [0, 4500, 8999] \<rparr>"

definition example_dev :: block_dev where
  "example_dev = \<lparr> bd_device_blocks = 9000, bd_blocks = volume_image le_lib example_volume, bd_replies = [], bd_log = [] \<rparr>"

section \<open>The writes of a repair\<close>

text \<open>The writes a repair of a medium needs: the copies that differ and the hints that are not current.\<close>

definition heal_writes :: "ext_lib \<Rightarrow> infs_superblock_disk \<Rightarrow> u64 \<Rightarrow> (u64 \<Rightarrow> bytes) \<Rightarrow> (u64 \<times> bytes) list" where
  "heal_writes E sb phys init =
     map (\<lambda>i. (sb_checkpoint_block sb ! i, sb_block E sb))
       (filter (\<lambda>i. init (sb_checkpoint_block sb ! i) \<noteq> sb_block E sb) [0..<3]) @
     map (\<lambda>i. hint_write E sb i) (filter (\<lambda>i. \<not> locator_current E sb phys (init (hint_at i))) [0..<2])"

section \<open>Logs and crashes\<close>

lemma crash_images_cons:
  "crash_images torn init (Wrote b d # Flushed # log) = crash_images torn (init(b := d)) log"
proof -
  have "(\<lambda>p. {init p})(b := {d}) = (\<lambda>p. {(init(b := d)) p})" by (simp add: fun_eq_iff)
  then show ?thesis by (simp add: crash_images_def)
qed

lemma written_simps [simp]: "written [] init = init" "written ((b, d) # ws) init = written ws (init(b := d))"
  by (simp_all add: written_def)

lemma flushes_simps [simp]: "flushes [] = 0" "flushes (Flushed # log) = Suc (flushes log)"
  "flushes (Wrote b d # log) = flushes log" "flushes (Write_Failed b d # log) = flushes log"
  "flushes (Flush_Failed # log) = flushes log" "flushes (log @ log') = flushes log + flushes log'"
  by (simp_all add: flushes_def)

lemma take2_eq: "take 2 log = [x, y] \<longleftrightarrow> (\<exists>log'. log = x # y # log')"
  by (cases log; cases "tl log") (auto simp: take_Cons')

lemma staged_cons: "staged ((b, d) # ws) log \<longleftrightarrow>
   log \<in> {[], [Wrote b d], [Write_Failed b d], [Wrote b d, Flush_Failed]} \<or>
   (\<exists>log'. log = Wrote b d # Flushed # log' \<and> staged ws log')"
  by (auto simp: take2_eq)

declare staged.simps(2) [simp del]

text \<open>The medium holds the blocks of a prefix of the writes, at least as long as the number of
  completed flushes, except that the next block may be torn.\<close>

lemma staged_crash:
  assumes "staged ws log" "img \<in> crash_images torn init log"
  obtains k where "flushes log \<le> k" "k \<le> length ws"
    "img = written (take k ws) init \<or>
     k < length ws \<and> (\<exists>v\<in>torn (fst (ws ! k)). img = (written (take k ws) init)(fst (ws ! k) := v))"
  using assms
proof (induction ws arbitrary: log init thesis)
  case Nil
  then have "img = init" by (auto simp: crash_images_def fun_eq_iff)
  then show ?case using Nil by (auto intro: Nil(1) [of 0])
next
  case (Cons w ws)
  obtain b d where w: "w = (b, d)" by (cases w)
  consider (stop) "log \<in> {[], [Wrote b d], [Write_Failed b d], [Wrote b d, Flush_Failed]}"
    | (go) log' where "log = Wrote b d # Flushed # log'" "staged ws log'"
    using Cons.prems(2) unfolding w staged_cons by blast
  then show ?case
  proof cases
    case stop
    then have "img \<in> {img. \<forall>p. img p \<in> (if p = b then {init p} \<union> {d} \<union> torn b else {init p})}"
      using Cons.prems(3) by (auto simp: crash_images_def split: if_splits)
    then have "img b \<in> {init b} \<union> {d} \<union> torn b" "\<And>p. p \<noteq> b \<Longrightarrow> img p = init p" by (auto split: if_splits)
    then have "img = init(b := img b)" "img b \<in> {init b} \<union> {d} \<union> torn b" by (auto simp: fun_eq_iff)
    then have "img = init \<or> img = init(b := d) \<or> (\<exists>v\<in>torn b. img = init(b := v))"
      by (metis UnE fun_upd_triv singletonD)
    moreover have "flushes log = 0" using stop by auto
    ultimately show ?thesis
      using Cons.prems(1) [of 0] Cons.prems(1) [of 1] by (elim disjE) (simp_all add: w fun_upd_def)
  next
    case go
    obtain k where "flushes log' \<le> k" "k \<le> length ws"
      "img = written (take k ws) (init(b := d)) \<or>
       k < length ws \<and> (\<exists>v\<in>torn (fst (ws ! k)). img = (written (take k ws) (init(b := d)))(fst (ws ! k) := v))"
      using Cons.IH [OF _ go(2)] Cons.prems(3) unfolding go(1) crash_images_cons by blast
    then show ?thesis using Cons.prems(1) [of "Suc k"] by (simp add: w go(1) fun_upd_def)
  qed
qed

lemma staged_prefix: "staged ws log \<Longrightarrow> staged ws (take n log)"
proof (induction ws arbitrary: log n)
  case (Cons w ws)
  obtain b d where w: "w = (b, d)" by (cases w)
  consider "log \<in> {[], [Wrote b d], [Write_Failed b d], [Wrote b d, Flush_Failed]}"
    | log' where "log = Wrote b d # Flushed # log'" "staged ws log'"
    using Cons.prems unfolding w staged_cons by blast
  then show ?case
  proof cases
    case 1 then show ?thesis by (auto simp: w staged_cons take_Cons')
  next
    case 2 then show ?thesis using Cons.IH [OF 2(2), of "n - 2"] by (auto simp: w staged_cons take_Cons' numeral_2_eq_2)
  qed
qed simp

lemma staged_more: "staged ws log \<Longrightarrow> staged (ws @ ws') log"
  by (induction ws arbitrary: log) (auto simp: staged_cons, cases ws', auto simp: staged_cons)

lemma staged_append:
  "staged ws log \<Longrightarrow> flushes log = length ws \<Longrightarrow> staged ws' log' \<Longrightarrow> staged (ws @ ws') (log @ log')"
  by (induction ws arbitrary: log) (auto simp: staged_cons)

lemma staged_flushes: "staged ws log \<Longrightarrow> flushes log \<le> length ws"
  by (induction ws arbitrary: log) (auto simp: staged_cons)


section \<open>The log of the kernel callbacks\<close>

lemma logs_refl [simp]: "logs [] d d True" "logs ws d d False"
  by (cases ws, auto simp: logs_def staged_cons)+

lemma logs_trans: "logs ws d d' True \<Longrightarrow> logs ws' d' d'' ok \<Longrightarrow> logs (ws @ ws') d d'' ok"
  unfolding logs_def by (elim conjE exE) (auto simp: staged_append written_def intro!: exI)

lemma logs_more: "logs ws d d' ok \<Longrightarrow> logs (ws @ ws') d d' False"
  unfolding logs_def by (auto intro: staged_more)

lemma os_reply_keeps:
  assumes "os_reply d = (r, d')"
  shows "bd_log d' = bd_log d" "bd_blocks d' = bd_blocks d" "bd_device_blocks d' = bd_device_blocks d"
  using assms by (auto simp: os_reply_def split: list.splits)

lemma logs_reply: "os_reply d = (r, d') \<Longrightarrow> logs ws d' d'' ok \<Longrightarrow> logs ws d d'' ok"
  by (simp add: logs_def os_reply_keeps)

lemma write_sync_logs:
  assumes "infilfs_checkpoint_write_sync b data d = (r, d')"
  shows "bd_device_blocks d' = bd_device_blocks d"
    "r = None \<Longrightarrow> bd_log d' = bd_log d @ [Wrote b data] \<and> bd_blocks d' = (bd_blocks d)(b := data)"
    "r \<noteq> None \<Longrightarrow> bd_log d' = bd_log d \<or> bd_log d' = bd_log d @ [Write_Failed b data]"
  using assms
  by (auto simp: infilfs_checkpoint_write_sync_def log_event_def os_reply_keeps split: if_splits prod.splits option.splits)

lemma flush_logs:
  assumes "infilfs_publish_flush d = (r, d')"
  shows "bd_device_blocks d' = bd_device_blocks d" "bd_blocks d' = bd_blocks d"
    "bd_log d' = bd_log d @ [if r = None then Flushed else Flush_Failed]"
  using assms by (auto simp: infilfs_publish_flush_def log_event_def os_reply_keeps split: prod.splits option.splits)

lemma stage_logs:
  assumes "infilfs_checkpoint_write_sync b data d = (r, d1)"
  shows "r \<noteq> None \<Longrightarrow> logs [(b, data)] d d1 False"
    "r = None \<Longrightarrow> infilfs_publish_flush d1 = (q, d2) \<Longrightarrow> logs [(b, data)] d d2 (q = None)"
proof -
  show "logs [(b, data)] d d1 False" if "r \<noteq> None"
    using write_sync_logs(1,3) [OF assms] that by (auto simp: logs_def staged_cons)
  show "logs [(b, data)] d d2 (q = None)" if "r = None" "infilfs_publish_flush d1 = (q, d2)"
    using write_sync_logs(1,2) [OF assms] flush_logs [OF that(2)] that(1)
    by (auto simp: logs_def staged_cons)
qed

lemma locator_logs:
  assumes "infilfs_publish_locator E p copy d = (r, d1)"
  shows "r \<noteq> None \<Longrightarrow> logs [hint_write E (pub_disk p) copy] d d1 False"
    "r = None \<Longrightarrow> infilfs_publish_flush d1 = (q, d2) \<Longrightarrow> logs [hint_write E (pub_disk p) copy] d d2 (q = None)"
proof -
  obtain a d0 where a: "os_reply d = (a, d0)" by (cases "os_reply d")
  have k: "logs ws d d' ok" if "logs ws d0 d' ok" for ws d' ok using logs_reply [OF a that] .
  note def = infilfs_publish_locator_def [unfolded Let_def, folded locator_of_def]
  show "logs [hint_write E (pub_disk p) copy] d d1 False" if "r \<noteq> None"
    using assms that a stage_logs(1) [of _ _ d0 r d1] unfolding def
    by (intro k) (auto split: option.splits sum.splits simp: encoded_def)
  show "logs [hint_write E (pub_disk p) copy] d d2 (q = None)" if "r = None" "infilfs_publish_flush d1 = (q, d2)"
    using assms that a stage_logs(2) [of _ _ d0 r d1 q d2] unfolding def
    by (intro k) (auto split: option.splits sum.splits simp: encoded_def)
qed

lemma logs_flushes: "logs ws d d' ok \<Longrightarrow> flushes (bd_log d) \<le> flushes (bd_log d')"
  "logs ws d d' True \<Longrightarrow> flushes (bd_log d') = flushes (bd_log d) + length ws"
  by (auto simp: logs_def)

lemma publish_copies_logs:
  assumes "publish_copies (infilfs_publication_io E p) first ns c d = (r, c', d')"
  shows "logs (copy_writes p first ns) d d' (r = None) \<and>
    (c' \<and> \<not> c \<longrightarrow> flushes (bd_log d) < flushes (bd_log d'))"
  using assms
proof (induction ns arbitrary: c d)
  case (Cons n ns)
  let ?w = "(sb_checkpoint_block (pub_disk p) ! ((first + n) mod 3), pub_encoded p)"
  obtain a d1 where a: "infilfs_publish_checkpoint p ((first + n) mod 3) d = (a, d1)" by fastforce
  note st = stage_logs [OF a [unfolded infilfs_publish_checkpoint_def]]
  show ?case
  proof (cases a)
    case (Some e)
    then show ?thesis
      using Cons.prems a logs_more [OF st(1), of "copy_writes p first ns"]
      by (auto simp: infilfs_publication_io_def)
  next
    case None
    obtain q d2 where q: "infilfs_publish_flush d1 = (q, d2)" by fastforce
    note lg = st(2) [OF None q]
    show ?thesis
    proof (cases q)
      case (Some e)
      then show ?thesis
        using Cons.prems a None q logs_more [OF lg, of "copy_writes p first ns"]
        by (auto simp: infilfs_publication_io_def)
    next
      case qNone: None
      obtain c2 where c2: "publish_copies (infilfs_publication_io E p) first ns c2 d2 = (r, c', d')"
        using Cons.prems a None q qNone by (auto simp: infilfs_publication_io_def split: if_splits)
      have l: "logs [?w] d d2 True" using lg qNone by simp
      have "logs (copy_writes p first ns) d2 d' (r = None)" using Cons.IH [OF c2] by blast
      then show ?thesis
        using logs_trans [OF l] logs_flushes(1) [of _ d2 d'] logs_flushes(2) [OF l] by fastforce
    qed
  qed
qed simp

lemma publish_hint_logs:
  assumes "publish_hint (infilfs_publication_io E p) copy d = (r, d')"
  shows "logs [hint_write E (pub_disk p) copy] d d' (r = None)"
proof -
  obtain a d1 where a: "infilfs_publish_locator E p copy d = (a, d1)" by fastforce
  show ?thesis
  proof (cases a)
    case (Some e)
    then show ?thesis
      using assms a locator_logs(1) [OF a] by (auto simp: publish_hint_def infilfs_publication_io_def)
  next
    case None
    then show ?thesis
      using assms a locator_logs(2) [OF a None, of r d'] by (auto simp: publish_hint_def infilfs_publication_io_def)
  qed
qed

lemma commit_logs:
  assumes "infilfs_checkpoint_publish E sb (sb_block E sb) first False d = (r, c, d')"
  shows "logs (commit_writes E sb first) d d' (r = None)"
    "c \<Longrightarrow> flushes (bd_log d) + 1 \<le> flushes (bd_log d')"
  using publish_copies_logs [of E "\<lparr> pub_disk = sb, pub_encoded = sb_block E sb \<rparr>" first "[0..<3]" False d r c d'] assms
  by (simp_all add: infilfs_checkpoint_publish_def infs_checkpoint_publish_def Suc_le_eq)

lemma relocate_logs:
  assumes "infilfs_checkpoint_publish E sb (sb_block E sb) first True d = (r, c, d')"
  shows "logs (relocate_writes E sb) d d' (r = None) \<and>
    (c \<longrightarrow> flushes (bd_log d) + 2 \<le> flushes (bd_log d'))"
proof -
  let ?p = "\<lparr> pub_disk = sb, pub_encoded = sb_block E sb \<rparr>"
  let ?io = "infilfs_publication_io E ?p"
  note defs = infilfs_checkpoint_publish_def infs_checkpoint_publish_def
  obtain a d1 where a: "publish_hint ?io 0 d = (a, d1)" by fastforce
  note la = publish_hint_logs [OF a, simplified]
  show ?thesis
  proof (cases a)
    case (Some e)
    then show ?thesis using assms a logs_more [OF la, of "commit_writes E sb 1 @ [hint_write E sb 1]"]
      by (auto simp: defs)
  next
    case None
    obtain b c1 d2 where b: "publish_copies ?io 1 [0..<3] False d1 = (b, c1, d2)" using prod_cases3 by blast
    note lb = publish_copies_logs [OF b]
    have lab: "logs (hint_write E sb 0 # commit_writes E sb 1) d d2 (b = None)"
      "c1 \<Longrightarrow> flushes (bd_log d) + 2 \<le> flushes (bd_log d2)"
      using lb la None logs_trans [of "[hint_write E sb 0]" d d1 "commit_writes E sb 1" d2 "b = None"]
        logs_flushes(2) [of "[hint_write E sb 0]" d d1] by auto
    show ?thesis
    proof (cases b)
      case (Some e)
      then show ?thesis using assms a None b logs_more [OF lab(1), of "[hint_write E sb 1]"] lab(2)
        by (auto simp: defs)
    next
      case bNone: None
      obtain q d3 where q: "publish_hint ?io 1 d2 = (q, d3)" by fastforce
      have l: "logs [hint_write E sb 1] d2 d3 (q = None)" using publish_hint_logs [OF q] by simp
      then have "logs (relocate_writes E sb) d d3 (q = None)"
        using logs_trans [of _ d d2 "[hint_write E sb 1]"] lab(1) bNone by fastforce
      then show ?thesis using assms a None b bNone q lab(2) logs_flushes(1) [OF l] by (auto simp: defs)
    qed
  qed
qed


section \<open>Contents of a crashed medium\<close>

lemma written_other: "p \<notin> fst ` set ws \<Longrightarrow> written ws init p = init p"
  by (induction ws arbitrary: init) auto

lemma written_nth:
  "distinct (map fst ws) \<Longrightarrow> i < length ws \<Longrightarrow> written ws init (fst (ws ! i)) = snd (ws ! i)"
proof (induction ws arbitrary: init i)
  case (Cons w ws)
  then show ?case by (cases w; cases i) (auto simp: written_other)
qed simp

lemma staged_contents:
  assumes "staged ws log" "img \<in> crash_images torn init log" "distinct (map fst ws)"
  obtains k where "flushes log \<le> k" "k \<le> length ws"
    "\<And>p. p \<notin> fst ` set ws \<Longrightarrow> img p = init p"
    "\<And>i. i < k \<Longrightarrow> img (fst (ws ! i)) = snd (ws ! i)"
    "\<And>i. k < i \<Longrightarrow> i < length ws \<Longrightarrow> img (fst (ws ! i)) = init (fst (ws ! i))"
    "k < length ws \<Longrightarrow> img (fst (ws ! k)) = init (fst (ws ! k)) \<or> img (fst (ws ! k)) \<in> torn (fst (ws ! k))"
proof -
  obtain k where k: "flushes log \<le> k" "k \<le> length ws"
    "img = written (take k ws) init \<or>
     k < length ws \<and> (\<exists>v\<in>torn (fst (ws ! k)). img = (written (take k ws) init)(fst (ws ! k) := v))"
    by (rule staged_crash [OF assms(1,2)])
  have d: "distinct (map fst (take k ws))" using assms(3) by (simp add: distinct_take flip: take_map)
  have inj: "fst (ws ! i) = fst (ws ! j) \<longleftrightarrow> i = j" if "i < length ws" "j < length ws" for i j
    using nth_eq_iff_index_eq [OF assms(3), of i j] that by simp
  have lo: "written (take k ws) init (fst (ws ! i)) = snd (ws ! i)" if "i < k" for i
    using written_nth [OF d, of i init] that k(2) by simp
  have hi: "written (take k ws) init (fst (ws ! i)) = init (fst (ws ! i))" if "k \<le> i" "i < length ws" for i
  proof (rule written_other)
    show "fst (ws ! i) \<notin> fst ` set (take k ws)"
    proof
      assume "fst (ws ! i) \<in> fst ` set (take k ws)"
      then have "fst (ws ! i) \<in> set (take k (map fst ws))" by (simp add: take_map)
      then obtain n where "n < k" "fst (ws ! i) = fst (ws ! n)" using k(2) by (auto simp: in_set_conv_nth)
      then show False using inj [of i n] that k(2) by simp
    qed
  qed
  have out: "written (take k ws) init p = init p" if "p \<notin> fst ` set ws" for p
    using that by (intro written_other) (auto dest: in_set_takeD)
  show ?thesis
  proof (rule that [OF k(1,2)])
    show "img p = init p" if "p \<notin> fst ` set ws" for p
      using k(3) out [OF that] that image_eqI [OF refl nth_mem [of k ws], of fst] by auto
    show "img (fst (ws ! i)) = snd (ws ! i)" if "i < k" for i
      using k(2,3) lo [OF that] that inj [of i k] by auto
    show "img (fst (ws ! i)) = init (fst (ws ! i))" if "k < i" "i < length ws" for i
      using k(3) hi [of i] that inj [of i k] by auto
    show "img (fst (ws ! k)) = init (fst (ws ! k)) \<or> img (fst (ws ! k)) \<in> torn (fst (ws ! k))" if "k < length ws"
      using k(3) hi [of k] that by auto
  qed
qed

section \<open>Superblocks and maps on a medium\<close>

lemma sb_block_ok:
  assumes "ext_ok E" "volume_ok E phys sb"
  shows "length (sb_block E sb) = 4096" "infs_validate_superblock_block_minor E (sb_block E sb) 19"
    "sb_total_blocks (sealed E sb) = sb_total_blocks sb" "sb_filesystem_uuid (sealed E sb) = sb_filesystem_uuid sb"
    "sb_checkpoint_block (sealed E sb) = sb_checkpoint_block sb" "sb_generation (sealed E sb) = sb_generation sb"
proof -
  obtain c where "length (sb_block E sb) = 4096" "infs_validate_superblock_block_minor E (sb_block E sb) 19"
    "sealed E sb = sb \<lparr> sb_checksum := c \<rparr>"
    using assms(2) unfolding sealed_def sb_block_def volume_ok_def
    by (auto intro: sealed_superblock [OF assms(1), of sb])
  then show "length (sb_block E sb) = 4096" "infs_validate_superblock_block_minor E (sb_block E sb) 19"
    "sb_total_blocks (sealed E sb) = sb_total_blocks sb" "sb_filesystem_uuid (sealed E sb) = sb_filesystem_uuid sb"
    "sb_checkpoint_block (sealed E sb) = sb_checkpoint_block sb" "sb_generation (sealed E sb) = sb_generation sb"
    by simp_all
qed

lemma hint_decodes:
  assumes "ext_le E" "volume_ok E phys sb"
  shows "infs_locator_decode (hint_block E sb) phys = Inr (geometry_of sb)"
proof -
  have l: "length (sb_checkpoint_block sb) = 3" and v: "locator_fields_valid (geometry_of sb)" "sb_total_blocks sb \<le> phys"
    and wf: "locator_wf (geometry_of sb)"
    using assms(2) by (auto simp: volume_ok_def superblock_wf_def geometry_of_def locator_wf_def)
  have "locator_of sb = geometry_of sb"
    using map_nth [of "sb_checkpoint_block sb"] l by (simp add: locator_of_def geometry_of_def)
  then show ?thesis
    using kernel_encode_eq [OF assms(1) wf] sealed_locator [OF wf v(1)] v(2)
    by (cases "infs_locator_encode (geometry_of sb)") (auto simp: encoded_def geometry_of_def)
qed

lemma same_geometry_of [simp]: "same_geometry (geometry_of sb) sb"
  by (simp add: same_geometry_def geometry_of_def)

lemma primary_of_block:
  assumes "ext_ok E" "volume_ok E phys sb"
  shows "same_geometry (primary_map E (sb_block E sb)) sb" "primary_valid E phys (sb_block E sb)"
proof -
  have p: "primary_map E (sb_block E sb) = geometry_of sb"
    using primary_map_geometry [of "sb_block E sb" E] sb_block_ok [OF assms]
    by (simp add: sealed_def [symmetric]) (simp add: geometry_of_def)
  then show "same_geometry (primary_map E (sb_block E sb)) sb" "primary_valid E phys (sb_block E sb)"
    using assms(2) sb_block_ok(2) [OF assms] by (auto simp: primary_valid_def volume_ok_def) (simp add: geometry_of_def)
qed

lemma not_newer_self: "not_newer E sb (sb_block E sb)"
  by (simp add: not_newer_def sealed_def)

lemma not_newer_rejected: "rejected E phys raw \<Longrightarrow> not_newer E sb raw"
  by (simp add: not_newer_def rejected_def)

lemma not_newer_step:
  assumes "not_newer E old raw" "sb_generation old < sb_generation new" "sb_filesystem_uuid new = sb_filesystem_uuid old"
    "ext_ok E" "volume_ok E phys old"
  shows "not_newer E new raw"
  using assms(1-3) sb_block_ok(6) [OF assms(4,5)] by (auto simp: not_newer_def Let_def)

lemma recoversI:
  assumes "ext_ok E" "volume_ok E phys sb" "\<And>m. m \<in> geometry_maps E img phys \<Longrightarrow> loc_filesystem_uuid m = sb_filesystem_uuid sb"
    and m: "m \<in> geometry_maps E img phys" "same_geometry m sb" and j: "j < 3" "img (sb_checkpoint_block sb ! j) = sb_block E sb"
    and n: "\<And>m j. m \<in> geometry_maps E img phys \<Longrightarrow> j < 3 \<Longrightarrow> not_newer E sb (img (loc_checkpoint m ! j))"
  shows "recovers E phys img sb"
  unfolding recovers_def
proof (intro conjI ballI)
  show "\<not> identity_conflict E img phys" by (simp add: identity_conflict_def assms(3))
  have "map_matches E m (sb_block E sb)"
    using m(2) sb_block_ok [OF assms(1,2)] by (simp add: map_matches_def same_geometry_def sealed_def Let_def list_all_iff)
  then show "sealed E sb \<in> admitted E img phys"
    using m j unfolding admitted_def by (auto simp: same_geometry_def sealed_def intro!: exI [of _ m] exI [of _ j])
next
  fix x assume "x \<in> admitted E img phys"
  then obtain m' i where "m' \<in> geometry_maps E img phys" "i < 3" "map_matches E m' (img (loc_checkpoint m' ! i))"
    "x = superblock_of E (get_bytes 0 252 (img (loc_checkpoint m' ! i)))" by (auto simp: admitted_def)
  then show "x = sealed E sb \<or> sb_generation x < sb_generation sb"
    using n assms(3) by (auto simp: not_newer_def map_matches_def Let_def)
qed

lemma maps_cases:
  assumes "ext_le E" "volume_ok E phys new" "describes E phys init old"
    and "\<And>p. p \<in> {1, 2047} \<Longrightarrow> img p = init p \<or> img p = hint_block E new \<or> rejected E phys (img p)"
    and "img 0 = init 0 \<or> img 0 = sb_block E new \<or> rejected E phys (img 0)"
    and "m \<in> geometry_maps E img phys"
  shows "same_geometry m old \<or> same_geometry m new"
proof -
  have ok: "ext_ok E" using assms(1) by (simp add: ext_le_def)
  have i: "x \<in> geometry_maps E init phys \<Longrightarrow> same_geometry x old" for x
    using assms(3) by (simp add: describes_def)
  have loc: "same_geometry m old \<or> same_geometry m new" if "p \<in> {1, 2047}" "infs_locator_decode (img p) phys = Inr m" for p
    using assms(4) [OF that(1)] that hint_decodes [OF assms(1,2)] i
    by (auto simp: rejected_def geometry_maps_def)
  have "same_geometry m old \<or> same_geometry m new" if "m = primary_map E (img 0)" "primary_valid E phys (img 0)"
    using assms(5) that primary_of_block [OF ok assms(2)] i
    by (auto simp: rejected_def geometry_maps_def primary_valid_def)
  then show ?thesis using assms(6) loc by (auto simp: geometry_maps_def)
qed


section \<open>Crash safety\<close>

lemma volume_positions:
  assumes "volume_ok E phys sb"
  shows "j < 3 \<Longrightarrow> sb_checkpoint_block sb ! j \<notin> {1, 2047}" "sb_checkpoint_block sb ! 0 = 0"
    "i < 3 \<Longrightarrow> j < 3 \<Longrightarrow> sb_checkpoint_block sb ! i = sb_checkpoint_block sb ! j \<longleftrightarrow> i = j"
proof -
  have v: "locator_fields_valid (geometry_of sb)" using assms by (simp add: volume_ok_def)
  show "j < 3 \<Longrightarrow> sb_checkpoint_block sb ! j \<notin> {1, 2047}" "sb_checkpoint_block sb ! 0 = 0"
    using fields_valid_checkpoint [OF v, of j] fields_valid_checkpoint [OF v, of 0] by (auto simp: geometry_of_def)
  have lt: "sb_checkpoint_block sb ! a \<noteq> sb_checkpoint_block sb ! b" if "a < b" "b < 3" for a b
    using v that unfolding locator_fields_valid_def
    by (auto simp: geometry_of_def list_all_iff Let_def split: if_splits)
  show "sb_checkpoint_block sb ! i = sb_checkpoint_block sb ! j \<longleftrightarrow> i = j" if "i < 3" "j < 3"
    using lt [of i j] lt [of j i] that by (cases i j rule: linorder_cases) auto
qed


lemma less3: "(i :: nat) < 3 \<longleftrightarrow> i = 0 \<or> i = 1 \<or> i = 2"
  by auto

lemma mod3_inj: "i < 3 \<Longrightarrow> j < 3 \<Longrightarrow> (a + i) mod 3 = (a + j) mod 3 \<longleftrightarrow> i = (j :: nat)"
proof -
  assume "i < 3" "j < 3"
  moreover have "a mod 3 < 3" by simp
  moreover have "(a + i) mod 3 = (a mod 3 + i) mod 3" "(a + j) mod 3 = (a mod 3 + j) mod 3"
    by (simp_all add: mod_add_left_eq)
  ultimately show ?thesis unfolding less3 by (elim disjE) simp_all
qed

lemma mod3_surj: "j < 3 \<Longrightarrow> \<exists>i<3. (a + i) mod 3 = (j :: nat)"
proof -
  assume "j < 3"
  have "(\<lambda>i. (a + i) mod 3) ` {..<3} = {..<3}"
    using mod3_inj [of _ _ a] by (intro endo_inj_surj) (auto intro!: inj_onI)
  then have "j \<in> (\<lambda>i. (a + i) mod 3) ` {..<3}" using \<open>j < 3\<close> by simp
  then show ?thesis by auto
qed

lemma commit_contents:
  assumes new: "volume_ok E phys new" and torn: "torn_detected E phys torn"
    and log: "staged (commit_writes E new first) log" "img \<in> crash_images torn init log"
  obtains k where "flushes log \<le> k" "k \<le> 3" "\<And>p. p \<in> {1, 2047} \<Longrightarrow> img p = init p"
    "\<And>i. i < k \<Longrightarrow> img (sb_checkpoint_block new ! ((first + i) mod 3)) = sb_block E new"
    "\<And>j. j < 3 \<Longrightarrow> img (sb_checkpoint_block new ! j) = init (sb_checkpoint_block new ! j) \<or>
       0 < k \<and> img (sb_checkpoint_block new ! j) = sb_block E new \<or> rejected E phys (img (sb_checkpoint_block new ! j))"
    "\<And>j. j < 3 \<Longrightarrow> k = 0 \<Longrightarrow> j \<noteq> first mod 3 \<Longrightarrow> img (sb_checkpoint_block new ! j) = init (sb_checkpoint_block new ! j)"
proof -
  let ?ws = "commit_writes E new first" and ?cp = "\<lambda>j. sb_checkpoint_block new ! j"
  note pos = volume_positions [OF new]
  have len: "length ?ws = 3" by simp
  have ws: "fst (?ws ! i) = ?cp ((first + i) mod 3)" "snd (?ws ! i) = sb_block E new" if "i < 3" for i
    using that by simp_all
  have dist: "distinct (map fst ?ws)"
    using pos(3) mod3_inj [of _ _ first] by (auto simp: distinct_conv_nth)
  obtain k where k: "flushes log \<le> k" "k \<le> length ?ws" "\<And>p. p \<notin> fst ` set ?ws \<Longrightarrow> img p = init p"
    "\<And>i. i < k \<Longrightarrow> img (fst (?ws ! i)) = snd (?ws ! i)"
    "\<And>i. k < i \<Longrightarrow> i < length ?ws \<Longrightarrow> img (fst (?ws ! i)) = init (fst (?ws ! i))"
    "k < length ?ws \<Longrightarrow> img (fst (?ws ! k)) = init (fst (?ws ! k)) \<or> img (fst (?ws ! k)) \<in> torn (fst (?ws ! k))"
    by (rule staged_contents [OF log dist]) blast
  show ?thesis
  proof (rule that [OF k(1) k(2) [unfolded len]])
    show "img p = init p" if "p \<in> {1, 2047}" for p
      using pos(1) that by (intro k(3)) force
    show "img (?cp ((first + i) mod 3)) = sb_block E new" if "i < k" for i
      using k(4) [OF that] k(2) ws [of i] that by simp
  next
    fix j :: nat assume "j < 3"
    then obtain i where i: "i < 3" "(first + i) mod 3 = j" using mod3_surj by blast
    show "img (?cp j) = init (?cp j) \<or> 0 < k \<and> img (?cp j) = sb_block E new \<or> rejected E phys (img (?cp j))"
      using k(4) [of i] k(5) [of i] k(6) torn ws [OF i(1)] i
      by (cases i k rule: linorder_cases) (auto simp: torn_detected_def)
    show "img (?cp j) = init (?cp j)" if "k = 0" "j \<noteq> first mod 3"
      using k(5) [of i] ws [OF i(1)] i that by (cases "i = 0") auto
  qed
qed

lemma commit_crash:
  assumes E: "ext_le E" and old: "volume_ok E phys old" and new: "volume_ok E phys new"
    and geo: "sb_total_blocks new = sb_total_blocks old" "sb_filesystem_uuid new = sb_filesystem_uuid old"
      "sb_checkpoint_block new = sb_checkpoint_block old"
    and gen: "sb_generation old < sb_generation new" and torn: "torn_detected E phys torn"
    and desc: "describes E phys init old"
    and hint: "a \<in> {1, 2047}" "infs_locator_decode (init a) phys = Inr h"
    and surv: "s < 3" "s \<noteq> first mod 3" "init (sb_checkpoint_block old ! s) = sb_block E old"
    and log: "staged (commit_writes E new first) log" "img \<in> crash_images torn init log"
  shows "recovers E phys img new \<or> flushes log = 0 \<and> recovers E phys img old"
    "flushes log = 3 \<Longrightarrow> j < 3 \<Longrightarrow> img (sb_checkpoint_block new ! j) = sb_block E new"
proof -
  let ?cp = "\<lambda>j. sb_checkpoint_block new ! j"
  have ok: "ext_ok E" using E by (simp add: ext_le_def)
  obtain k where k: "flushes log \<le> k" "k \<le> 3" "\<And>p. p \<in> {1, 2047} \<Longrightarrow> img p = init p"
    "\<And>i. i < k \<Longrightarrow> img (?cp ((first + i) mod 3)) = sb_block E new"
    "\<And>j. j < 3 \<Longrightarrow> img (?cp j) = init (?cp j) \<or> 0 < k \<and> img (?cp j) = sb_block E new \<or> rejected E phys (img (?cp j))"
    "\<And>j. j < 3 \<Longrightarrow> k = 0 \<Longrightarrow> j \<noteq> first mod 3 \<Longrightarrow> img (?cp j) = init (?cp j)"
    using commit_contents [OF new torn log] by blast
  have maps: "same_geometry m old" if "m \<in> geometry_maps E img phys" for m
    using maps_cases [OF E new desc _ _ that] k(3) k(5) [of 0] volume_positions(2) [OF new] geo
    by (auto simp: same_geometry_def)
  have h: "h \<in> geometry_maps E img phys" using hint k(3) [OF hint(1)] by (auto simp: geometry_maps_def)
  have nn: "not_newer E old (init (?cp j))" if "j < 3" for j
    using desc that geo(3) by (simp add: describes_def)
  show "recovers E phys img new \<or> flushes log = 0 \<and> recovers E phys img old"
  proof (cases "k = 0")
    case True
    have sv: "img (sb_checkpoint_block old ! s) = sb_block E old" using k(6) [of s] True surv geo(3) by simp
    have "recovers E phys img old"
    proof (rule recoversI [OF ok old _ h _ surv(1) sv])
      show "not_newer E old (img (loc_checkpoint m ! j))" if "m \<in> geometry_maps E img phys" "j < 3" for m j
        using k(5) [OF that(2)] True nn [OF that(2)] not_newer_rejected maps [OF that(1)] that(2) geo(3)
        by (auto simp: same_geometry_def)
    qed (use maps h in \<open>auto simp: same_geometry_def\<close>)
    then show ?thesis using True k(1) by simp
  next
    case False
    then have b: "img (?cp (first mod 3)) = sb_block E new" using k(4) [of 0] by simp
    have "recovers E phys img new"
    proof (rule recoversI [OF ok new _ h _ _ b])
      show "not_newer E new (img (loc_checkpoint m ! j))" if "m \<in> geometry_maps E img phys" "j < 3" for m j
        using k(5) [OF that(2)] not_newer_step [OF nn [OF that(2)] gen geo(2) ok old] not_newer_self
          not_newer_rejected maps [OF that(1)] that(2) geo(3) by (auto simp: same_geometry_def)
    qed (use maps h geo in \<open>auto simp: same_geometry_def\<close>)
    then show ?thesis by simp
  qed
  show "img (?cp j) = sb_block E new" if "flushes log = 3" "j < 3"
    using mod3_surj [OF that(2), of first] k(1,2,4) that(1) by (metis le_antisym)
qed


lemma relocate_list:
  "relocate_writes E sb = [(1, hint_block E sb), (sb_checkpoint_block sb ! 1, sb_block E sb),
     (sb_checkpoint_block sb ! 2, sb_block E sb), (sb_checkpoint_block sb ! 0, sb_block E sb), (2047, hint_block E sb)]"
  by (simp add: upt_rec numeral_2_eq_2)

lemma relocate_contents:
  assumes new: "volume_ok E phys new" and torn: "torn_detected E phys torn"
    and log: "staged (relocate_writes E new) log" "img \<in> crash_images torn init log"
  obtains k where "flushes log \<le> k" "k \<le> 5"
    "\<And>p. p \<notin> {1, 2047} \<Longrightarrow> img p = init p \<or> 2 \<le> k \<and> img p = sb_block E new \<or> rejected E phys (img p)"
    "\<And>p. p \<in> {1, 2047} \<Longrightarrow> img p = init p \<or> img p = hint_block E new \<or> rejected E phys (img p)"
    "k < 2 \<Longrightarrow> img 0 = init 0"
    "2 \<le> k \<Longrightarrow> img 1 = hint_block E new \<and> img (sb_checkpoint_block new ! 1) = sb_block E new"
    "k = 5 \<Longrightarrow> img 2047 = hint_block E new \<and> (\<forall>j<3. img (sb_checkpoint_block new ! j) = sb_block E new)"
proof -
  let ?ws = "relocate_writes E new" and ?cp = "\<lambda>j. sb_checkpoint_block new ! j"
  note pos = volume_positions [OF new]
  have p: "?cp 0 = 0" "?cp 1 \<noteq> 0" "?cp 2 \<noteq> 0" "?cp 1 \<noteq> ?cp 2" "?cp 1 \<noteq> 1" "?cp 2 \<noteq> 1" "?cp 1 \<noteq> 2047" "?cp 2 \<noteq> 2047"
    using pos(1) [of 1] pos(1) [of 2] pos(2) pos(3) [of 1 0] pos(3) [of 2 0] pos(3) [of 1 2] by auto
  have len: "length ?ws = 5" by (simp add: relocate_list)
  have dist: "distinct (map fst ?ws)" unfolding relocate_list using p by auto
  obtain k where k: "flushes log \<le> k" "k \<le> length ?ws" "\<And>p. p \<notin> fst ` set ?ws \<Longrightarrow> img p = init p"
    "\<And>i. i < k \<Longrightarrow> img (fst (?ws ! i)) = snd (?ws ! i)"
    "\<And>i. k < i \<Longrightarrow> i < length ?ws \<Longrightarrow> img (fst (?ws ! i)) = init (fst (?ws ! i))"
    "k < length ?ws \<Longrightarrow> img (fst (?ws ! k)) = init (fst (?ws ! k)) \<or> img (fst (?ws ! k)) \<in> torn (fst (?ws ! k))"
    by (rule staged_contents [OF log dist]) blast
  have cell: "img (fst (?ws ! i)) = init (fst (?ws ! i)) \<or> i < k \<and> img (fst (?ws ! i)) = snd (?ws ! i) \<or>
      rejected E phys (img (fst (?ws ! i)))" if "i < 5" for i
    using k(4) [of i] k(5) [of i] k(6) torn that len by (cases i k rule: linorder_cases) (auto simp: torn_detected_def)
  have copies: "img q = init q \<or> 2 \<le> k \<and> img q = sb_block E new \<or> rejected E phys (img q)"
    if "q = ?cp 1 \<or> q = ?cp 2 \<or> q = ?cp 0" for q
    using that
  proof (elim disjE)
    assume "q = ?cp 1" then show ?thesis using cell [of 1] unfolding relocate_list by simp linarith
  next
    assume "q = ?cp 2" then show ?thesis using cell [of 2] unfolding relocate_list by simp linarith
  next
    assume "q = ?cp 0" then show ?thesis using cell [of 3] unfolding relocate_list by simp linarith
  qed
  have hints: "img q = init q \<or> img q = hint_block E new \<or> rejected E phys (img q)" if "q = 1 \<or> q = 2047" for q
    using that
  proof (elim disjE)
    assume "q = 1" then show ?thesis using cell [of 0] unfolding relocate_list by simp blast
  next
    assume "q = 2047" then show ?thesis using cell [of 4] unfolding relocate_list by simp blast
  qed
  have out: "img q = init q" if "q \<notin> {1, 2047, ?cp 0, ?cp 1, ?cp 2}" for q
    using k(3) [of q] that unfolding relocate_list by simp
  show ?thesis
  proof (rule that [OF k(1) k(2) [unfolded len]])
    show "img q = init q \<or> 2 \<le> k \<and> img q = sb_block E new \<or> rejected E phys (img q)" if "q \<notin> {1, 2047}" for q
      using out [of q] that copies [of q] by blast
    show "img q = init q \<or> img q = hint_block E new \<or> rejected E phys (img q)" if "q \<in> {1, 2047}" for q
      using that hints [of q] by blast
    show "img 0 = init 0" if "k < 2" using k(5) [of 3] that p(1) unfolding relocate_list by simp
    show "img 1 = hint_block E new \<and> img (?cp 1) = sb_block E new" if "2 \<le> k"
      using k(4) [of 0] k(4) [of 1] that unfolding relocate_list by simp
    show "img 2047 = hint_block E new \<and> (\<forall>j<3. img (?cp j) = sb_block E new)" if "k = 5"
      using k(4) [of 1] k(4) [of 2] k(4) [of 3] k(4) [of 4] that unfolding relocate_list by (simp add: less3)
  qed
qed

lemma relocate_crash:
  assumes E: "ext_le E" and old: "volume_ok E phys old" and new: "volume_ok E phys new"
    and uuid: "sb_filesystem_uuid new = sb_filesystem_uuid old"
    and gen: "sb_generation old < sb_generation new" and torn: "torn_detected E phys torn"
    and desc: "describes E phys init old" and prim: "init 0 = sb_block E old"
    and stale: "\<And>j. j < 3 \<Longrightarrow> not_newer E old (init (sb_checkpoint_block new ! j))"
    and log: "staged (relocate_writes E new) log" "img \<in> crash_images torn init log"
  shows "recovers E phys img new \<or> flushes log < 2 \<and> recovers E phys img old"
    "flushes log = 5 \<Longrightarrow> settled E phys img new"
proof -
  have ok: "ext_ok E" using E by (simp add: ext_le_def)
  obtain k where k: "flushes log \<le> k" "k \<le> 5"
    "\<And>p. p \<notin> {1, 2047} \<Longrightarrow> img p = init p \<or> 2 \<le> k \<and> img p = sb_block E new \<or> rejected E phys (img p)"
    "\<And>p. p \<in> {1, 2047} \<Longrightarrow> img p = init p \<or> img p = hint_block E new \<or> rejected E phys (img p)"
    "k < 2 \<Longrightarrow> img 0 = init 0"
    "2 \<le> k \<Longrightarrow> img 1 = hint_block E new \<and> img (sb_checkpoint_block new ! 1) = sb_block E new"
    "k = 5 \<Longrightarrow> img 2047 = hint_block E new \<and> (\<forall>j<3. img (sb_checkpoint_block new ! j) = sb_block E new)"
    using relocate_contents [OF new torn log] by blast
  have maps: "same_geometry m old \<or> same_geometry m new" if "m \<in> geometry_maps E img phys" for m
    using k(3) [of 0] k(4) by (intro maps_cases [OF E new desc _ _ that]) auto
  have ids: "loc_filesystem_uuid m = sb_filesystem_uuid old" if "m \<in> geometry_maps E img phys" for m
    using maps [OF that] uuid by (auto simp: same_geometry_def)
  have at: "not_newer E old (init (loc_checkpoint m ! j))" "loc_checkpoint m ! j \<notin> {1, 2047}"
    if "m \<in> geometry_maps E img phys" "j < 3" for m j
    using maps [OF that(1)] that(2) desc stale volume_positions(1) [OF old that(2)] volume_positions(1) [OF new that(2)]
    by (auto simp: same_geometry_def describes_def)
  show "recovers E phys img new \<or> flushes log < 2 \<and> recovers E phys img old"
  proof (cases "k < 2")
    case True
    have i0: "img 0 = sb_block E old" using k(5) True prim by simp
    have m: "primary_map E (img 0) \<in> geometry_maps E img phys" "same_geometry (primary_map E (img 0)) old"
      using primary_of_block [OF ok old] by (auto simp: geometry_maps_def i0)
    have "recovers E phys img old"
    proof (rule recoversI [OF ok old _ m, of 0])
      show "not_newer E old (img (loc_checkpoint m ! j))" if "m \<in> geometry_maps E img phys" "j < 3" for m j
        using k(3) [OF at(2) [OF that]] True at(1) [OF that] not_newer_rejected by auto
    qed (simp_all add: ids i0 volume_positions(2) [OF old])
    then show ?thesis using True k(1) by simp
  next
    case False
    then have b: "img 1 = hint_block E new" "img (sb_checkpoint_block new ! 1) = sb_block E new" using k(6) by auto
    have m: "geometry_of new \<in> geometry_maps E img phys" using hint_decodes [OF E new] b by (simp add: geometry_maps_def)
    have "recovers E phys img new"
    proof (rule recoversI [OF ok new _ m same_geometry_of _ b(2)])
      show "not_newer E new (img (loc_checkpoint m ! j))" if "m \<in> geometry_maps E img phys" "j < 3" for m j
        using k(3) [OF at(2) [OF that]] not_newer_step [OF at(1) [OF that] gen uuid ok old] not_newer_self
          not_newer_rejected by auto
    qed (simp_all add: ids uuid)
    then show ?thesis by simp
  qed
  show "settled E phys img new" if "flushes log = 5"
    using k(1,2,6,7) that hint_decodes [OF E new] by (auto simp: settled_def)
qed


section \<open>The encoder, progress and repair\<close>

lemma rw_crc64: "infilfs_rw_crc64 data = infs_crc64_ecma data"
proof -
  have "foldl (\<lambda>crc d. push_bit 8 crc XOR crc64_ecma_table ! unat (ucast (drop_bit 56 crc XOR ucast d) :: u8)) c data =
      crc64_loop c data" for c
    by (induction data arbitrary: c) (simp_all add: Let_def xor.commute)
  then show ?thesis by (simp add: infilfs_rw_crc64_def infs_crc64_ecma_def)
qed

lemma rw_encode_eq:
  assumes "ext_ok E" "superblock_wf sb" "infs_encode_superblock E sb = Inr b"
  shows "infilfs_rw_encode_superblock E sb = b"
proof -
  have l: "length (superblock_bytes E sb) = 252" by (rule superblock_laws(1) [OF assms(1,2)])
  then show ?thesis
    using assms(3)
    by (auto simp: infs_encode_superblock_def infilfs_rw_encode_superblock_def infilfs_rw_store_crc_def store_crc_def
        rw_crc64 block_crc_with_zeroed_checksum_def put_bytes_same split: if_splits)
qed

lemma rw_encode_volume:
  assumes "ext_ok E" "volume_ok E phys sb"
  shows "infilfs_rw_encode_superblock E sb = sb_block E sb"
proof -
  obtain c where "infs_encode_superblock E sb = Inr (sb_block E sb)"
    using sealed_superblock [OF assms(1), of sb thesis] assms(2) by (auto simp: volume_ok_def sb_block_def)
  then show ?thesis using rw_encode_eq [OF assms(1)] assms(2) by (simp add: volume_ok_def)
qed

lemma write_progress:
  assumes "bd_replies d = []" "b < bd_device_blocks d"
  shows "infilfs_checkpoint_write_sync b data d =
    (None, log_event (Wrote b data) (d \<lparr> bd_blocks := (bd_blocks d)(b := data) \<rparr>))"
  using assms by (simp add: infilfs_checkpoint_write_sync_def os_reply_def not_le)

lemma flush_progress:
  "bd_replies d = [] \<Longrightarrow> infilfs_publish_flush d = (None, log_event Flushed d)"
  by (simp add: infilfs_publish_flush_def os_reply_def)

lemma log_event_simps [simp]:
  "bd_replies (log_event e d) = bd_replies d" "bd_device_blocks (log_event e d) = bd_device_blocks d"
  "bd_blocks (log_event e d) = bd_blocks d" "bd_log (log_event e d) = bd_log d @ [e]"
  by (simp_all add: log_event_def)

lemma copies_progress:
  assumes "bd_replies d = []" "\<And>j. j < 3 \<Longrightarrow> sb_checkpoint_block (pub_disk p) ! j < bd_device_blocks d"
  shows "\<exists>d'. publish_copies (infilfs_publication_io E p) first ns c d = (None, c \<or> 0 \<in> set ns, d') \<and>
    bd_replies d' = [] \<and> bd_device_blocks d' = bd_device_blocks d"
  using assms
proof (induction ns arbitrary: c d)
  case (Cons n ns)
  let ?b = "sb_checkpoint_block (pub_disk p) ! ((first + n) mod 3)"
  let ?d = "log_event Flushed (log_event (Wrote ?b (pub_encoded p)) (d \<lparr> bd_blocks := (bd_blocks d)(?b := pub_encoded p) \<rparr>))"
  have "publish_copies (infilfs_publication_io E p) first (n # ns) c d =
      publish_copies (infilfs_publication_io E p) first ns (c \<or> n = 0) ?d"
    using Cons.prems by (simp add: infilfs_publication_io_def infilfs_publish_checkpoint_def write_progress flush_progress)
  moreover obtain d' where "publish_copies (infilfs_publication_io E p) first ns (c \<or> n = 0) ?d =
      (None, (c \<or> n = 0) \<or> 0 \<in> set ns, d')" "bd_replies d' = []" "bd_device_blocks d' = bd_device_blocks ?d"
    using Cons.IH [of ?d "c \<or> n = 0"] Cons.prems by auto
  ultimately show ?case by (auto simp: disj_assoc)
qed simp

lemma hint_encodes:
  assumes "ext_le E" "volume_ok E phys sb"
  obtains raw where "infilfs_locator_encode_019 E (locator_of sb) = Inr raw"
proof -
  have l: "length (sb_checkpoint_block sb) = 3" and v: "locator_fields_valid (geometry_of sb)"
    and wf: "locator_wf (geometry_of sb)"
    using assms(2) by (auto simp: volume_ok_def superblock_wf_def geometry_of_def locator_wf_def)
  have "locator_of sb = geometry_of sb"
    using map_nth [of "sb_checkpoint_block sb"] l by (simp add: locator_of_def geometry_of_def)
  moreover obtain raw where "infs_locator_encode (geometry_of sb) = Inr raw" using sealed_locator(1) [OF wf v] by blast
  ultimately show ?thesis using that [of raw] kernel_encode_eq [OF assms(1) wf] by simp
qed

lemma hint_progress:
  assumes "ext_le E" "volume_ok E phys (pub_disk p)" "bd_replies d = []" "4096 \<le> bd_device_blocks d"
  shows "\<exists>d'. publish_hint (infilfs_publication_io E p) copy d = (None, d') \<and> bd_replies d' = [] \<and>
    bd_device_blocks d' = bd_device_blocks d"
proof -
  have b: "(if copy \<noteq> 0 then 2047 else 1) < bd_device_blocks d" using assms(4) by (cases "copy \<noteq> 0") (simp_all, unat_arith+)
  obtain raw where "infilfs_locator_encode_019 E (locator_of (pub_disk p)) = Inr raw"
    by (rule hint_encodes [OF assms(1,2)])
  then have "infilfs_publish_locator E p copy d =
      infilfs_checkpoint_write_sync (if copy \<noteq> 0 then 2047 else 1) raw d"
    using assms(3) by (simp add: infilfs_publish_locator_def [unfolded Let_def, folded locator_of_def] os_reply_def)
  then show ?thesis
    using assms(3) write_progress [OF assms(3) b, of raw] by (simp add: publish_hint_def infilfs_publication_io_def flush_progress)
qed

lemma publish_progress:
  assumes "ext_le E" "volume_ok E phys sb" "bd_replies d = []" "phys \<le> bd_device_blocks d"
  shows "\<exists>d'. infilfs_checkpoint_publish E sb raw first relocate d = (None, True, d')"
proof -
  let ?p = "\<lparr> pub_disk = sb, pub_encoded = raw \<rparr>"
  have tot: "4096 \<le> sb_total_blocks sb" "sb_total_blocks sb \<le> phys" and v: "locator_fields_valid (geometry_of sb)"
    using assms(2) by (auto simp: volume_ok_def locator_fields_valid_def geometry_of_def split: if_splits)
  have cp: "sb_checkpoint_block (pub_disk ?p) ! j < bd_device_blocks d" if "j < 3" for j
    using fields_valid_checkpoint(1) [OF v that] tot(2) assms(4) by (simp add: geometry_of_def)
  have big: "4096 \<le> bd_device_blocks d" using tot assms(4) by simp
  have vp: "volume_ok E phys (pub_disk ?p)" using assms(2) by simp
  show ?thesis
  proof (cases relocate)
    case False
    then show ?thesis
      using copies_progress [OF assms(3) cp, where E = E and first = first and ns = "[0..<3]" and c = False]
      by (auto simp: infilfs_checkpoint_publish_def infs_checkpoint_publish_def)
  next
    case True
    obtain d1 where d1: "publish_hint (infilfs_publication_io E ?p) 0 d = (None, d1)" "bd_replies d1 = []"
      "bd_device_blocks d1 = bd_device_blocks d" using hint_progress [OF assms(1) vp assms(3) big] by blast
    obtain d2 where d2: "publish_copies (infilfs_publication_io E ?p) 1 [0..<3] False d1 = (None, True, d2)"
      "bd_replies d2 = []" "bd_device_blocks d2 = bd_device_blocks d1"
      using copies_progress [OF d1(2), of ?p E 1 "[0..<3]" False] cp d1(3) by auto
    obtain d3 where d3: "publish_hint (infilfs_publication_io E ?p) 1 d2 = (None, d3)"
      using hint_progress [OF assms(1) vp d2(2)] big d2(3) d1(3) by auto
    show ?thesis using True d1(1) d2(1) d3 by (simp add: infilfs_checkpoint_publish_def infs_checkpoint_publish_def)
  qed
qed

lemma logs_one:
  assumes "logs [(b, x)] d d' True"
  shows "bd_blocks d' = (bd_blocks d)(b := x)" "bd_device_blocks d' = bd_device_blocks d"
  using assms by (auto simp: logs_def)

lemma read_block_result:
  assumes "infilfs_read_block b d = (Inr raw, d')"
  shows "raw = bd_blocks d b" "bd_blocks d' = bd_blocks d" "bd_device_blocks d' = bd_device_blocks d"
  using assms by (auto simp: infilfs_read_block_def os_reply_keeps split: if_splits prod.splits option.splits)

lemma heal_copies_step:
  assumes "heal_copies p (i # is) d = (None, d')"
  obtains d2 where "heal_copies p is d2 = (None, d')" "bd_device_blocks d2 = bd_device_blocks d"
    "bd_blocks d2 = (bd_blocks d)(sb_checkpoint_block (pub_disk p) ! i := pub_encoded p)"
proof -
  let ?b = "sb_checkpoint_block (pub_disk p) ! i"
  obtain x d1 where x: "infilfs_read_block ?b d = (x, d1)" by fastforce
  obtain raw where raw: "x = Inr raw" using assms x by (cases x) simp_all
  note r = read_block_result [OF x [unfolded raw]]
  show ?thesis
  proof (cases "raw = pub_encoded p")
    case True
    then show ?thesis using that [of d1] assms x raw r by (simp add: fun_upd_idem)
  next
    case False
    obtain u d3 where u: "infilfs_publish_checkpoint p i d1 = (u, d3)" by fastforce
    obtain y d4 where y: "infilfs_publish_flush d3 = (y, d4)" by fastforce
    have n: "u = None" using assms x raw False u by (cases u) simp_all
    have m: "y = None" using assms x raw False u n y by (cases y) simp_all
    have h: "heal_copies p is d4 = (None, d')" using assms x raw False u n y m by simp
    have "logs [(?b, pub_encoded p)] d1 d4 True"
      using stage_logs(2) [OF u [unfolded infilfs_publish_checkpoint_def] n y] m by simp
    then show ?thesis using that [OF h] r logs_one by metis
  qed
qed

lemma heal_copies_done:
  assumes "heal_copies p is d = (None, d')"
  shows "i \<in> set is \<Longrightarrow> bd_blocks d' (sb_checkpoint_block (pub_disk p) ! i) = pub_encoded p"
    "bd_blocks d' q = bd_blocks d q \<or> bd_blocks d' q = pub_encoded p" "bd_device_blocks d' = bd_device_blocks d"
proof -
  have "(\<forall>i\<in>set is. bd_blocks d' (sb_checkpoint_block (pub_disk p) ! i) = pub_encoded p) \<and>
    (\<forall>q. bd_blocks d' q = bd_blocks d q \<or> bd_blocks d' q = pub_encoded p) \<and> bd_device_blocks d' = bd_device_blocks d"
    using assms
  proof (induction "is" arbitrary: d)
    case (Cons i "is")
    let ?b = "sb_checkpoint_block (pub_disk p) ! i"
    obtain d2 where d2: "heal_copies p is d2 = (None, d')" "bd_device_blocks d2 = bd_device_blocks d"
      "bd_blocks d2 = (bd_blocks d)(?b := pub_encoded p)" by (rule heal_copies_step [OF Cons.prems])
    have keep: "bd_blocks d' q = (if q = ?b then pub_encoded p else bd_blocks d q) \<or> bd_blocks d' q = pub_encoded p" for q
      using Cons.IH [OF d2(1)] unfolding d2(3) fun_upd_def by blast
    have "bd_blocks d' ?b = pub_encoded p" using keep [of ?b] by simp
    moreover have "bd_blocks d' q = bd_blocks d q \<or> bd_blocks d' q = pub_encoded p" for q
      using keep [of q] by (simp split: if_splits)
    ultimately show ?case using Cons.IH [OF d2(1)] d2(2) by simp
  qed simp
  then show "i \<in> set is \<Longrightarrow> bd_blocks d' (sb_checkpoint_block (pub_disk p) ! i) = pub_encoded p"
    "bd_blocks d' q = bd_blocks d q \<or> bd_blocks d' q = pub_encoded p" "bd_device_blocks d' = bd_device_blocks d"
    by blast+
qed

lemma heal_hints_step:
  assumes "heal_hints E p (i # is) d = (None, d')"
  obtains d2 where "heal_hints E p is d2 = (None, d')" "bd_device_blocks d2 = bd_device_blocks d"
    "bd_blocks d2 = bd_blocks d \<and> locator_current E (pub_disk p) (bd_device_blocks d) (bd_blocks d (hint_at i)) \<or>
     bd_blocks d2 = (bd_blocks d)(hint_at i := hint_block E (pub_disk p))"
proof -
  obtain x d1 where x: "infilfs_read_block (hint_at i) d = (x, d1)" by fastforce
  obtain raw where raw: "x = Inr raw" using assms x by (cases x) simp_all
  note r = read_block_result [OF x [unfolded raw]]
  show ?thesis
  proof (cases "locator_current E (pub_disk p) (bd_device_blocks d1) raw")
    case True
    then show ?thesis using assms x raw r that [of d1] by simp
  next
    case False
    obtain u d3 where u: "infilfs_publish_locator E p i d1 = (u, d3)" by fastforce
    obtain y d4 where y: "infilfs_publish_flush d3 = (y, d4)" by fastforce
    have n: "u = None" using assms x raw False u by (cases u) simp_all
    have m: "y = None" using assms x raw False u n y by (cases y) simp_all
    have h: "heal_hints E p is d4 = (None, d')" using assms x raw False u n y m by simp
    have "logs [hint_write E (pub_disk p) i] d1 d4 True" using locator_logs(2) [OF u n y] m by simp
    then have "bd_blocks d4 = (bd_blocks d)(hint_at i := hint_block E (pub_disk p))" "bd_device_blocks d4 = bd_device_blocks d"
      using logs_one [of "hint_at i" "hint_block E (pub_disk p)" d1 d4] r by simp_all
    then show ?thesis using that [OF h] by blast
  qed
qed


lemma heal_hints_done:
  assumes "heal_hints E p [0..<2] d = (None, d')" "a \<in> {1, 2047}"
  shows "bd_blocks d' a = hint_block E (pub_disk p) \<or>
      bd_blocks d' a = bd_blocks d a \<and> locator_current E (pub_disk p) (bd_device_blocks d) (bd_blocks d a)"
    "q \<notin> {1, 2047} \<Longrightarrow> bd_blocks d' q = bd_blocks d q"
proof -
  have two: "[0..<2] = [0, 1 :: nat]" by (simp add: upt_rec)
  obtain d1 where d1: "heal_hints E p [1] d1 = (None, d')" "bd_device_blocks d1 = bd_device_blocks d"
    "bd_blocks d1 = bd_blocks d \<and> locator_current E (pub_disk p) (bd_device_blocks d) (bd_blocks d (hint_at 0)) \<or>
     bd_blocks d1 = (bd_blocks d)(hint_at 0 := hint_block E (pub_disk p))"
    by (rule heal_hints_step [OF assms(1) [unfolded two]])
  obtain d2 where d2: "heal_hints E p [] d2 = (None, d')"
    "bd_blocks d2 = bd_blocks d1 \<and> locator_current E (pub_disk p) (bd_device_blocks d1) (bd_blocks d1 (hint_at 1)) \<or>
     bd_blocks d2 = (bd_blocks d1)(hint_at 1 := hint_block E (pub_disk p))"
    by (rule heal_hints_step [OF d1(1)])
  have "d2 = d'" using d2(1) by simp
  then show "bd_blocks d' a = hint_block E (pub_disk p) \<or>
      bd_blocks d' a = bd_blocks d a \<and> locator_current E (pub_disk p) (bd_device_blocks d) (bd_blocks d a)"
    "q \<notin> {1, 2047} \<Longrightarrow> bd_blocks d' q = bd_blocks d q"
    using d1(2,3) d2(2) assms(2) by auto
qed

lemma current_same_geometry:
  assumes "ext_le E" "length raw = 4096" "locator_current E disk dev raw"
  shows "\<exists>m. infs_locator_decode raw dev = Inr m \<and> same_geometry m disk"
proof (cases "infs_locator_decode raw dev")
  case (Inr m)
  then show ?thesis
    using assms(3) kernel_decode_eq [OF assms(1,2), of dev]
    by (auto simp: locator_current_def same_geometry_def list_all_iff)
qed (use assms(3) kernel_decode_eq [OF assms(1,2), of dev] in \<open>simp add: locator_current_def\<close>)

lemma heal_settles:
  assumes E: "ext_le E" and v: "volume_ok E (bd_device_blocks d) (sbi_disk sbi)"
    and len: "\<And>q. length (bd_blocks d q) = 4096" and rw: "promoting \<or> \<not> sbi_rdonly sbi"
    and h: "infilfs_checkpoint_heal E promoting sbi d = (None, sbi', d')"
  shows "settled E (bd_device_blocks d) (bd_blocks d') (sbi_disk sbi)"
    "sbi' = sbi \<lparr> sbi_checkpoint_repair_needed := False \<rparr>"
proof -
  let ?sb = "sbi_disk sbi"
  let ?p = "\<lparr> pub_disk = ?sb, pub_encoded = infilfs_rw_encode_superblock E ?sb \<rparr>"
  have ok: "ext_ok E" using E by (simp add: ext_le_def)
  note enc = rw_encode_volume [OF ok v]
  have minor: "sb_format_minor ?sb = 19" using v by (simp add: volume_ok_def superblock_fields_ok_def)
  obtain x d0 where x: "os_reply d = (x, d0)" by fastforce
  have xn: "x = None" using h rw x by (cases x) (auto simp: infilfs_checkpoint_heal_def)
  obtain y d1 where y: "heal_copies ?p [0..<3] d0 = (y, d1)" by fastforce
  obtain z d2 where z: "heal_hints E ?p [0..<2] d1 = (z, d2)" by fastforce
  have yn: "y = None" using h rw x xn y by (cases y) (auto simp: infilfs_checkpoint_heal_def)
  have r: "z = None" "d2 = d'" "sbi' = sbi \<lparr> sbi_checkpoint_repair_needed := False \<rparr>"
    using h rw x xn y yn z minor by (auto simp: infilfs_checkpoint_heal_def split: if_splits)
  note hc = heal_copies_done [OF y [unfolded yn]]
  note hh = heal_hints_done [OF z [unfolded r(1,2)]]
  have dev: "bd_device_blocks d1 = bd_device_blocks d" using hc(3) os_reply_keeps(3) [OF x] by simp
  have l1: "length (bd_blocks d1 q) = 4096" for q
    using hc(2) [of q] len [of q] os_reply_keeps(2) [OF x] sb_block_ok(1) [OF ok v] enc by auto
  have "bd_blocks d' (sb_checkpoint_block ?sb ! j) = sb_block E ?sb" if "j < 3" for j
    using hh(2) [OF _ volume_positions(1) [OF v that], of 1] hc(1) [of j] that enc by simp
  moreover have "\<exists>m. infs_locator_decode (bd_blocks d' a) (bd_device_blocks d) = Inr m \<and> same_geometry m ?sb"
    if "a \<in> {1, 2047}" for a
    using hh(1) [OF that] hint_decodes [OF E v] current_same_geometry [OF E l1 [of a], of ?sb "bd_device_blocks d"] dev
    by auto
  ultimately show "settled E (bd_device_blocks d) (bd_blocks d') ?sb" by (simp add: settled_def)
  show "sbi' = sbi \<lparr> sbi_checkpoint_repair_needed := False \<rparr>" by (rule r(3))
qed

lemma ext_le_lib: "ext_le le_lib"
  by (simp add: ext_le_def) (simp add: le_lib_def get_u16_le get_u64_le)

lemma zeros_rejected: "rejected E phys (zeros 4096)"
proof -
  have g: "get_bytes 0 8 (zeros 4096) = zeros 8" "get_bytes 0 8 (get_bytes 0 252 (zeros 4096)) = zeros 8"
    by (simp_all add: get_bytes_def zeros_def)
  have z: "zeros 8 \<noteq> INFS_MAGIC" "zeros 8 \<noteq> locator_magic"
  proof -
    have h: "hd (zeros 8) = 0" by (simp add: zeros_def)
    have "hd INFS_MAGIC \<noteq> 0" "hd locator_magic \<noteq> 0" by code_simp+
    then show "zeros 8 \<noteq> INFS_MAGIC" "zeros 8 \<noteq> locator_magic" using h by metis+
  qed
  have "sb_magic (superblock_of E (get_bytes 0 252 (zeros 4096))) = zeros 8"
    using g(2) by (simp add: superblock_of_def)
  then show ?thesis
    using g(1) z by (simp add: rejected_def infs_validate_superblock_block_minor_def infs_locator_decode_def Let_def)
qed

lemma image_describes:
  assumes "ext_ok E" "volume_ok E phys sb"
  shows "describes E phys (volume_image E sb) sb" "infs_locator_decode (volume_image E sb 1) phys = Inr (geometry_of sb)"
    "j < 3 \<Longrightarrow> volume_image E sb (sb_checkpoint_block sb ! j) = sb_block E sb"
proof -
  have v: "superblock_wf sb" "superblock_fields_ok E sb" "locator_fields_valid (geometry_of sb)" "sb_total_blocks sb \<le> phys"
    using assms(2) by (simp_all add: volume_ok_def)
  note im = volume_image_blocks [OF assms(1) v(1-3), folded sb_block_def]
  have wf: "locator_wf (geometry_of sb)" using v(1) by (simp add: geometry_of_def locator_wf_def superblock_wf_def)
  have loc: "infs_locator_decode (volume_image E sb p) phys = Inr (geometry_of sb)" if "p \<in> {1, 2047}" for p
    using sealed_locator(3) [OF wf v(3), of phys] that v(4) by (auto simp: volume_image_def geometry_of_def)
  then show "infs_locator_decode (volume_image E sb 1) phys = Inr (geometry_of sb)" by simp
  show at: "volume_image E sb (sb_checkpoint_block sb ! j) = sb_block E sb" if "j < 3" for j by (rule im(2) [OF that])
  show "describes E phys (volume_image E sb) sb"
    using loc [of 1] loc [of 2047] primary_of_block [OF assms] at not_newer_self
    by (auto simp: describes_def geometry_maps_def im(3))
qed

lemma example_volumes_ok:
  "phys \<in> {5000, 9000} \<Longrightarrow> volume_ok le_lib phys example_volume" "volume_ok le_lib 9000 example_next"
  "volume_ok le_lib 9000 example_grown"
proof -
  show "phys \<in> {5000, 9000} \<Longrightarrow> volume_ok le_lib phys example_volume"
    using example_volume_ok by (auto simp: volume_ok_def)
  have wf: "superblock_wf example_next" "superblock_wf example_grown"
    "superblock_fields_ok le_lib example_next" "superblock_fields_ok le_lib example_grown"
    using example_volume_ok(1,2)
    by (simp_all add: example_next_def example_grown_def superblock_wf_def superblock_fields_ok_def)
  have id: "\<not> all_zero (sb_filesystem_uuid example_volume)"
    using example_volume_ok(3) by (simp add: locator_fields_valid_def geometry_of_def split: if_splits)
  have "locator_fields_valid (geometry_of example_next)"
    using example_volume_ok(3) by (simp add: locator_fields_valid_def geometry_of_def example_next_def split: if_splits)
  moreover have "locator_fields_valid (geometry_of example_grown)"
    using id by (simp add: locator_fields_valid_def geometry_of_def example_grown_def upt_rec)
  ultimately show "volume_ok le_lib 9000 example_next" "volume_ok le_lib 9000 example_grown"
    using wf example_volume_ok(4) by (simp_all add: volume_ok_def) (simp_all add: example_next_def example_grown_def)
qed

text \<open>The first reply is that of the buffer allocation: when it fails nothing has been touched.\<close>

lemma heal_no_buffer:
  assumes "infilfs_checkpoint_heal E promoting sbi d = (ret, sbi', d')" "promoting \<or> \<not> sbi_rdonly sbi"
    and "fst (os_reply d) \<noteq> None"
  shows "ret = Some ENOMEM \<and> sbi' = sbi \<and> bd_blocks d' = bd_blocks d \<and> bd_log d' = bd_log d"
  using assms by (auto simp: infilfs_checkpoint_heal_def os_reply_def split: if_splits list.splits)

lemma heal_error:
  assumes "infilfs_checkpoint_heal E promoting sbi d = (Some e, sbi', d')" "fst (os_reply d) = None"
  shows "sbi_write_poisoned sbi' \<and> sbi_checkpoint_repair_needed sbi'"
proof -
  obtain d0 where x: "os_reply d = (None, d0)" using assms(2) by (auto simp: prod_eq_iff)
  let ?p = "\<lparr> pub_disk = sbi_disk sbi, pub_encoded = infilfs_rw_encode_superblock E (sbi_disk sbi) \<rparr>"
  obtain y d1 where y: "heal_copies ?p [0..<3] d0 = (y, d1)" by fastforce
  obtain z d2 where z: "(if y = None \<and> sb_format_minor (sbi_disk sbi) = 19 then heal_hints E ?p [0..<2] d1 else (y, d1)) = (z, d2)"
    by fastforce
  have "(z, (if z \<noteq> None then sbi \<lparr> sbi_write_poisoned := True, sbi_checkpoint_repair_needed := True \<rparr>
        else sbi \<lparr> sbi_checkpoint_repair_needed := False \<rparr>), d2) = (Some e, sbi', d')"
    using assms(1) x y z by (simp add: infilfs_checkpoint_heal_def Let_def split: if_splits)
  then show ?thesis by auto
qed

lemma heal_state:
  assumes "infilfs_checkpoint_heal E promoting sbi d = (None, sbi', d')" "promoting \<or> \<not> sbi_rdonly sbi"
  shows "sbi' = sbi \<lparr> sbi_checkpoint_repair_needed := False \<rparr>"
  using assms by (auto simp: infilfs_checkpoint_heal_def Let_def split: if_splits prod.splits option.splits)

lemma heal_copies_progress:
  assumes "bd_replies d = []" "\<And>i. i \<in> set is \<Longrightarrow> sb_checkpoint_block (pub_disk p) ! i < bd_device_blocks d"
  shows "\<exists>d'. heal_copies p is d = (None, d') \<and> bd_replies d' = [] \<and> bd_device_blocks d' = bd_device_blocks d"
  using assms
proof (induction "is" arbitrary: d)
  case (Cons i "is")
  let ?b = "sb_checkpoint_block (pub_disk p) ! i"
  let ?d = "log_event Flushed (log_event (Wrote ?b (pub_encoded p)) (d \<lparr> bd_blocks := (bd_blocks d)(?b := pub_encoded p) \<rparr>))"
  have b: "?b < bd_device_blocks d" using Cons.prems(2) by simp
  then have rd: "infilfs_read_block ?b d = (Inr (bd_blocks d ?b), d)"
    using Cons.prems(1) by (simp add: infilfs_read_block_def os_reply_def)
  have "heal_copies p (i # is) d = heal_copies p is (if bd_blocks d ?b = pub_encoded p then d else ?d)"
    using Cons.prems(1) b rd by (simp add: infilfs_publish_checkpoint_def write_progress flush_progress)
  moreover have "\<exists>d'. heal_copies p is d2 = (None, d') \<and> bd_replies d' = [] \<and> bd_device_blocks d' = bd_device_blocks d"
    if "bd_replies d2 = []" "bd_device_blocks d2 = bd_device_blocks d" for d2
    using Cons.IH [of d2] Cons.prems that by auto
  ultimately show ?case using Cons.prems(1) by simp
qed simp

lemma heal_hints_progress:
  assumes "ext_le E" "volume_ok E phys (pub_disk p)" "bd_replies d = []" "4096 \<le> bd_device_blocks d"
  shows "\<exists>d'. heal_hints E p is d = (None, d')"
  using assms(3,4)
proof (induction "is" arbitrary: d)
  case (Cons i "is")
  let ?b = "if i \<noteq> 0 then 2047 else 1 :: u64"
  have "?b < bd_device_blocks d" using Cons.prems(2) by (cases "i \<noteq> 0") (simp_all, unat_arith+)
  then have rd: "infilfs_read_block ?b d = (Inr (bd_blocks d ?b), d)"
    using Cons.prems by (simp add: infilfs_read_block_def os_reply_def)
  obtain d2 where d2: "publish_hint (infilfs_publication_io E p) i d = (None, d2)" "bd_replies d2 = []"
    "bd_device_blocks d2 = bd_device_blocks d" using hint_progress [OF assms(1,2) Cons.prems] by blast
  then obtain d1 where "infilfs_publish_locator E p i d = (None, d1)" "infilfs_publish_flush d1 = (None, d2)"
    by (auto simp: publish_hint_def infilfs_publication_io_def split: prod.splits option.splits)
  then have "heal_hints E p (i # is) d =
      heal_hints E p is (if locator_current E (pub_disk p) (bd_device_blocks d) (bd_blocks d ?b) then d else d2)"
    using rd by simp
  then show ?case using Cons.IH [of d] Cons.IH [of d2] Cons.prems d2 by simp
qed simp

lemma heal_progress:
  assumes "ext_le E" "volume_ok E (bd_device_blocks d) (sbi_disk sbi)" "bd_replies d = []"
  shows "fst (infilfs_checkpoint_heal E promoting sbi d) = None"
proof -
  let ?p = "\<lparr> pub_disk = sbi_disk sbi, pub_encoded = infilfs_rw_encode_superblock E (sbi_disk sbi) \<rparr>"
  have tot: "4096 \<le> sb_total_blocks (sbi_disk sbi)" "sb_total_blocks (sbi_disk sbi) \<le> bd_device_blocks d"
    and v: "locator_fields_valid (geometry_of (sbi_disk sbi))"
    using assms(2) by (auto simp: volume_ok_def locator_fields_valid_def geometry_of_def split: if_splits)
  have cp: "sb_checkpoint_block (pub_disk ?p) ! j < bd_device_blocks d" if "j < 3" for j
    using fields_valid_checkpoint(1) [OF v that] tot(2) by (simp add: geometry_of_def)
  have big: "4096 \<le> bd_device_blocks d" using tot by simp
  have vp: "volume_ok E (bd_device_blocks d) (pub_disk ?p)" using assms(2) by simp
  obtain d1 where d1: "heal_copies ?p [0..<3] d = (None, d1)" "bd_replies d1 = []" "bd_device_blocks d1 = bd_device_blocks d"
    using heal_copies_progress [OF assms(3), of "[0..<3]" ?p] cp by auto
  obtain d2 where d2: "heal_hints E ?p [0..<2] d1 = (None, d2)"
    using heal_hints_progress [OF assms(1) vp d1(2)] big d1(3) by auto
  show ?thesis
    using d1(1) d2 assms(3) by (simp add: infilfs_checkpoint_heal_def os_reply_def)
qed

section \<open>Properties\<close>

text \<open>C1: An ordinary commit is atomic under power failure. Let the medium hold the volume in its
  old state, with a readable locator and an intact copy other than the one rotated first, and let
  torn writes be detected by the checksums. Then after any prefix of the requests of
  \<open>infilfs_checkpoint_publish\<close>, whatever requests failed, everything the medium may hold recovers the old
  or the new superblock; once the publication reports the commit it recovers the new one; and after
  success all three copies are the new superblock.\<close>

theorem commit_crash_safe:
  assumes "ext_le E" "volume_ok E phys old" "volume_ok E phys new"
    and "sb_total_blocks new = sb_total_blocks old" "sb_filesystem_uuid new = sb_filesystem_uuid old"
      "sb_checkpoint_block new = sb_checkpoint_block old"
    and "sb_generation old < sb_generation new" "torn_detected E phys torn" "describes E phys init old"
    and "a \<in> {1, 2047}" "infs_locator_decode (init a) phys = Inr h"
    and "s < 3" "s \<noteq> first mod 3" "init (sb_checkpoint_block old ! s) = sb_block E old"
    and "bd_log d = []"
    and "infilfs_checkpoint_publish E new (infilfs_rw_encode_superblock E new) first False d = (status, committed, d')"
  shows "(\<forall>n. \<forall>img\<in>crash_images torn init (take n (bd_log d')). recovers E phys img old \<or> recovers E phys img new) \<and>
    (committed \<longrightarrow> (\<forall>img\<in>crash_images torn init (bd_log d'). recovers E phys img new)) \<and>
    (status = None \<longrightarrow> (\<forall>img\<in>crash_images torn init (bd_log d'). \<forall>j<3. img (sb_checkpoint_block new ! j) = sb_block E new))"
proof -
  have ok: "ext_ok E" using assms(1) by (simp add: ext_le_def)
  note l = commit_logs [OF assms(16) [unfolded rw_encode_volume [OF ok assms(3)]]]
  have st: "staged (commit_writes E new first) (bd_log d')" "status = None \<Longrightarrow> flushes (bd_log d') = 3"
    using l(1) assms(15) by (auto simp: logs_def)
  have c: "committed \<Longrightarrow> flushes (bd_log d') \<noteq> 0" using l(2) assms(15) by auto
  note cr = commit_crash [OF assms(1-14)]
  show ?thesis
  proof (intro conjI allI ballI impI)
    show "recovers E phys img old \<or> recovers E phys img new" if "img \<in> crash_images torn init (take n (bd_log d'))" for n img
      using cr(1) [OF staged_prefix [OF st(1)] that] by blast
    show "recovers E phys img new" if "committed" "img \<in> crash_images torn init (bd_log d')" for img
      using cr(1) [OF st(1) that(2)] c [OF that(1)] by blast
    show "img (sb_checkpoint_block new ! j) = sb_block E new"
      if "status = None" "img \<in> crash_images torn init (bd_log d')" "j < 3" for img j
      by (rule cr(2) [OF st(1) that(2) st(2) [OF that(1)] that(3)])
  qed
qed

theorem commit_crash_safe_witness:
  "\<exists>d'. infilfs_checkpoint_publish le_lib example_next (infilfs_rw_encode_superblock le_lib example_next) 2 False example_dev =
      (None, True, d') \<and>
    (\<forall>img\<in>crash_images (\<lambda>_. {zeros 4096}) (volume_image le_lib example_volume) (bd_log d'). recovers le_lib 9000 img example_next)"
proof -
  have v: "volume_ok le_lib 9000 example_volume" by (rule example_volumes_ok(1)) simp
  note im = image_describes [OF ext_ok_le_lib v]
  obtain d' where d': "infilfs_checkpoint_publish le_lib example_next (infilfs_rw_encode_superblock le_lib example_next) 2 False
      example_dev = (None, True, d')"
    using publish_progress [OF ext_le_lib example_volumes_ok(2), of example_dev _ 2 False] by (auto simp: example_dev_def)
  have "torn_detected le_lib 9000 (\<lambda>_. {zeros 4096})" by (simp add: torn_detected_def zeros_rejected)
  then show ?thesis
    using commit_crash_safe [OF ext_le_lib v example_volumes_ok(2) _ _ _ _ _ im(1) _ im(2) _ _ im(3) _ d', of "\<lambda>_. {zeros 4096}" 0] d'
      example_volume_ok(5) by (auto simp: example_next_def example_dev_def)
qed


text \<open>C2: A relocation is atomic under power failure even when both locators are already damaged: the
  medium needs only an intact old primary. No stale superblock at the new positions may be newer than
  the old state. After any prefix of the requests the medium recovers the old or the new superblock, once
  the commit is reported the new one, and after success all copies and both locators describe the new
  geometry.\<close>

theorem relocate_crash_safe:
  assumes "ext_le E" "volume_ok E phys old" "volume_ok E phys new" "sb_filesystem_uuid new = sb_filesystem_uuid old"
    and "sb_generation old < sb_generation new" "torn_detected E phys torn" "describes E phys init old"
    and "init 0 = sb_block E old" "\<And>j. j < 3 \<Longrightarrow> not_newer E old (init (sb_checkpoint_block new ! j))"
    and "bd_log d = []"
    and "infilfs_checkpoint_publish E new (infilfs_rw_encode_superblock E new) first True d = (status, committed, d')"
  shows "(\<forall>n. \<forall>img\<in>crash_images torn init (take n (bd_log d')). recovers E phys img old \<or> recovers E phys img new) \<and>
    (committed \<longrightarrow> (\<forall>img\<in>crash_images torn init (bd_log d'). recovers E phys img new)) \<and>
    (status = None \<longrightarrow> (\<forall>img\<in>crash_images torn init (bd_log d'). settled E phys img new))"
proof -
  have ok: "ext_ok E" using assms(1) by (simp add: ext_le_def)
  note l = relocate_logs [OF assms(11) [unfolded rw_encode_volume [OF ok assms(3)]]]
  have st: "staged (relocate_writes E new) (bd_log d')" "status = None \<Longrightarrow> flushes (bd_log d') = 5"
    using l assms(10) by (auto simp: logs_def)
  have c: "committed \<Longrightarrow> \<not> flushes (bd_log d') < 2" using l assms(10) by auto
  note cr = relocate_crash [OF assms(1-9)]
  show ?thesis
  proof (intro conjI allI ballI impI)
    show "recovers E phys img old \<or> recovers E phys img new" if "img \<in> crash_images torn init (take n (bd_log d'))" for n img
      using cr(1) [OF _ staged_prefix [OF st(1)] that] by blast
    show "recovers E phys img new" if "committed" "img \<in> crash_images torn init (bd_log d')" for img
      using cr(1) [OF _ st(1) that(2)] c [OF that(1)] by blast
    show "settled E phys img new" if "status = None" "img \<in> crash_images torn init (bd_log d')" for img
      using cr(2) [OF _ st(1) that(2) st(2) [OF that(1)]] by blast
  qed
qed

theorem relocate_crash_safe_witness:
  "\<exists>d'. infilfs_checkpoint_publish le_lib example_grown (infilfs_rw_encode_superblock le_lib example_grown) 0 True example_dev =
      (None, True, d') \<and>
    (\<forall>img\<in>crash_images (\<lambda>_. {zeros 4096}) (volume_image le_lib example_volume) (bd_log d'). settled le_lib 9000 img example_grown)"
proof -
  have v: "volume_ok le_lib 9000 example_volume" by (rule example_volumes_ok(1)) simp
  note im = image_describes [OF ext_ok_le_lib v]
  have i0: "volume_image le_lib example_volume 0 = sb_block le_lib example_volume"
    using im(3) [of 0] volume_positions(2) [OF v] by simp
  have cps: "set (sb_checkpoint_block example_volume) = {0, 2500, 4999}" by (simp add: example_volume_def)
  have "volume_image le_lib example_volume 4500 = zeros 4096" "volume_image le_lib example_volume 8999 = zeros 4096"
    by (simp_all add: volume_image_def cps)
  then have stale: "not_newer le_lib example_volume (volume_image le_lib example_volume (sb_checkpoint_block example_grown ! j))"
    if "j < 3" for j
    using that i0 not_newer_self not_newer_rejected [OF zeros_rejected] by (auto simp: less3 example_grown_def)
  obtain d' where d': "infilfs_checkpoint_publish le_lib example_grown (infilfs_rw_encode_superblock le_lib example_grown) 0 True
      example_dev = (None, True, d')"
    using publish_progress [OF ext_le_lib example_volumes_ok(3), of example_dev _ 0 True] by (auto simp: example_dev_def)
  have t: "torn_detected le_lib 9000 (\<lambda>_. {zeros 4096})" by (simp add: torn_detected_def zeros_rejected)
  have g: "sb_filesystem_uuid example_grown = sb_filesystem_uuid example_volume"
    "sb_generation example_volume < sb_generation example_grown" "bd_log example_dev = []"
    using example_volume_ok(5) by (simp_all add: example_grown_def example_dev_def)
  show ?thesis
    using relocate_crash_safe [OF ext_le_lib v example_volumes_ok(3) g(1,2) t im(1) i0 stale g(3) d'] d' by blast
qed

text \<open>C3: The superblock a medium recovers is the one the portable reader returns from a device that
  holds it.\<close>

theorem recovered_is_read:
  assumes "block_device good img phys" "good st" "4096 \<le> phys" "phys < 2 ^ 52"
    and "ext_ok E" "volume_ok E phys sb" "recovers E phys img sb"
  shows "\<exists>copies st'. infs_read_best_superblock E st (phys * 4096) = (Inr (sealed E sb, copies), st') \<and> good st'"
proof -
  have a: "\<not> identity_conflict E img phys" "admitted E img phys \<noteq> {}" using assms(7) by (auto simp: recovers_def)
  obtain best copies st' where b: "infs_read_best_superblock E st (phys * 4096) = (Inr (best, copies), st')" "good st'"
    "best \<in> admitted E img phys" "\<And>x. x \<in> admitted E img phys \<Longrightarrow> sb_generation x \<le> sb_generation best"
    by (rule block_device.read_best_exact [OF assms(1-4) a, of thesis]) blast
  have "best = sealed E sb"
    using b(3,4) assms(7) sb_block_ok(6) [OF assms(5,6)] by (force simp: recovers_def)
  then show ?thesis using b(1,2) by blast
qed

theorem recovered_is_read_witness:
  "\<exists>copies st'. infs_read_best_superblock le_lib example_storage 20480000 = (Inr (sealed le_lib example_volume, copies), st')"
proof -
  have v: "volume_ok le_lib 5000 example_volume" by (rule example_volumes_ok(1)) simp
  obtain c where a: "admitted le_lib example_image 5000 = {example_volume \<lparr> sb_checksum := c \<rparr>}"
    "\<not> identity_conflict le_lib example_image 5000" by (rule example_device(3))
  have "sealed le_lib example_volume \<in> admitted (le_lib) example_image 5000"
  proof -
    note im = image_describes [OF ext_ok_le_lib v]
    have p: "(0 :: u64) < 5000" "(1 :: u64) < 5000" by simp_all
    have "geometry_of example_volume \<in> geometry_maps le_lib example_image 5000"
      using im(2) p by (simp add: geometry_maps_def example_image_def)
    moreover have "map_matches le_lib (geometry_of example_volume) (sb_block le_lib example_volume)"
      using sb_block_ok [OF ext_ok_le_lib v] by (simp add: map_matches_def geometry_of_def sealed_def Let_def list_all_iff)
    moreover have "example_image 0 = sb_block le_lib example_volume" "loc_checkpoint (geometry_of example_volume) ! 0 = 0"
      using im(3) [of 0] volume_positions(2) [OF v] p by (simp_all add: example_image_def geometry_of_def)
    ultimately show ?thesis unfolding admitted_def sealed_def by (force intro!: exI [of _ "geometry_of example_volume"] exI [of _ 0])
  qed
  then have "recovers le_lib 5000 example_image example_volume" using a by (simp add: recovers_def)
  moreover have "(5000 :: u64) * 4096 = 20480000" by simp
  ultimately show ?thesis
    using recovered_is_read [OF example_device(1) refl _ _ ext_ok_le_lib v] by auto
qed


text \<open>C6: Publication makes progress: when no request fails and the volume fits the device, both an
  ordinary commit and a relocation run to completion, report the commit, and return no error.\<close>

theorem publication_completes:
  assumes "ext_le E" "volume_ok E (bd_device_blocks d) sb" "bd_replies d = []"
  shows "\<exists>d'. infilfs_checkpoint_publish E sb raw first relocate d = (None, True, d')"
  by (rule publish_progress [OF assms order.refl])

theorem publication_completes_witness:
  "\<exists>d'. infilfs_checkpoint_publish le_lib example_grown (zeros 4096) 0 True example_dev = (None, True, d')"
proof -
  have "volume_ok le_lib (bd_device_blocks example_dev) example_grown" "bd_replies example_dev = []"
    using example_volumes_ok(3) by (simp_all add: example_dev_def)
  then show ?thesis by (rule publication_completes [OF ext_le_lib])
qed

text \<open>C4: A repair pass that may write has exactly three outcomes. When its first allocation fails
  it returns the out-of-memory error and has touched neither the device nor the mount state. Otherwise,
  when it returns no error, full redundancy is restored: all three copies are the current
  superblock, both locators describe it, the repair mark is cleared and the poison mark is as
  before. And when any later step fails, an allocation included, the mount is left poisoned and
  marked for repair. When no request fails it returns no error.\<close>

theorem heal_restores_redundancy:
  assumes "ext_le E" "volume_ok E (bd_device_blocks d) (sbi_disk sbi)" "\<And>q. length (bd_blocks d q) = 4096"
    and "promoting \<or> \<not> sbi_rdonly sbi" "infilfs_checkpoint_heal E promoting sbi d = (ret, sbi', d')"
  shows "(if fst (os_reply d) \<noteq> None
     then ret = Some ENOMEM \<and> sbi' = sbi \<and> bd_blocks d' = bd_blocks d \<and> bd_log d' = bd_log d
     else if ret = None
     then settled E (bd_device_blocks d) (bd_blocks d') (sbi_disk sbi) \<and>
       sbi' = sbi \<lparr> sbi_checkpoint_repair_needed := False \<rparr>
     else sbi_write_poisoned sbi' \<and> sbi_checkpoint_repair_needed sbi') \<and>
    (bd_replies d = [] \<longrightarrow> ret = None)"
proof (cases "fst (os_reply d) = None")
  case no: False
  moreover have "bd_replies d \<noteq> []" using no by (auto simp: os_reply_def)
  ultimately show ?thesis using heal_no_buffer [OF assms(5,4)] by simp
next
  case ok: True
  have p: "bd_replies d = [] \<Longrightarrow> ret = None" using heal_progress [OF assms(1,2)] assms(5) by (metis fst_conv)
  show ?thesis
  proof (cases ret)
    case None
    then show ?thesis
      using heal_settles [OF assms(1-4) assms(5) [unfolded None]] heal_state [OF assms(5) [unfolded None] assms(4)] ok
      by simp
  next
    case (Some e)
    then show ?thesis using heal_error [OF assms(5) [unfolded Some] ok] ok p by auto
  qed
qed

theorem heal_restores_redundancy_witness:
  "\<exists>sbi' d'. infilfs_checkpoint_heal le_lib False
      \<lparr> sbi_disk = example_next, sbi_rdonly = False, sbi_write_poisoned = False, sbi_checkpoint_repair_needed = True \<rparr>
      example_dev = (None, sbi', d') \<and>
    settled le_lib 9000 (bd_blocks d') example_next \<and> \<not> sbi_checkpoint_repair_needed sbi'"
proof -
  let ?sbi = "\<lparr> sbi_disk = example_next, sbi_rdonly = False, sbi_write_poisoned = False, sbi_checkpoint_repair_needed = True \<rparr>"
  obtain ret sbi' d' where h: "infilfs_checkpoint_heal le_lib False ?sbi example_dev = (ret, sbi', d')"
    using prod_cases3 by blast
  have v: "volume_ok le_lib (bd_device_blocks example_dev) (sbi_disk ?sbi)"
    using example_volumes_ok(2) by (simp add: example_dev_def)
  have l: "length (bd_blocks example_dev q) = 4096" for q
    using volume_image_blocks(1) [OF ext_ok_le_lib example_volume_ok(1-3)] by (simp add: example_dev_def)
  have "bd_replies example_dev = []" "bd_device_blocks example_dev = 9000" "fst (os_reply example_dev) = None"
    by (simp_all add: example_dev_def os_reply_def)
  then show ?thesis
    using heal_restores_redundancy [OF ext_le_lib v l _ h] h by auto
qed

lemma read_block_fails: "infilfs_read_block b d = (Inl e, d') \<Longrightarrow> logs ws d d' False"
  by (cases ws) (auto simp: infilfs_read_block_def logs_def staged_cons os_reply_keeps split: if_splits prod.splits option.splits)

lemma heal_copies_logs:
  assumes "heal_copies p is d = (r, d')" "inj_on (\<lambda>i. sb_checkpoint_block (pub_disk p) ! i) (set is)" "distinct is"
  shows "logs (map (\<lambda>i. (sb_checkpoint_block (pub_disk p) ! i, pub_encoded p))
      (filter (\<lambda>i. bd_blocks d (sb_checkpoint_block (pub_disk p) ! i) \<noteq> pub_encoded p) is)) d d' (r = None)"
  using assms
proof (induction "is" arbitrary: d)
  case (Cons i "is")
  let ?cp = "\<lambda>i. sb_checkpoint_block (pub_disk p) ! i"
  let ?ws = "\<lambda>d. map (\<lambda>i. (?cp i, pub_encoded p)) (filter (\<lambda>i. bd_blocks d (?cp i) \<noteq> pub_encoded p) is)"
  have same: "?ws d2 = ?ws d" if "\<And>q. q \<noteq> ?cp i \<Longrightarrow> bd_blocks d2 q = bd_blocks d q" for d2
  proof -
    have "bd_blocks d2 (?cp j) = bd_blocks d (?cp j)" if "j \<in> set is" for j
      using Cons.prems(2,3) that \<open>\<And>q. q \<noteq> ?cp i \<Longrightarrow> bd_blocks d2 q = bd_blocks d q\<close> by (auto simp: image_iff)
    then show ?thesis by (auto cong: filter_cong)
  qed
  have ih: "logs (?ws d2) d2 d' (r = None)" if "heal_copies p is d2 = (r, d')" for d2
    using Cons.IH [OF that] Cons.prems(2,3) by simp
  obtain x d1 where x: "infilfs_read_block (?cp i) d = (x, d1)" by fastforce
  show ?case
  proof (cases x)
    case (Inl e)
    then show ?thesis using Cons.prems(1) x read_block_fails [OF x [unfolded Inl]] by auto
  next
    case (Inr raw)
    note rd = read_block_result [OF x [unfolded Inr]]
    have l1: "logs [] d d1 True"
      using x Inr rd by (auto simp: logs_def infilfs_read_block_def os_reply_keeps split: if_splits prod.splits option.splits)
    show ?thesis
    proof (cases "raw = pub_encoded p")
      case True
      then show ?thesis using Cons.prems(1) x Inr rd ih [of d1] logs_trans [OF l1, of "?ws d" d'] by simp
    next
      case False
      obtain u d3 where u: "infilfs_publish_checkpoint p i d1 = (u, d3)" by fastforce
      note st = stage_logs [OF u [unfolded infilfs_publish_checkpoint_def]]
      obtain y d4 where y: "infilfs_publish_flush d3 = (y, d4)" by fastforce
      have f: "bd_blocks d (?cp i) \<noteq> pub_encoded p" using False rd by simp
      show ?thesis
      proof (cases "u = None \<and> y = None")
        case True
        then have h: "heal_copies p is d4 = (r, d')" using Cons.prems(1) x Inr False u y by simp
        have l: "logs [(?cp i, pub_encoded p)] d1 d4 True" using st(2) [of y d4] True y by simp
        have "?ws d4 = ?ws d" using logs_one(1) [OF l] rd by (intro same) simp
        then show ?thesis using logs_trans [OF l1 logs_trans [OF l ih [OF h]]] f by simp
      next
        case no: False
        have "logs [(?cp i, pub_encoded p)] d1 d' False \<and> r \<noteq> None"
          using Cons.prems(1) x Inr False u y no st(1) st(2) [of y d4] by (cases u; cases y) auto
        then show ?thesis using logs_trans [OF l1 logs_more [of "[(?cp i, pub_encoded p)]" d1 d' False "?ws d"]] f by auto
      qed
    qed
  qed
qed simp


lemma read_block_logs: "infilfs_read_block b d = (Inr raw, d') \<Longrightarrow> logs [] d d' True"
  by (auto simp: logs_def infilfs_read_block_def os_reply_keeps split: if_splits prod.splits option.splits)

lemma heal_hint_logs:
  assumes h: "heal_hints E p (i # is) d = (r, d')" and a: "hint_at i = a" and w: "hint_write E (pub_disk p) i = w"
    and ws: "ws = (if locator_current E (pub_disk p) (bd_device_blocks d) (bd_blocks d a) then [] else [w])"
  shows "(\<exists>d2. heal_hints E p is d2 = (r, d') \<and> logs ws d d2 True) \<or> r \<noteq> None \<and> logs ws d d' False"
proof -
  obtain x d1 where x: "infilfs_read_block a d = (x, d1)" by fastforce
  show ?thesis
  proof (cases x)
    case (Inl e)
    then have "d' = d1" "r \<noteq> None" using h x unfolding heal_hints.simps a by auto
    then show ?thesis using read_block_fails [OF x [unfolded Inl]] by blast
  next
    case (Inr raw)
    note rd = read_block_result [OF x [unfolded Inr]] and l1 = read_block_logs [OF x [unfolded Inr]]
    show ?thesis
    proof (cases "locator_current E (pub_disk p) (bd_device_blocks d) (bd_blocks d a)")
      case True
      then have "heal_hints E p is d1 = (r, d')" using h x Inr rd unfolding heal_hints.simps a by simp
      then show ?thesis using l1 True ws by auto
    next
      case False
      obtain u d3 where u: "infilfs_publish_locator E p i d1 = (u, d3)" by fastforce
      obtain y d4 where y: "infilfs_publish_flush d3 = (y, d4)" by fastforce
      note st = locator_logs [OF u, unfolded w]
      have hs: "(case u of None \<Rightarrow> (case y of None \<Rightarrow> heal_hints E p is d4 | Some e \<Rightarrow> (Some e, d4)) | Some e \<Rightarrow> (Some e, d3)) = (r, d')"
        using h x Inr rd u y False unfolding heal_hints.simps a by (auto split: option.splits)
      have wsw: "ws = [w]" using ws False by simp
      show ?thesis
      proof (cases u)
        case (Some e)
        then show ?thesis using hs st(1) logs_trans [OF l1, of "[w]" d' False] wsw by auto
      next
        case None
        then show ?thesis using hs st(2) [of y d4] y logs_trans [OF l1, of "[w]" d4] wsw by (cases y) auto
      qed
    qed
  qed
qed

lemma heal_hints_logs:
  assumes "heal_hints E p [0..<2] d = (r, d')"
  shows "\<exists>ok. logs (map (\<lambda>i. hint_write E (pub_disk p) i)
      (filter (\<lambda>i. \<not> locator_current E (pub_disk p) (bd_device_blocks d) (bd_blocks d (hint_at i))) [0..<2])) d d' ok"
proof -
  let ?c = "\<lambda>d a. locator_current E (pub_disk p) (bd_device_blocks d) (bd_blocks d a)"
  let ?w = "\<lambda>d a. if ?c d a then [] else [(a, hint_block E (pub_disk p))]"
  have two: "[0..<2] = [0, 1 :: nat]" by (simp add: upt_rec)
  have ws: "map (\<lambda>i. hint_write E (pub_disk p) i) (filter (\<lambda>i. \<not> ?c d (hint_at i)) [0..<2]) = ?w d 1 @ ?w d 2047"
    by (simp add: two)
  have first: "(\<exists>d2. heal_hints E p [1] d2 = (r, d') \<and> logs (?w d 1) d d2 True) \<or> r \<noteq> None \<and> logs (?w d 1) d d' False"
    by (rule heal_hint_logs [OF assms [unfolded two], where a = 1 and w = "(1, hint_block E (pub_disk p))"]) simp_all
  have "\<exists>ok. logs (?w d 1 @ ?w d 2047) d d' ok"
    using first
  proof (elim disjE exE conjE)
    fix d2 assume d2: "heal_hints E p [1] d2 = (r, d')" "logs (?w d 1) d d2 True"
    have "?c d2 2047 = ?c d 2047" using d2(2) by (auto simp: logs_def split: if_splits)
    then have "?w d2 2047 = ?w d 2047" by simp
    then have "(\<exists>d3. heal_hints E p [] d3 = (r, d') \<and> logs (?w d 2047) d2 d3 True) \<or> r \<noteq> None \<and> logs (?w d 2047) d2 d' False"
      by (intro heal_hint_logs [OF d2(1), where a = 2047 and w = "(2047, hint_block E (pub_disk p))"]) simp_all
    then obtain ok where "logs (?w d 2047) d2 d' ok" by auto
    then show ?thesis using logs_trans [OF d2(2)] by blast
  next
    assume "logs (?w d 1) d d' False"
    then show ?thesis using logs_more by blast
  qed
  then show ?thesis unfolding ws .
qed

lemma heal_logs:
  assumes E: "ext_ok E" and v: "volume_ok E (bd_device_blocks d) (sbi_disk sbi)"
    and h: "infilfs_checkpoint_heal E promoting sbi d = (ret, sbi', d')" "bd_log d = []"
  shows "staged (heal_writes E (sbi_disk sbi) (bd_device_blocks d) (bd_blocks d)) (bd_log d')"
proof -
  let ?sb = "sbi_disk sbi"
  let ?p = "\<lparr> pub_disk = ?sb, pub_encoded = infilfs_rw_encode_superblock E ?sb \<rparr>"
  let ?w1 = "map (\<lambda>i. (sb_checkpoint_block ?sb ! i, sb_block E ?sb))
       (filter (\<lambda>i. bd_blocks d (sb_checkpoint_block ?sb ! i) \<noteq> sb_block E ?sb) [0..<3])"
  let ?w2 = "map (\<lambda>i. hint_write E ?sb i) (filter (\<lambda>i. \<not> locator_current E ?sb (bd_device_blocks d) (bd_blocks d (hint_at i))) [0..<2])"
  note enc = rw_encode_volume [OF E v]
  obtain x d0 where x: "os_reply d = (x, d0)" by fastforce
  note k = os_reply_keeps [OF x]
  obtain y d1 where y: "heal_copies ?p [0..<3] d0 = (y, d1)" by fastforce
  obtain z d2 where z: "heal_hints E ?p [0..<2] d1 = (z, d2)" by fastforce
  have minor: "sb_format_minor ?sb = 19" using v by (simp add: volume_ok_def superblock_fields_ok_def)
  have inj: "inj_on (\<lambda>i. sb_checkpoint_block ?sb ! i) (set [0..<3])"
    using volume_positions(3) [OF v] by (auto intro!: inj_onI)
  have l1: "logs ?w1 d0 d1 (y = None)" using heal_copies_logs [OF y] inj k(2) enc by simp
  show ?thesis
  proof (cases "sbi_rdonly sbi \<and> \<not> promoting \<or> x \<noteq> None")
    case True
    then have "bd_log d' = []" using h x k(1) by (auto simp: infilfs_checkpoint_heal_def split: if_splits)
    then show ?thesis by (cases "heal_writes E ?sb (bd_device_blocks d) (bd_blocks d)") (auto simp: staged_cons)
  next
    case go: False
    show ?thesis
    proof (cases y)
      case (Some e)
      then have "d' = d1" using h(1) x y go by (auto simp: infilfs_checkpoint_heal_def Let_def)
      then show ?thesis using logs_more [OF l1, of ?w2] k(1) h(2) by (auto simp: logs_def heal_writes_def)
    next
      case None
      then have d': "d' = d2" using h(1) x y z go minor by (auto simp: infilfs_checkpoint_heal_def Let_def)
      have b: "bd_blocks d1 q = bd_blocks d q" if "q \<in> {1, 2047}" for q
      proof -
        have "q \<notin> fst ` set ?w1" using volume_positions(1) [OF v] that by auto
        then show ?thesis using l1 None k(2) written_other [of q ?w1 "bd_blocks d"] by (auto simp: logs_def)
      qed
      have dev: "bd_device_blocks d1 = bd_device_blocks d" using l1 k(3) by (simp add: logs_def)
      have w2: "map (\<lambda>i. hint_write E ?sb i) (filter (\<lambda>i. \<not> locator_current E ?sb (bd_device_blocks d1) (bd_blocks d1 (hint_at i))) [0..<2]) = ?w2"
        using b [of 1] b [of 2047] by (simp add: dev upt_rec)
      obtain ok where "logs ?w2 d1 d2 ok" using heal_hints_logs [OF z] unfolding infilfs_checkpoint_publication.simps w2 by blast
      then have "logs (?w1 @ ?w2) d0 d2 ok" using logs_trans l1 None by simp
      then show ?thesis unfolding d' using k(1) h(2) by (simp add: logs_def heal_writes_def)
    qed
  qed
qed


lemma maps_kept:
  assumes "ext_le E" "volume_ok E phys sb"
    and "\<And>p. p \<in> {1, 2047} \<Longrightarrow> img p = init p \<or> img p = hint_block E sb \<or> rejected E phys (img p)"
    and "img 0 = init 0 \<or> img 0 = sb_block E sb \<or> rejected E phys (img 0)" "m \<in> geometry_maps E img phys"
  shows "m \<in> geometry_maps E init phys \<or> same_geometry m sb"
proof -
  have ok: "ext_ok E" using assms(1) by (simp add: ext_le_def)
  have loc: ?thesis if "p \<in> {1, 2047}" "infs_locator_decode (img p) phys = Inr m" for p
    using assms(3) [OF that(1)] that hint_decodes [OF assms(1,2)] by (auto simp: rejected_def geometry_maps_def)
  have ?thesis if "m = primary_map E (img 0)" "primary_valid E phys (img 0)"
    using assms(4) that primary_of_block [OF ok assms(2)] by (auto simp: rejected_def geometry_maps_def primary_valid_def)
  then show ?thesis using assms(5) loc by (auto simp: geometry_maps_def)
qed

lemma heal_writes_fst:
  assumes "volume_ok E phys sb"
  shows "distinct (map fst (heal_writes E sb phys init))"
    "(p, x) \<in> set (heal_writes E sb phys init) \<Longrightarrow> p \<notin> {1, 2047} \<Longrightarrow> x = sb_block E sb \<and> init p \<noteq> sb_block E sb"
    "(p, x) \<in> set (heal_writes E sb phys init) \<Longrightarrow> p \<in> {1, 2047} \<Longrightarrow> x = hint_block E sb"
    "init 0 \<noteq> sb_block E sb \<Longrightarrow> heal_writes E sb phys init ! 0 = (0, sb_block E sb) \<and> heal_writes E sb phys init \<noteq> []"
proof -
  note pos = volume_positions [OF assms]
  let ?f = "filter (\<lambda>i. init (sb_checkpoint_block sb ! i) \<noteq> sb_block E sb) [0..<3]"
  let ?g = "filter (\<lambda>i. \<not> locator_current E sb phys (init (hint_at i))) [0..<2]"
  have fsts: "map fst (heal_writes E sb phys init) = map (\<lambda>i. sb_checkpoint_block sb ! i) ?f @ map hint_at ?g"
    by (simp add: heal_writes_def)
  have two: "i < 2 \<longleftrightarrow> i = 0 \<or> i = 1" for i :: nat by auto
  have "distinct (map (\<lambda>i. sb_checkpoint_block sb ! i) ?f)"
    using pos(3) by (auto simp: distinct_map inj_on_def)
  moreover have "distinct (map hint_at ?g)"
    unfolding distinct_map by (auto simp: inj_on_def two split: if_splits)
  moreover have "set (map (\<lambda>i. sb_checkpoint_block sb ! i) ?f) \<inter> set (map hint_at ?g) = {}"
    using pos(1) by (fastforce split: if_splits)
  ultimately show "distinct (map fst (heal_writes E sb phys init))" unfolding fsts distinct_append by blast
  show "(p, x) \<in> set (heal_writes E sb phys init) \<Longrightarrow> p \<notin> {1, 2047} \<Longrightarrow> x = sb_block E sb \<and> init p \<noteq> sb_block E sb"
    unfolding heal_writes_def by (auto split: if_splits)
  show "(p, x) \<in> set (heal_writes E sb phys init) \<Longrightarrow> p \<in> {1, 2047} \<Longrightarrow> x = hint_block E sb"
    using pos(1) unfolding heal_writes_def by (auto split: if_splits)
  show "heal_writes E sb phys init ! 0 = (0, sb_block E sb) \<and> heal_writes E sb phys init \<noteq> []" if "init 0 \<noteq> sb_block E sb"
    using that pos(2) by (simp add: heal_writes_def upt_conv_Cons)
qed

lemma heal_contents:
  assumes v: "volume_ok E phys sb" and torn: "torn_detected E phys torn"
    and log: "staged (heal_writes E sb phys init) log" "img \<in> crash_images torn init log"
  shows "p \<notin> {1, 2047} \<Longrightarrow> img p = init p \<or> img p = sb_block E sb \<or> rejected E phys (img p)"
    "p \<in> {1, 2047} \<Longrightarrow> img p = init p \<or> img p = hint_block E sb \<or> rejected E phys (img p) \<and> img 0 = sb_block E sb"
    "p \<notin> {1, 2047} \<Longrightarrow> init p = sb_block E sb \<Longrightarrow> img p = sb_block E sb"
proof -
  let ?ws = "heal_writes E sb phys init"
  note w = heal_writes_fst [OF v, where init = init]
  obtain k where k: "flushes log \<le> k" "k \<le> length ?ws" "\<And>p. p \<notin> fst ` set ?ws \<Longrightarrow> img p = init p"
    "\<And>i. i < k \<Longrightarrow> img (fst (?ws ! i)) = snd (?ws ! i)"
    "\<And>i. k < i \<Longrightarrow> i < length ?ws \<Longrightarrow> img (fst (?ws ! i)) = init (fst (?ws ! i))"
    "k < length ?ws \<Longrightarrow> img (fst (?ws ! k)) = init (fst (?ws ! k)) \<or> img (fst (?ws ! k)) \<in> torn (fst (?ws ! k))"
    by (rule staged_contents [OF log w(1)]) blast
  have cell: "img p = init p \<or> (p, img p) \<in> set ?ws \<or> rejected E phys (img p) \<and> p = fst (?ws ! k) \<and> k < length ?ws" for p
  proof (cases "p \<in> fst ` set ?ws")
    case True
    then obtain i where i: "i < length ?ws" "p = fst (?ws ! i)" by (auto simp: in_set_conv_nth)
    then show ?thesis using k(4) [of i] k(5) [of i] k(6) torn nth_mem [OF i(1)]
      by (cases i k rule: linorder_cases) (auto simp: torn_detected_def)
  qed (use k(3) in simp)
  have held: "img p = sb_block E sb" if "p \<notin> {1, 2047}" "init p = sb_block E sb" for p
  proof -
    have "p \<notin> fst ` set ?ws" using w(2) that by force
    then show ?thesis using k(3) that(2) by simp
  qed
  have hd0: "img 0 = sb_block E sb" if "k \<noteq> 0"
    using k(4) [of 0] w(4) that held [of 0] by (cases "init 0 = sb_block E sb") auto
  show "img p = init p \<or> img p = sb_block E sb \<or> rejected E phys (img p)" if "p \<notin> {1, 2047}"
    using cell [of p] w(2) that by blast
  show "img p = sb_block E sb" if "p \<notin> {1, 2047}" "init p = sb_block E sb" by (rule held [OF that])
  show "img p = init p \<or> img p = hint_block E sb \<or> rejected E phys (img p) \<and> img 0 = sb_block E sb" if "p \<in> {1, 2047}"
  proof (cases "k = 0 \<and> init 0 \<noteq> sb_block E sb")
    case True
    then have "fst (?ws ! k) = 0" using w(4) by simp
    then show ?thesis using cell [of p] w(3) that by auto
  next
    case False
    then have "img 0 = sb_block E sb" using hd0 held [of 0] by auto
    then show ?thesis using cell [of p] w(3) that by blast
  qed
qed


lemma heal_crash:
  assumes E: "ext_le E" and v: "volume_ok E phys sb" and torn: "torn_detected E phys torn"
    and maps: "\<And>m. m \<in> geometry_maps E init phys \<Longrightarrow> loc_filesystem_uuid m = sb_filesystem_uuid sb"
      "\<And>m j. m \<in> geometry_maps E init phys \<Longrightarrow> j < 3 \<Longrightarrow> not_newer E sb (init (loc_checkpoint m ! j))"
    and own: "\<And>j. j < 3 \<Longrightarrow> not_newer E sb (init (sb_checkpoint_block sb ! j))"
    and surv: "s < 3" "init (sb_checkpoint_block sb ! s) = sb_block E sb"
    and map: "init 0 = sb_block E sb \<or> (\<exists>a\<in>{1, 2047}. \<exists>m. infs_locator_decode (init a) phys = Inr m \<and> same_geometry m sb)"
    and log: "staged (heal_writes E sb phys init) log" "img \<in> crash_images torn init log"
  shows "recovers E phys img sb"
proof -
  have ok: "ext_ok E" using E by (simp add: ext_le_def)
  note c = heal_contents [OF v torn log]
  have kept: "m \<in> geometry_maps E init phys \<or> same_geometry m sb" if "m \<in> geometry_maps E img phys" for m
    using c(1) [of 0] c(2) by (intro maps_kept [OF E v _ _ that]) auto
  have prim: "\<exists>m\<in>geometry_maps E img phys. same_geometry m sb" if "img 0 = sb_block E sb"
    using primary_of_block [OF ok v] that by (auto simp: geometry_maps_def)
  have "\<exists>m\<in>geometry_maps E img phys. same_geometry m sb"
  proof (cases "init 0 = sb_block E sb")
    case True
    then show ?thesis using prim c(3) [of 0] by simp
  next
    case False
    then obtain a m where a: "a \<in> {1, 2047}" "infs_locator_decode (init a) phys = Inr m" "same_geometry m sb"
      using map by blast
    have "\<exists>m\<in>geometry_maps E img phys. same_geometry m sb" if "infs_locator_decode (img a) phys = Inr n" "same_geometry n sb" for n
      using a(1) that by (auto simp: geometry_maps_def)
    then show ?thesis using c(2) [OF a(1)] a(2,3) hint_decodes [OF E v] same_geometry_of prim by auto
  qed
  then obtain m where m: "m \<in> geometry_maps E img phys" "same_geometry m sb" by blast
  have sv: "img (sb_checkpoint_block sb ! s) = sb_block E sb" by (rule c(3) [OF volume_positions(1) [OF v surv(1)] surv(2)])
  have nn: "not_newer E sb (img p)" if "p \<notin> {1, 2047}" "not_newer E sb (init p)" for p
    using c(1) [OF that(1)] that(2) not_newer_self not_newer_rejected by auto
  show ?thesis
  proof (rule recoversI [OF ok v _ m surv(1) sv])
    show "loc_filesystem_uuid n = sb_filesystem_uuid sb" if "n \<in> geometry_maps E img phys" for n
      using kept [OF that] maps(1) by (auto simp: same_geometry_def)
    show "not_newer E sb (img (loc_checkpoint n ! j))" if "n \<in> geometry_maps E img phys" "j < 3" for n j
    proof (rule nn)
      show "loc_checkpoint n ! j \<notin> {1, 2047}"
        using geometry_map_fields [OF that(1)] fields_valid_checkpoint [of n j] that(2) by auto
      show "not_newer E sb (init (loc_checkpoint n ! j))"
        using kept [OF that(1)] maps(2) own that(2) by (auto simp: same_geometry_def)
    qed
  qed
qed

text \<open>C5: Repair is safe under power failure. Let the medium hold an intact copy of the current
  superblock, reachable through an intact primary or a locator of its geometry, and nothing newer or of
  another volume, while other copies and hints may be damaged or obsolete. Then after any prefix of the
  requests of the repair pass, whatever requests failed, everything the medium may hold still
  recovers the current superblock.\<close>

theorem heal_crash_safe:
  assumes "ext_le E" "volume_ok E (bd_device_blocks d) (sbi_disk sbi)" "torn_detected E (bd_device_blocks d) torn"
    and "\<And>m. m \<in> geometry_maps E (bd_blocks d) (bd_device_blocks d) \<Longrightarrow> loc_filesystem_uuid m = sb_filesystem_uuid (sbi_disk sbi)"
      "\<And>m j. m \<in> geometry_maps E (bd_blocks d) (bd_device_blocks d) \<Longrightarrow> j < 3 \<Longrightarrow>
        not_newer E (sbi_disk sbi) (bd_blocks d (loc_checkpoint m ! j))"
    and "\<And>j. j < 3 \<Longrightarrow> not_newer E (sbi_disk sbi) (bd_blocks d (sb_checkpoint_block (sbi_disk sbi) ! j))"
    and "s < 3" "bd_blocks d (sb_checkpoint_block (sbi_disk sbi) ! s) = sb_block E (sbi_disk sbi)"
    and "bd_blocks d 0 = sb_block E (sbi_disk sbi) \<or>
      (\<exists>a\<in>{1, 2047}. \<exists>m. infs_locator_decode (bd_blocks d a) (bd_device_blocks d) = Inr m \<and> same_geometry m (sbi_disk sbi))"
    and "bd_log d = []" "infilfs_checkpoint_heal E promoting sbi d = (ret, sbi', d')"
  shows "\<forall>n. \<forall>img\<in>crash_images torn (bd_blocks d) (take n (bd_log d')). recovers E (bd_device_blocks d) img (sbi_disk sbi)"
proof (intro allI ballI)
  fix n img assume img: "img \<in> crash_images torn (bd_blocks d) (take n (bd_log d'))"
  have "ext_ok E" using assms(1) by (simp add: ext_le_def)
  then have "staged (heal_writes E (sbi_disk sbi) (bd_device_blocks d) (bd_blocks d)) (bd_log d')"
    by (rule heal_logs [OF _ assms(2,11,10)])
  then show "recovers E (bd_device_blocks d) img (sbi_disk sbi)"
    by (intro heal_crash [OF assms(1-3) _ _ _ assms(7-9) staged_prefix img] assms(4-6))
qed

theorem heal_crash_safe_witness:
  "\<exists>ret sbi' d'. infilfs_checkpoint_heal le_lib False
      \<lparr> sbi_disk = example_volume, sbi_rdonly = False, sbi_write_poisoned = False, sbi_checkpoint_repair_needed = True \<rparr>
      (example_dev \<lparr> bd_blocks := (volume_image le_lib example_volume)(2047 := zeros 4096, 4999 := zeros 4096) \<rparr>) = (ret, sbi', d') \<and>
    (\<forall>img\<in>crash_images (\<lambda>_. {zeros 4096}) ((volume_image le_lib example_volume)(2047 := zeros 4096, 4999 := zeros 4096)) (take 1 (bd_log d')).
       recovers le_lib 9000 img example_volume)"
proof -
  let ?sbi = "\<lparr> sbi_disk = example_volume, sbi_rdonly = False, sbi_write_poisoned = False, sbi_checkpoint_repair_needed = True \<rparr>"
  let ?im = "(volume_image le_lib example_volume)(2047 := zeros 4096, 4999 := zeros 4096)"
  let ?d = "example_dev \<lparr> bd_blocks := ?im \<rparr>"
  have v: "volume_ok le_lib (bd_device_blocks ?d) (sbi_disk ?sbi)" and v9: "volume_ok le_lib 9000 example_volume"
    using example_volumes_ok(1) [of 9000] by (simp_all add: example_dev_def)
  note im = image_describes [OF ext_ok_le_lib v9]
  obtain ret sbi' d' where h: "infilfs_checkpoint_heal le_lib False ?sbi ?d = (ret, sbi', d')"
    using prod_cases3 by blast
  have t: "torn_detected le_lib (bd_device_blocks ?d) (\<lambda>_. {zeros 4096})" by (simp add: torn_detected_def zeros_rejected)
  have zr: "\<And>m. infs_locator_decode (zeros 4096) 9000 \<noteq> Inr m" using zeros_rejected [of le_lib 9000] by (simp add: rejected_def)
  have maps: "same_geometry m example_volume" if "m \<in> geometry_maps le_lib ?im 9000" for m
  proof -
    have "m \<in> geometry_maps le_lib (volume_image le_lib example_volume) 9000"
      using that zr by (auto simp: geometry_maps_def)
    then show ?thesis using im(1) by (simp add: describes_def)
  qed
  have nn: "not_newer le_lib example_volume (?im (sb_checkpoint_block example_volume ! j))" if "j < 3" for j
    using im(3) [OF that] not_newer_self not_newer_rejected [OF zeros_rejected] volume_positions(1) [OF v9 that] by auto
  have i0: "?im 0 = sb_block le_lib example_volume" using im(3) [of 0] volume_positions(2) [OF v9] by simp
  have "\<forall>n. \<forall>img\<in>crash_images (\<lambda>_. {zeros 4096}) (bd_blocks ?d) (take n (bd_log d')). recovers le_lib (bd_device_blocks ?d) img (sbi_disk ?sbi)"
  proof (rule heal_crash_safe [OF ext_le_lib v t _ _ _ _ _ _ _ h, of 0])
    show "bd_blocks ?d (sb_checkpoint_block (sbi_disk ?sbi) ! 0) = sb_block le_lib (sbi_disk ?sbi)"
      using i0 volume_positions(2) [OF v9] by simp
  qed (use maps nn i0 in \<open>auto simp: example_dev_def same_geometry_def\<close>)
  then have "\<forall>img\<in>crash_images (\<lambda>_. {zeros 4096}) ?im (take 1 (bd_log d')). recovers le_lib 9000 img example_volume"
    by (simp add: example_dev_def)
  then show ?thesis using h by blast
qed

end
