(* ===== verification/Iac1.thy ===== *)
theory Iac1
  imports Prelude "HOL-Library.Code_Target_Nat"
begin

unbundle bit_operations_syntax

text \<open>
  The IAC1 codec of \<open>include/infilfs/iac1.h\<close>: a byte-oriented match/fill/literal coder with an
  optional delta or xor prediction of its input. A buffer is a list of bytes and a size a natural
  number; pointers are non-null. A coder returns the bytes it wrote, so that the C return value is
  the length of the result and the value 0 (failure) is the empty list. The match finder's tables
  are functions from the hash to the encoded position, with positions truncated to 32 bits as in
  the source.

  The lemmas describe a compressed stream as a list of tokens: decompression is the expansion of
  the tokens, the compressor emits tokens that expand to the predicted input, and decompression
  therefore inverts every successful compression. The entry point with an alternate buffer can copy
  past its destination, which is an outcome of the model. The size lemmas give the worst case of the
  output.
\<close>

section \<open>Definitions\<close>

abbreviation (input) "INFS_IAC1_VERSION \<equiv> (1 :: byte)"
abbreviation (input) "INFS_IAC1_MODE_IDENTITY \<equiv> (0 :: byte)"
abbreviation (input) "INFS_IAC1_MODE_DELTA8 \<equiv> (1 :: byte)"
abbreviation (input) "INFS_IAC1_MODE_XOR4 \<equiv> (2 :: byte)"
abbreviation (input) "INFS_IAC1_HEADER_SIZE \<equiv> (4 :: nat)"
abbreviation (input) "INFS_IAC1_HASH_BITS \<equiv> (14 :: nat)"
abbreviation (input) "INFS_IAC1_MATCH_MIN \<equiv> (4 :: nat)"
abbreviation (input) "INFS_IAC1_MATCH_MAX \<equiv> (131 :: nat)"
abbreviation (input) "INFS_IAC1_LITERAL_MAX \<equiv> (127 :: nat)"
abbreviation (input) "INFS_IAC1_FILL_TOKEN \<equiv> (0x7f :: byte)"
abbreviation (input) "INFS_IAC1_FILL_MIN \<equiv> (4 :: nat)"
abbreviation (input) "INFS_IAC1_FILL_MAX \<equiv> (65535 :: nat)"
abbreviation (input) "INFS_IAC1_WINDOW_MAX \<equiv> (65535 :: nat)"

record infs_iac1_scratch =
  iac1_latest :: "u32 \<Rightarrow> u32"
  iac1_previous :: "u32 \<Rightarrow> u32"

definition infs_iac1_bound :: "nat \<Rightarrow> nat" where
  "infs_iac1_bound input_size =
     INFS_IAC1_HEADER_SIZE + input_size + (input_size + INFS_IAC1_LITERAL_MAX - 1) div INFS_IAC1_LITERAL_MAX"

definition infs_iac1_delta_byte :: "bytes \<Rightarrow> nat \<Rightarrow> byte" where
  "infs_iac1_delta_byte src pos = (if pos \<noteq> 0 then src ! pos - src ! (pos - 1) else src ! pos)"

definition infs_iac1_xor4_byte :: "bytes \<Rightarrow> nat \<Rightarrow> byte" where
  "infs_iac1_xor4_byte src pos = (if 4 \<le> pos then src ! pos XOR src ! (pos - 4) else src ! pos)"

definition infs_iac1_transform_byte :: "bytes \<Rightarrow> nat \<Rightarrow> byte \<Rightarrow> byte" where
  "infs_iac1_transform_byte src pos mode =
     (if mode = INFS_IAC1_MODE_DELTA8 then infs_iac1_delta_byte src pos
      else if mode = INFS_IAC1_MODE_XOR4 then infs_iac1_xor4_byte src pos
      else src ! pos)"

text \<open>The byte read by the three-way branches on the mode in the hash, the match and the run loops.\<close>

definition iac1_branch_byte :: "bytes \<Rightarrow> nat \<Rightarrow> byte \<Rightarrow> byte" where
  "iac1_branch_byte src pos mode =
     (if mode = INFS_IAC1_MODE_IDENTITY then src ! pos
      else if mode = INFS_IAC1_MODE_DELTA8 then infs_iac1_delta_byte src pos
      else infs_iac1_xor4_byte src pos)"

definition infs_iac1_hash4 :: "bytes \<Rightarrow> nat \<Rightarrow> byte \<Rightarrow> u32" where
  "infs_iac1_hash4 src pos mode =
     (let b0 = iac1_branch_byte src pos mode;
          b1 = iac1_branch_byte src (pos + 1) mode;
          b2 = iac1_branch_byte src (pos + 2) mode;
          b3 = iac1_branch_byte src (pos + 3) mode;
          v0 = ucast b0 OR push_bit 8 (ucast b1) OR push_bit 16 (ucast b2) OR push_bit 24 (ucast b3);
          v1 = v0 XOR drop_bit 15 v0;
          v2 = v1 * 0x2c1b3c6d;
          v3 = v2 XOR drop_bit 12 v2
      in drop_bit (32 - INFS_IAC1_HASH_BITS) v3)"

definition infs_iac1_clear_scratch :: infs_iac1_scratch where
  "infs_iac1_clear_scratch = \<lparr> iac1_latest = (\<lambda>_. 0), iac1_previous = (\<lambda>_. 0) \<rparr>"

definition infs_iac1_insert_position ::
  "bytes \<Rightarrow> nat \<Rightarrow> byte \<Rightarrow> infs_iac1_scratch \<Rightarrow> infs_iac1_scratch" where
  "infs_iac1_insert_position src pos mode scratch =
     (if pos + INFS_IAC1_MATCH_MIN > length src then scratch
      else let h = infs_iac1_hash4 src pos mode
           in scratch \<lparr> iac1_previous := (iac1_previous scratch)(h := iac1_latest scratch h),
                        iac1_latest := (iac1_latest scratch)(h := of_nat pos + 1) \<rparr>)"

function match_loop :: "bytes \<Rightarrow> byte \<Rightarrow> nat \<Rightarrow> nat \<Rightarrow> nat \<Rightarrow> nat \<Rightarrow> nat" where
  "match_loop src mode pos candidate limit len =
     (if len < limit \<and> iac1_branch_byte src (pos + len) mode = iac1_branch_byte src (candidate + len) mode
      then match_loop src mode pos candidate limit (len + 1) else len)"
  by pat_completeness auto
termination
  by (relation "measure (\<lambda>(src, mode, pos, candidate, limit, len). limit - len)") auto

declare match_loop.simps [simp del]

definition infs_iac1_candidate_match :: "bytes \<Rightarrow> nat \<Rightarrow> nat \<Rightarrow> byte \<Rightarrow> nat" where
  "infs_iac1_candidate_match src pos candidate mode =
     (if candidate \<ge> pos \<or> pos - candidate > INFS_IAC1_WINDOW_MAX then 0
      else let limit = min (length src - pos) INFS_IAC1_MATCH_MAX;
               len = match_loop src mode pos candidate limit 0
           in if len \<ge> INFS_IAC1_MATCH_MIN then len else 0)"

definition find_match_step :: "bytes \<Rightarrow> nat \<Rightarrow> byte \<Rightarrow> u32 \<Rightarrow> nat \<times> nat \<Rightarrow> nat \<times> nat" where
  "find_match_step src pos mode encoded best =
     (if encoded = 0 then best
      else let candidate = unat encoded - 1;
               len = infs_iac1_candidate_match src pos candidate mode
           in if len > fst best then (len, candidate) else best)"

definition infs_iac1_find_match ::
  "bytes \<Rightarrow> nat \<Rightarrow> byte \<Rightarrow> infs_iac1_scratch \<Rightarrow> nat \<times> u16" where
  "infs_iac1_find_match src pos mode scratch =
     (let (best, best_candidate) =
            (if pos + INFS_IAC1_MATCH_MIN \<le> length src
             then let h = infs_iac1_hash4 src pos mode
                  in find_match_step src pos mode (iac1_previous scratch h)
                       (find_match_step src pos mode (iac1_latest scratch h) (0, 0))
             else (0, 0))
      in (best, if best \<noteq> 0 then of_nat (pos - best_candidate) else 0))"

function run_loop :: "bytes \<Rightarrow> byte \<Rightarrow> nat \<Rightarrow> byte \<Rightarrow> nat \<Rightarrow> nat \<Rightarrow> nat" where
  "run_loop src mode pos v limit len =
     (if len < limit \<and> iac1_branch_byte src (pos + len) mode = v
      then run_loop src mode pos v limit (len + 1) else len)"
  by pat_completeness auto
termination
  by (relation "measure (\<lambda>(src, mode, pos, v, limit, len). limit - len)") auto

declare run_loop.simps [simp del]

definition infs_iac1_fill_run :: "bytes \<Rightarrow> nat \<Rightarrow> byte \<Rightarrow> nat" where
  "infs_iac1_fill_run src pos mode =
     (let limit = min (length src - pos) INFS_IAC1_FILL_MAX;
          len = run_loop src mode pos (iac1_branch_byte src pos mode) limit 1
      in if len \<ge> INFS_IAC1_FILL_MIN then len else 0)"

text \<open>The insertion loops \<open>for (k = from; k < to; ++k)\<close> over positions \<open>pos + k\<close>.\<close>

definition insert_range :: "bytes \<Rightarrow> byte \<Rightarrow> nat \<Rightarrow> nat \<Rightarrow> nat \<Rightarrow> infs_iac1_scratch \<Rightarrow> infs_iac1_scratch" where
  "insert_range src mode pos lo hi scratch =
     fold (\<lambda>k. infs_iac1_insert_position src (pos + k) mode) [lo ..< hi] scratch"

function literal_loop :: "bytes \<Rightarrow> byte \<Rightarrow> nat \<Rightarrow> nat \<Rightarrow> infs_iac1_scratch \<Rightarrow> nat \<times> infs_iac1_scratch" where
  "literal_loop src mode start pos scratch =
     (if pos < length src \<and> pos - start < INFS_IAC1_LITERAL_MAX then
        if infs_iac1_fill_run src pos mode \<noteq> 0 \<or> fst (infs_iac1_find_match src pos mode scratch) \<noteq> 0
        then (pos, scratch)
        else literal_loop src mode start (pos + 1) (infs_iac1_insert_position src pos mode scratch)
      else (pos, scratch))"
  by pat_completeness auto
termination
  by (relation "measure (\<lambda>(src, mode, start, pos, scratch). length src - pos)") auto

declare literal_loop.simps [simp del]

definition literal_bytes :: "bytes \<Rightarrow> byte \<Rightarrow> nat \<Rightarrow> nat \<Rightarrow> bytes" where
  "literal_bytes src mode start pos = map (\<lambda>i. iac1_branch_byte src i mode) [start ..< pos]"

function compress_loop ::
  "bytes \<Rightarrow> nat \<Rightarrow> byte \<Rightarrow> infs_iac1_scratch \<Rightarrow> nat \<Rightarrow> bytes \<Rightarrow> bytes" where
  "compress_loop src capacity mode scratch pos dst =
     (if \<not> pos < length src then dst
      else let fill = infs_iac1_fill_run src pos mode in
      if fill \<noteq> 0 then
        if length dst + 4 > capacity then []
        else compress_loop src capacity mode (insert_range src mode pos 0 fill scratch) (pos + fill)
               (dst @ [INFS_IAC1_FILL_TOKEN, infs_iac1_transform_byte src pos mode,
                       of_nat (fill mod 256), of_nat (fill div 256)])
      else let (mtch, distance) = infs_iac1_find_match src pos mode scratch;
               scratch1 = infs_iac1_insert_position src pos mode scratch in
      if mtch \<noteq> 0 then
        if length dst + 3 > capacity then []
        else compress_loop src capacity mode (insert_range src mode pos 1 mtch scratch1) (pos + mtch)
               (dst @ [0x80 OR of_nat (mtch - 4), ucast (distance AND 0xff), ucast (drop_bit 8 distance)])
      else let (pos', scratch2) = literal_loop src mode pos (pos + 1) scratch1;
               literal_length = pos' - pos in
      if literal_length = 0 \<or> pos > length src \<or> literal_length > length src - pos then []
      else if length dst + 1 + literal_length > capacity then []
      else compress_loop src capacity mode scratch2 pos'
             (dst @ of_nat (literal_length - 1) # literal_bytes src mode pos pos'))"
  by pat_completeness auto
termination
  by (relation "measure (\<lambda>(src, capacity, mode, scratch, pos, dst). length src - pos)") auto

declare compress_loop.simps [simp del]

definition infs_iac1_compress_mode_limit :: "bytes \<Rightarrow> nat \<Rightarrow> byte \<Rightarrow> nat \<Rightarrow> bytes" where
  "infs_iac1_compress_mode_limit src capacity0 mode output_limit =
     (let capacity = if output_limit \<noteq> 0 \<and> output_limit < capacity0 then output_limit else capacity0 in
      if src = [] \<or> mode > INFS_IAC1_MODE_XOR4 \<or> capacity < INFS_IAC1_HEADER_SIZE then []
      else compress_loop src capacity mode infs_iac1_clear_scratch 0 [INFS_IAC1_VERSION, mode, 0, 0])"

definition infs_iac1_compress_mode :: "bytes \<Rightarrow> nat \<Rightarrow> byte \<Rightarrow> bytes" where
  "infs_iac1_compress_mode src capacity mode = infs_iac1_compress_mode_limit src capacity mode capacity"

record iac1_sample =
  sm_seen :: "nat \<Rightarrow> u64"
  sm_unique :: u32
  sm_delta :: nat
  sm_xor :: nat

definition attempt_step :: "bytes \<Rightarrow> nat \<Rightarrow> nat \<Rightarrow> iac1_sample \<Rightarrow> iac1_sample" where
  "attempt_step src stride i s =
     (let pos = i * stride;
          v = src ! pos;
          b = push_bit (unat (v AND 63)) (1 :: u64);
          bucket = unat (drop_bit 6 v);
          s1 = if sm_seen s bucket AND b = 0
               then s \<lparr> sm_seen := (sm_seen s)(bucket := sm_seen s bucket OR b), sm_unique := sm_unique s + 1 \<rparr>
               else s;
          s2 = if pos \<ge> 2 \<and> src ! pos - src ! (pos - 1) = src ! (pos - 1) - src ! (pos - 2)
               then s1 \<lparr> sm_delta := sm_delta s1 + 1 \<rparr> else s1
      in if pos \<ge> 4 \<and> src ! pos = src ! (pos - 4) then s2 \<lparr> sm_xor := sm_xor s2 + 1 \<rparr> else s2)"

definition infs_iac1_should_attempt :: "bytes \<Rightarrow> bool" where
  "infs_iac1_should_attempt src =
     (if length src < 32 then False
      else let samples = if length src < 512 then length src else 512;
               stride = if length src div samples = 0 then 1 else length src div samples;
               s = fold (attempt_step src stride) [0 ..< samples]
                     \<lparr> sm_seen = (\<lambda>_. 0), sm_unique = 0, sm_delta = 0, sm_xor = 0 \<rparr>
           in sm_unique s \<le> 200 \<or> sm_delta s > samples div 24 \<or> sm_xor s > samples div 24)"

definition predictor_step :: "bytes \<Rightarrow> nat \<Rightarrow> nat \<Rightarrow> nat \<times> nat \<Rightarrow> nat \<times> nat" where
  "predictor_step src stride n hits =
     (let i0 = 2 + n * stride;
          i = if i0 \<ge> length src then length src - 1 else i0;
          delta_hits = if src ! i - src ! (i - 1) = src ! (i - 1) - src ! (i - 2) then fst hits + 1 else fst hits;
          xor_hits = if i \<ge> 4 \<and> src ! i = src ! (i - 4) then snd hits + 1 else snd hits
      in (delta_hits, xor_hits))"

definition infs_iac1_predictor_mode :: "bytes \<Rightarrow> byte" where
  "infs_iac1_predictor_mode src =
     (if length src < 8 then INFS_IAC1_MODE_IDENTITY
      else let available = length src - 2;
               samples = if available < 1024 then available else 1024;
               stride = if available div samples = 0 then 1 else available div samples;
               (delta_hits, xor_hits) = fold (predictor_step src stride) [0 ..< samples] (0, 0)
           in if xor_hits > delta_hits \<and> xor_hits > samples div 16 then INFS_IAC1_MODE_XOR4
              else if delta_hits > samples div 16 then INFS_IAC1_MODE_DELTA8
              else INFS_IAC1_MODE_IDENTITY)"

definition infs_iac1_compress_selected :: "bytes \<Rightarrow> nat \<Rightarrow> byte \<Rightarrow> nat \<Rightarrow> bytes" where
  "infs_iac1_compress_selected src capacity mode useful_limit =
     (let stored = infs_iac1_compress_mode_limit src capacity mode useful_limit
      in if stored = [] \<and> mode \<noteq> INFS_IAC1_MODE_IDENTITY
         then infs_iac1_compress_mode_limit src capacity INFS_IAC1_MODE_IDENTITY useful_limit
         else stored)"

text \<open>
  The alternate buffer is optional; \<open>None\<close> is the null pointer, otherwise its capacity. The final
  \<open>memcpy\<close> copies the alternate into the destination without looking at the destination's capacity:
  \<open>Iac1_Overrun n\<close> is a copy of \<open>n\<close> bytes that runs past its end, \<open>Iac1_Stored\<close> the bytes stored
  in the destination (none for the return value 0).
\<close>

datatype iac1_outcome = Iac1_Stored bytes | Iac1_Overrun nat

definition infs_iac1_compress :: "bytes \<Rightarrow> nat \<Rightarrow> nat option \<Rightarrow> iac1_outcome" where
  "infs_iac1_compress src capacity candidate =
     (let best = infs_iac1_compress_mode src capacity INFS_IAC1_MODE_IDENTITY;
          mode = infs_iac1_predictor_mode src
      in case candidate of
           Some candidate_capacity \<Rightarrow>
             if mode \<noteq> INFS_IAC1_MODE_IDENTITY \<and> candidate_capacity \<ge> capacity
             then let alternate = infs_iac1_compress_mode src candidate_capacity mode
                  in if alternate \<noteq> [] \<and> (best = [] \<or> length alternate < length best)
                     then if length alternate > capacity then Iac1_Overrun (length alternate)
                          else Iac1_Stored alternate
                     else Iac1_Stored best
             else Iac1_Stored best
         | None \<Rightarrow> Iac1_Stored best)"

text \<open>The copy loop of a match: each byte is read from the buffer the loop is writing.\<close>

primrec copy_loop :: "nat \<Rightarrow> nat \<Rightarrow> bytes \<Rightarrow> bytes" where
  "copy_loop 0 distance dst = dst"
| "copy_loop (Suc n) distance dst = copy_loop n distance (dst @ [dst ! (length dst - distance)])"

definition iac1_size16 :: "bytes \<Rightarrow> nat \<Rightarrow> nat" where
  "iac1_size16 src i = or (unat (src ! i)) (push_bit 8 (unat (src ! (i + 1))))"

function decompress_loop :: "bytes \<Rightarrow> nat \<Rightarrow> nat \<Rightarrow> bytes \<Rightarrow> (nat \<times> bytes) option" where
  "decompress_loop src output_size i dst =
     (if \<not> (i < length src \<and> length dst < output_size) then Some (i, dst)
      else let control = src ! i; i = i + 1; left = output_size - length dst in
      if control = INFS_IAC1_FILL_TOKEN then
        if length src - i < 3 then None
        else let v = src ! i; len = iac1_size16 src (i + 1); i = i + 3 in
          if len < INFS_IAC1_FILL_MIN \<or> len > left then None
          else decompress_loop src output_size i (dst @ replicate len v)
      else if control AND 0x80 = 0 then
        let len = unat control + 1 in
        if len > length src - i \<or> len > left then None
        else decompress_loop src output_size (i + len) (dst @ get_bytes i len src)
      else
        let len = unat (control AND 0x7f) + 4 in
        if length src - i < 2 \<or> len > left then None
        else let distance = iac1_size16 src i; i = i + 2 in
          if distance = 0 \<or> distance > length dst then None
          else decompress_loop src output_size i (copy_loop len distance dst))"
  by pat_completeness auto
termination
  by (relation "measure (\<lambda>(src, output_size, i, dst). length src - i)") auto

declare decompress_loop.simps [simp del]

definition undo_delta :: "bytes \<Rightarrow> bytes" where
  "undo_delta dst = fold (\<lambda>i d. d[i := d ! i + d ! (i - 1)]) [1 ..< length dst] dst"

definition undo_xor4 :: "bytes \<Rightarrow> bytes" where
  "undo_xor4 dst = fold (\<lambda>i d. d[i := d ! i XOR d ! (i - 4)]) [4 ..< length dst] dst"

definition infs_iac1_decompress :: "bytes \<Rightarrow> nat \<Rightarrow> bytes" where
  "infs_iac1_decompress src output_size =
     (if length src < INFS_IAC1_HEADER_SIZE \<or> src ! 0 \<noteq> INFS_IAC1_VERSION \<or> src ! 2 \<noteq> 0 \<or> src ! 3 \<noteq> 0 then []
      else let mode = src ! 1 in
      if mode > INFS_IAC1_MODE_XOR4 then []
      else case decompress_loop src output_size INFS_IAC1_HEADER_SIZE [] of
        None \<Rightarrow> []
      | Some (i, dst) \<Rightarrow>
          if i \<noteq> length src \<or> length dst \<noteq> output_size then []
          else if mode = INFS_IAC1_MODE_DELTA8 then undo_delta dst
          else if mode = INFS_IAC1_MODE_XOR4 then undo_xor4 dst
          else dst)"

section \<open>Token streams\<close>

datatype iac1_token = Fill byte nat | Literal bytes | Match nat nat

fun encode_token :: "iac1_token \<Rightarrow> bytes" where
  "encode_token (Fill v n) = [0x7f, v, of_nat (n mod 256), of_nat (n div 256)]"
| "encode_token (Literal bs) = of_nat (length bs - 1) # bs"
| "encode_token (Match n d) = [0x80 OR of_nat (n - 4), of_nat (d mod 256), of_nat (d div 256)]"

fun expand_token :: "iac1_token \<Rightarrow> bytes \<Rightarrow> bytes" where
  "expand_token (Fill v n) dst = dst @ replicate n v"
| "expand_token (Literal bs) dst = dst @ bs"
| "expand_token (Match n d) dst = copy_loop n d dst"

fun token_ok :: "iac1_token \<Rightarrow> bytes \<Rightarrow> bool" where
  "token_ok (Fill v n) dst \<longleftrightarrow> 4 \<le> n \<and> n \<le> 65535"
| "token_ok (Literal bs) dst \<longleftrightarrow> 1 \<le> length bs \<and> length bs \<le> 127"
| "token_ok (Match n d) dst \<longleftrightarrow> 4 \<le> n \<and> n \<le> 131 \<and> 1 \<le> d \<and> d \<le> 65535 \<and> d \<le> length dst"

fun expand_tokens :: "iac1_token list \<Rightarrow> bytes \<Rightarrow> bytes" where
  "expand_tokens [] dst = dst"
| "expand_tokens (t # ts) dst = expand_tokens ts (expand_token t dst)"

fun tokens_ok :: "iac1_token list \<Rightarrow> bytes \<Rightarrow> bool" where
  "tokens_ok [] dst \<longleftrightarrow> True"
| "tokens_ok (t # ts) dst \<longleftrightarrow> token_ok t dst \<and> tokens_ok ts (expand_token t dst)"

definition encode_tokens :: "iac1_token list \<Rightarrow> bytes" where
  "encode_tokens ts = concat (map encode_token ts)"

text \<open>The input of the coder after prediction, and the inverse of the prediction.\<close>

definition predicted :: "bytes \<Rightarrow> byte \<Rightarrow> bytes" where
  "predicted src mode = map (\<lambda>i. iac1_branch_byte src i mode) [0 ..< length src]"

definition unpredict :: "byte \<Rightarrow> bytes \<Rightarrow> bytes" where
  "unpredict mode dst = (if mode = 1 then undo_delta dst else if mode = 2 then undo_xor4 dst else dst)"

section \<open>Reference definitions and examples\<close>

definition match_at :: "bytes \<Rightarrow> byte \<Rightarrow> nat \<Rightarrow> nat \<Rightarrow> nat \<Rightarrow> bool" where
  "match_at src mode pos m c \<longleftrightarrow> 4 \<le> m \<and> m \<le> 131 \<and> pos + m \<le> length src \<and> c < pos \<and> pos - c \<le> 65535 \<and>
     (\<forall>k<m. iac1_branch_byte src (pos + k) mode = iac1_branch_byte src (c + k) mode)"

definition probe :: "bytes \<Rightarrow> byte \<Rightarrow> infs_iac1_scratch \<Rightarrow> nat \<Rightarrow> bool" where
  "probe src mode scratch pos \<longleftrightarrow>
     infs_iac1_fill_run src pos mode \<noteq> 0 \<or> fst (infs_iac1_find_match src pos mode scratch) \<noteq> 0"

definition budget :: "bytes \<Rightarrow> byte \<Rightarrow> infs_iac1_scratch \<Rightarrow> nat \<Rightarrow> nat" where
  "budget src mode scratch pos =
     (let rem = length src - pos in rem + (if probe src mode scratch pos then rem div 5 else (rem + 4) div 5))"

definition emits :: "bytes \<Rightarrow> byte \<Rightarrow> infs_iac1_scratch \<Rightarrow> nat \<Rightarrow> iac1_token \<Rightarrow> infs_iac1_scratch \<Rightarrow> nat \<Rightarrow> bool" where
  "emits src mode scratch pos t scratch' pos' \<longleftrightarrow>
     pos < pos' \<and> pos' \<le> length src \<and> token_ok t (take pos (predicted src mode)) \<and>
     expand_token t (take pos (predicted src mode)) = take pos' (predicted src mode) \<and>
     length (encode_token t) + budget src mode scratch' pos' \<le> budget src mode scratch pos \<and>
     (\<forall>capacity dst. compress_loop src capacity mode scratch pos dst =
        (if length dst + length (encode_token t) > capacity then []
         else compress_loop src capacity mode scratch' pos' (dst @ encode_token t)))"

definition alternating :: bytes where
  "alternating = [97, 98, 98, 98, 98, 99, 100, 100, 100, 100]"

lemma encode_tokens_simps [simp]:
  "encode_tokens [] = []" "encode_tokens (t # ts) = encode_token t @ encode_tokens ts"
  by (simp_all add: encode_tokens_def)

lemma length_copy_loop [simp]: "length (copy_loop n d dst) = length dst + n"
  by (induction n arbitrary: dst) auto

lemma length_expand_token:
  "token_ok t dst \<Longrightarrow> length dst < length (expand_token t dst)"
  by (cases t) auto

lemma length_expand_tokens: "length dst \<le> length (expand_tokens ts dst)"
proof (induction ts arbitrary: dst)
  case (Cons t ts)
  have "length dst \<le> length (expand_token t dst)" by (cases t) auto
  then show ?case using Cons.IH [of "expand_token t dst"] by simp
qed simp

lemma byte_lt [simp]: "unat (b :: byte) < 256"
  using unsigned_less [of b, where ?'a = nat] by simp

lemma size16_eq: "iac1_size16 src i = unat (src ! i) + 256 * unat (src ! (i + 1))"
proof -
  have "\<not> (bit (unat (src ! i)) n \<and> bit (push_bit 8 (unat (src ! (i + 1)))) n)" for n
    using bit_imp_le_length [of "src ! i" n] by (auto simp: bit_push_bit_iff_nat bit_unsigned_iff)
  then have "unat (src ! i) AND push_bit 8 (unat (src ! (i + 1))) = 0"
    by (intro bit_eqI) (simp add: bit_and_iff)
  from disjunctive_add_eq_or [OF this] show ?thesis
    by (simp add: iac1_size16_def push_bit_eq_mult)
qed

lemma size16_split:
  assumes "src ! i = of_nat (n mod 256)" "src ! (i + 1) = of_nat (n div 256)" "n \<le> 65535"
  shows "iac1_size16 src i = n"
  using assms by (simp add: size16_eq unat_of_nat)

lemma size16_join:
  assumes "iac1_size16 src i = n"
  shows "src ! i = of_nat (n mod 256) \<and> src ! (i + 1) = of_nat (n div 256) \<and> n \<le> 65535"
proof -
  have n: "n = unat (src ! i) + 256 * unat (src ! (i + 1))" using assms by (simp add: size16_eq)
  have "n mod 256 = unat (src ! i)" "n div 256 = unat (src ! (i + 1))" using n byte_lt [of "src ! i"] by simp_all
  moreover have "n \<le> 65535" using n byte_lt [of "src ! i"] byte_lt [of "src ! (i + 1)"] by linarith
  ultimately show ?thesis by simp
qed

lemma low7: "(c :: byte) AND 0x7f = take_bit 7 c"
proof -
  have "(0x7f :: byte) = mask 7" by (simp add: mask_eq_exp_minus_1)
  then show ?thesis by (simp only: take_bit_eq_mask)
qed

lemma bit_high [simp]: "bit (0x80 :: int) n \<longleftrightarrow> n = 7"
  using bit_exp_iff [where ?'a = int, of 7 n] by auto

lemma high_bit: "(c :: byte) AND 0x80 = (if bit c 7 then 0x80 else 0)"
  by (rule bit_eqI) (auto simp: bit_and_iff)

lemma control_parts:
  assumes "bit (c :: byte) 7" shows "c = 0x80 OR (c AND 0x7f)"
  unfolding low7
proof (rule bit_eqI)
  fix n assume "possible_bit TYPE(byte) n"
  then show "bit c n = bit (0x80 OR take_bit 7 c) n"
    using assms by (cases "n = 7") (auto simp: bit_or_iff bit_take_bit_iff)
qed

lemma low_byte:
  assumes "\<not> bit (c :: byte) 7" shows "take_bit 7 c = c" "unat c < 128"
proof -
  show e: "take_bit 7 c = c"
  proof (rule bit_eqI)
    fix n assume "possible_bit TYPE(byte) n"
    then show "bit (take_bit 7 c) n = bit c n"
      using assms by (cases "n = 7") (auto simp: bit_take_bit_iff)
  qed
  have "take_bit 7 (unat c) < 2 ^ 7" by (rule take_bit_nat_less_exp)
  moreover have "take_bit 7 (unat c) = unat (take_bit 7 c)" by (rule unsigned_take_bit_eq [symmetric])
  ultimately show "unat c < 128" by (simp add: e)
qed

lemma match_control:
  assumes "m < 128" and c: "c = (0x80 :: byte) OR of_nat m"
  shows "c \<noteq> 0x7f" "c AND 0x80 \<noteq> 0" "unat (c AND 0x7f) = m"
proof -
  have "bit c 7" by (simp add: c bit_or_iff)
  then show "c AND 0x80 \<noteq> 0" by (simp add: high_bit)
  have "take_bit 7 c = take_bit 7 (of_nat m)"
    unfolding c by (rule bit_eqI) (auto simp: bit_or_iff bit_take_bit_iff)
  then have "unat (c AND 0x7f) = unat (take_bit 7 (of_nat m :: byte))" by (simp add: low7)
  also have "\<dots> = m" using assms by (simp add: unsigned_take_bit_eq unat_of_nat take_bit_nat_eq_self)
  finally show "unat (c AND 0x7f) = m" .
  have "\<not> bit (0x7f :: byte) 7" by simp
  then show "c \<noteq> 0x7f" using \<open>bit c 7\<close> by metis
qed

lemma literal_control:
  assumes "n < 127" and c: "c = (of_nat n :: byte)"
  shows "c \<noteq> 0x7f" "c AND 0x80 = 0" "unat c = n"
proof -
  show u: "unat c = n" using assms by (simp add: unat_of_nat)
  then show "c \<noteq> 0x7f" using assms(1) by auto
  have "take_bit 7 (unat c) = unat c" using assms(1) u by (simp add: take_bit_nat_eq_self)
  then have "take_bit 7 c = c" by (metis unsigned_take_bit_eq word_unat_eq_iff)
  then have "\<not> bit c 7" by (metis bit_take_bit_iff less_irrefl)
  then show "c AND 0x80 = 0" by (simp add: high_bit)
qed

section \<open>Decompression parses token streams\<close>

lemma decompress_fill:
  assumes "i < length src" "length dst < output_size" "src ! i = 0x7f" "3 \<le> length src - Suc i"
    "iac1_size16 src (Suc (Suc i)) = n" "4 \<le> n" "n \<le> output_size - length dst"
  shows "decompress_loop src output_size i dst =
    decompress_loop src output_size (Suc (Suc (Suc (Suc i)))) (dst @ replicate n (src ! Suc i))"
  using assms by (subst decompress_loop.simps) (simp add: Let_def numeral_3_eq_3)

lemma decompress_literal:
  assumes "i < length src" "length dst < output_size" "src ! i \<noteq> 0x7f" "src ! i AND 0x80 = 0"
    "Suc (unat (src ! i)) = n" "n \<le> length src - Suc i" "n \<le> output_size - length dst"
  shows "decompress_loop src output_size i dst =
    decompress_loop src output_size (Suc (i + n)) (dst @ get_bytes (Suc i) n src)"
  using assms by (subst decompress_loop.simps) (auto simp add: Let_def)

lemma decompress_match:
  assumes "i < length src" "length dst < output_size" "src ! i \<noteq> 0x7f" "src ! i AND 0x80 \<noteq> 0"
    "unat (src ! i AND 0x7f) + 4 = n" "2 \<le> length src - Suc i" "n \<le> output_size - length dst"
    "iac1_size16 src (Suc i) = d" "d \<noteq> 0" "d \<le> length dst"
  shows "decompress_loop src output_size i dst =
    decompress_loop src output_size (Suc (Suc (Suc i))) (copy_loop n d dst)"
  using assms by (subst decompress_loop.simps) (auto simp add: Let_def numeral_2_eq_2)

lemma decompress_token:
  assumes src: "src = pre @ encode_token t @ post" and ok: "token_ok t dst"
    and fits: "length (expand_token t dst) \<le> output_size"
  shows "decompress_loop src output_size (length pre) dst =
    decompress_loop src output_size (length (pre @ encode_token t)) (expand_token t dst)"
proof (cases t)
  case (Fill v n)
  have "src ! Suc (length pre) = v" "iac1_size16 src (Suc (Suc (length pre))) = n" "src ! length pre = 0x7f"
    using src ok Fill by (auto simp: nth_append intro!: size16_split)
  then show ?thesis
    using decompress_fill [of "length pre" src dst output_size n] assms Fill by auto
next
  case (Literal bs)
  note c = literal_control [OF _ refl, of "length bs - 1"]
  have "get_bytes (Suc (length pre)) (length bs) src = bs" "src ! length pre = of_nat (length bs - 1)"
    using src Literal by (simp_all add: get_bytes_def nth_append del: of_nat_diff)
  then show ?thesis
    using decompress_literal [of "length pre" src dst output_size "length bs"] assms Literal c
    by (auto simp del: of_nat_diff)
next
  case (Match n d)
  note c = match_control [OF _ refl, of "n - 4"]
  have "iac1_size16 src (Suc (length pre)) = d" "src ! length pre = 0x80 OR of_nat (n - 4)"
    using src ok Match by (auto simp: nth_append simp del: of_nat_diff intro!: size16_split)
  then show ?thesis
    using decompress_match [of "length pre" src dst output_size n d] assms Match c
    by (auto simp del: of_nat_diff)
qed

lemma decompress_tokens:
  assumes "src = pre @ encode_tokens ts" "tokens_ok ts dst" "length (expand_tokens ts dst) \<le> output_size"
  shows "decompress_loop src output_size (length pre) dst = Some (length src, expand_tokens ts dst)"
  using assms
proof (induction ts arbitrary: pre dst)
  case Nil
  then show ?case by (subst decompress_loop.simps) simp
next
  case (Cons t ts)
  have "length (expand_token t dst) \<le> output_size"
    using Cons.prems(3) length_expand_tokens [of "expand_token t dst" ts] by simp
  then have "decompress_loop src output_size (length pre) dst =
      decompress_loop src output_size (length (pre @ encode_token t)) (expand_token t dst)"
    using Cons.prems by (intro decompress_token) simp_all
  also have "\<dots> = Some (length src, expand_tokens ts (expand_token t dst))"
    using Cons.prems by (intro Cons.IH) simp_all
  finally show ?case by simp
qed

text \<open>One iteration of the loop that goes on reads one token.\<close>

lemma get_Suc: "i < length src \<Longrightarrow> get_bytes i (Suc n) src = src ! i # get_bytes (Suc i) n src"
  by (simp add: get_bytes_def Cons_nth_drop_Suc [symmetric])

lemma get_zero [simp]: "get_bytes i 0 src = []"
  by (simp add: get_bytes_def)

lemma decompress_step_fill:
  assumes r: "decompress_loop src output_size i dst = Some r" and i: "i < length src"
    and room: "length dst < output_size" and c: "src ! i = 0x7f"
  obtains n where "4 \<le> n" "n \<le> 65535" "i + 4 \<le> length src" "get_bytes i 4 src = encode_token (Fill (src ! Suc i) n)"
    "length dst + n \<le> output_size"
    "decompress_loop src output_size (i + 4) (dst @ replicate n (src ! Suc i)) = Some r"
proof -
  define n where "n = iac1_size16 src (Suc (Suc i))"
  have g: "3 \<le> length src - Suc i" "4 \<le> n" "n \<le> output_size - length dst"
    using r i room c
    by (auto simp: decompress_loop.simps [of src output_size i dst] Let_def n_def split: if_splits)
  have n: "src ! Suc (Suc i) = of_nat (n mod 256)" "src ! Suc (Suc (Suc i)) = of_nat (n div 256)" "n \<le> 65535"
    using size16_join [OF n_def [symmetric]] by simp_all
  have four: "i + 4 = Suc (Suc (Suc (Suc i)))" "4 = Suc (Suc (Suc (Suc 0)))" by simp_all
  show ?thesis
  proof (rule that [of n])
    show "get_bytes i 4 src = encode_token (Fill (src ! Suc i) n)"
      unfolding four(2) using g i n c by (simp add: get_Suc)
    show "decompress_loop src output_size (i + 4) (dst @ replicate n (src ! Suc i)) = Some r"
      unfolding four(1) using decompress_fill [OF i room c g(1) n_def [symmetric] g(2,3)] r by simp
  qed (use g n room in auto)
qed

lemma decompress_step_literal:
  assumes r: "decompress_loop src output_size i dst = Some r" and i: "i < length src"
    and room: "length dst < output_size" and c: "src ! i \<noteq> 0x7f" "src ! i AND 0x80 = 0"
  obtains bs where "1 \<le> length bs" "length bs \<le> 127" "Suc (i + length bs) \<le> length src"
    "get_bytes i (Suc (length bs)) src = encode_token (Literal bs)" "length dst + length bs \<le> output_size"
    "decompress_loop src output_size (Suc (i + length bs)) (dst @ bs) = Some r"
proof -
  define n where "n = Suc (unat (src ! i))"
  define bs where "bs = get_bytes (Suc i) n src"
  have g: "n \<le> length src - Suc i" "n \<le> output_size - length dst"
    using r i room c
    by (auto simp: decompress_loop.simps [of src output_size i dst] Let_def n_def split: if_splits)
  have l: "length bs = n" using g by (simp add: bs_def)
  have "\<not> bit (src ! i) 7" using c(2) by (simp add: high_bit split: if_splits)
  then have "unat (src ! i) < 128" by (rule low_byte)
  moreover have "unat (src ! i) \<noteq> 127"
  proof
    assume "unat (src ! i) = 127"
    then have "unat (src ! i) = unat (0x7f :: byte)" by simp
    then show False using c(1) by (simp only: word_unat_eq_iff [symmetric])
  qed
  ultimately have n: "n \<le> 127" by (simp add: n_def)
  have "src ! i = of_nat (n - 1)" by (simp add: n_def)
  then have "get_bytes i (Suc (length bs)) src = encode_token (Literal bs)"
    using i l by (simp add: get_Suc bs_def del: of_nat_diff)
  then show ?thesis
    using decompress_literal [OF i room c n_def [symmetric] g] r g n l i room
    by (intro that [of bs]) (auto simp: n_def bs_def)
qed

lemma decompress_step_match:
  assumes r: "decompress_loop src output_size i dst = Some r" and i: "i < length src"
    and room: "length dst < output_size" and c: "src ! i \<noteq> 0x7f" "src ! i AND 0x80 \<noteq> 0"
  obtains n d where "token_ok (Match n d) dst" "i + 3 \<le> length src"
    "get_bytes i 3 src = encode_token (Match n d)" "length dst + n \<le> output_size"
    "decompress_loop src output_size (i + 3) (copy_loop n d dst) = Some r"
proof -
  define n where "n = unat (src ! i AND 0x7f) + 4"
  define d where "d = iac1_size16 src (Suc i)"
  have g: "2 \<le> length src - Suc i" "n \<le> output_size - length dst" "d \<noteq> 0" "d \<le> length dst"
    using r i room c
    by (auto simp: decompress_loop.simps [of src output_size i dst] Let_def n_def d_def split: if_splits)
  have d: "src ! Suc i = of_nat (d mod 256)" "src ! Suc (Suc i) = of_nat (d div 256)" "d \<le> 65535"
    using size16_join [OF d_def [symmetric]] by simp_all
  have b: "bit (src ! i) 7" using c(2) by (simp add: high_bit split: if_splits)
  have "unat (take_bit 7 (src ! i)) < 128" by (rule low_byte) (simp add: bit_take_bit_iff)
  then have n: "4 \<le> n" "n \<le> 131" by (simp_all add: n_def low7)
  have "src ! i = 0x80 OR of_nat (n - 4)" using control_parts [OF b] by (simp add: n_def)
  then have e: "get_bytes i (Suc (Suc (Suc 0))) src = encode_token (Match n d)"
    using g i d by (simp add: get_Suc del: of_nat_diff)
  show ?thesis
    using decompress_match [OF i room c n_def [symmetric] g(1,2) d_def [symmetric] g(3,4)] r e g n d room
    by (intro that [of n d]) (auto simp: numeral_3_eq_3)
qed

lemma decompress_step:
  assumes r: "decompress_loop src output_size i dst = Some r" and i: "i < length src"
    and room: "length dst < output_size"
  obtains t where "token_ok t dst" "i + length (encode_token t) \<le> length src"
    "get_bytes i (length (encode_token t)) src = encode_token t"
    "length (expand_token t dst) \<le> output_size"
    "decompress_loop src output_size (i + length (encode_token t)) (expand_token t dst) = Some r"
proof -
  consider (fill) "src ! i = 0x7f" | (literal) "src ! i \<noteq> 0x7f" "src ! i AND 0x80 = 0"
    | (mtch) "src ! i \<noteq> 0x7f" "src ! i AND 0x80 \<noteq> 0" by blast
  then show ?thesis
  proof cases
    case fill
    show ?thesis
    proof (rule decompress_step_fill [OF r i room fill])
      fix n assume "4 \<le> n" "n \<le> 65535" "i + 4 \<le> length src"
        "get_bytes i 4 src = encode_token (Fill (src ! Suc i) n)" "length dst + n \<le> output_size"
        "decompress_loop src output_size (i + 4) (dst @ replicate n (src ! Suc i)) = Some r"
      moreover have "length (encode_token (Fill (src ! Suc i) n)) = 4" by simp
      ultimately show ?thesis by (intro that [of "Fill (src ! Suc i) n"]) (simp_all del: encode_token.simps)
    qed
  next
    case literal
    show ?thesis
    proof (rule decompress_step_literal [OF r i room literal])
      fix bs assume "1 \<le> length bs" "length bs \<le> 127" "Suc (i + length bs) \<le> length src"
        "get_bytes i (Suc (length bs)) src = encode_token (Literal bs)" "length dst + length bs \<le> output_size"
        "decompress_loop src output_size (Suc (i + length bs)) (dst @ bs) = Some r"
      moreover have "length (encode_token (Literal bs)) = Suc (length bs)" by simp
      ultimately show ?thesis by (intro that [of "Literal bs"]) (simp_all del: encode_token.simps)
    qed
  next
    case mtch
    show ?thesis
    proof (rule decompress_step_match [OF r i room mtch])
      fix n d assume "token_ok (Match n d) dst" "i + 3 \<le> length src"
        "get_bytes i 3 src = encode_token (Match n d)" "length dst + n \<le> output_size"
        "decompress_loop src output_size (i + 3) (copy_loop n d dst) = Some r"
      moreover have "length (encode_token (Match n d)) = 3" by simp
      ultimately show ?thesis
        by (intro that [of "Match n d"]) (simp_all del: encode_token.simps token_ok.simps)
    qed
  qed
qed

lemma decompress_parses:
  assumes "decompress_loop src output_size i dst = Some (i', dst')" "i \<le> length src" "length dst \<le> output_size"
  shows "\<exists>ts. tokens_ok ts dst \<and> dst' = expand_tokens ts dst \<and> take i' src = take i src @ encode_tokens ts \<and>
    i \<le> i' \<and> i' \<le> length src \<and> length dst' \<le> output_size"
  using assms
proof (induction "length src - i" arbitrary: i dst rule: less_induct)
  case less
  show ?case
  proof (cases "i < length src \<and> length dst < output_size")
    case False
    then have "i' = i" "dst' = dst" using less.prems(1) by (auto simp: decompress_loop.simps [of src output_size i dst])
    then show ?thesis using less.prems by (intro exI [of _ "[]"]) simp
  next
    case True
    show ?thesis
    proof (rule decompress_step [OF less.prems(1)])
      fix t assume t: "token_ok t dst" "i + length (encode_token t) \<le> length src"
        "get_bytes i (length (encode_token t)) src = encode_token t" "length (expand_token t dst) \<le> output_size"
        "decompress_loop src output_size (i + length (encode_token t)) (expand_token t dst) = Some (i', dst')"
      have "0 < length (encode_token t)" by (cases t) auto
      then have m: "length src - (i + length (encode_token t)) < length src - i" using True by linarith
      obtain ts where ts: "tokens_ok ts (expand_token t dst)" "dst' = expand_tokens ts (expand_token t dst)"
        "take i' src = take (i + length (encode_token t)) src @ encode_tokens ts"
        "i + length (encode_token t) \<le> i'" "i' \<le> length src" "length dst' \<le> output_size"
        using less.hyps [OF m t(5,2,4)] by auto
      have "take (i + length (encode_token t)) src = take i src @ encode_token t"
        using t(3) by (simp add: take_add get_bytes_def)
      then show ?thesis using t(1) ts by (intro exI [of _ "t # ts"]) simp
    qed (use True in auto)
  qed
qed

section \<open>Prediction is invertible\<close>

lemma undo_fold:
  assumes len: "length d0 = length src" and s: "0 < s"
    and low: "\<And>i. i < length src \<Longrightarrow> i < s \<Longrightarrow> d0 ! i = src ! i"
    and high: "\<And>i. i < length src \<Longrightarrow> s \<le> i \<Longrightarrow> f (d0 ! i) (src ! (i - s)) = src ! i"
  shows "fold (\<lambda>i d. d[i := f (d ! i) (d ! (i - s))]) [s ..< length src] d0 = src"
proof (cases "s \<le> length src")
  case False
  then show ?thesis using len low by (auto intro!: nth_equalityI)
next
  case True
  have "fold (\<lambda>i d. d[i := f (d ! i) (d ! (i - s))]) [s ..< k] d0 = take k src @ drop k d0"
    if "s \<le> k" "k \<le> length src" for k
    using that
  proof (induction k rule: dec_induct)
    case base
    then show ?case using len low by (auto intro!: nth_equalityI simp: nth_append)
  next
    case (step k)
    let ?d = "take k src @ drop k d0"
    have k: "k < length src" using step.prems by simp
    have "?d ! k = d0 ! k" "?d ! (k - s) = src ! (k - s)" using k s step.hyps len by (simp_all add: nth_append)
    then have "?d[k := f (?d ! k) (?d ! (k - s))] = ?d[k := src ! k]" using high [OF k] step.hyps by simp
    also have "\<dots> = take (Suc k) src @ drop (Suc k) d0"
      using k len by (simp add: list_update_append take_Suc_conv_app_nth Cons_nth_drop_Suc [symmetric])
    finally show ?case using step by simp
  qed
  from this [of "length src"] show ?thesis using True len by simp
qed

lemma length_predicted [simp]: "length (predicted src mode) = length src"
  by (simp add: predicted_def)

lemma nth_predicted: "i < length src \<Longrightarrow> predicted src mode ! i = iac1_branch_byte src i mode"
  by (simp add: predicted_def)

lemma mode_cases:
  assumes "(mode :: byte) \<le> 2" obtains "mode = 0" | "mode = 1" | "mode = 2"
proof -
  have "unat mode \<le> 2" using assms by (simp add: word_le_nat_alt)
  then have "unat mode = 0 \<or> unat mode = 1 \<or> unat mode = 2" by linarith
  then show ?thesis using that by (auto simp: word_unat_eq_iff)
qed

lemma unpredict_predicted:
  assumes "mode \<le> 2" shows "unpredict mode (predicted src mode) = src"
  using assms
proof (cases rule: mode_cases)
    case 1
    then show ?thesis by (auto simp: unpredict_def predicted_def iac1_branch_byte_def intro!: nth_equalityI)
  next
    case 2
    then show ?thesis
      using undo_fold [of "predicted src 1" src 1 "\<lambda>a b. a + b"]
      by (simp add: unpredict_def undo_delta_def nth_predicted iac1_branch_byte_def infs_iac1_delta_byte_def)
  next
    case 3
    then show ?thesis
      using undo_fold [of "predicted src 2" src 4 "\<lambda>a b. a XOR b"]
      by (simp add: unpredict_def undo_xor4_def nth_predicted iac1_branch_byte_def infs_iac1_xor4_byte_def
          xor.assoc)
qed

section \<open>Compression emits tokens of the predicted input\<close>

lemma transform_branch: "mode \<le> 2 \<Longrightarrow> infs_iac1_transform_byte src pos mode = iac1_branch_byte src pos mode"
  by (erule mode_cases) (simp_all add: infs_iac1_transform_byte_def iac1_branch_byte_def)

lemma run_loop_run:
  assumes "len \<le> limit" "\<And>k. k < len \<Longrightarrow> iac1_branch_byte src (pos + k) mode = v"
  shows "run_loop src mode pos v limit len \<le> limit"
    "k < run_loop src mode pos v limit len \<Longrightarrow> iac1_branch_byte src (pos + k) mode = v"
proof -
  have "run_loop src mode pos v limit len \<le> limit \<and>
      (\<forall>k < run_loop src mode pos v limit len. iac1_branch_byte src (pos + k) mode = v)"
    using assms
  proof (induction "limit - len" arbitrary: len rule: less_induct)
    case less
    show ?case
    proof (cases "len < limit \<and> iac1_branch_byte src (pos + len) mode = v")
      case True
      have e: "run_loop src mode pos v limit len = run_loop src mode pos v limit (len + 1)"
        using True by (subst run_loop.simps) simp
      have "iac1_branch_byte src (pos + k) mode = v" if "k < len + 1" for k
        using that True less.prems(2) [of k] by (cases "k = len") simp_all
      then show ?thesis unfolding e using True by (intro less.hyps) simp_all
    next
      case False
      then have "run_loop src mode pos v limit len = len" by (subst run_loop.simps) auto
      then show ?thesis using less.prems by simp
    qed
  qed
  then show "run_loop src mode pos v limit len \<le> limit"
    "k < run_loop src mode pos v limit len \<Longrightarrow> iac1_branch_byte src (pos + k) mode = v" by auto
qed

lemma fill_run_spec:
  assumes "infs_iac1_fill_run src pos mode = f" "f \<noteq> 0" "pos < length src"
  shows "4 \<le> f" "f \<le> 65535" "pos + f \<le> length src"
    "k < f \<Longrightarrow> iac1_branch_byte src (pos + k) mode = iac1_branch_byte src pos mode"
proof -
  let ?limit = "min (length src - pos) 65535"
  have "f = run_loop src mode pos (iac1_branch_byte src pos mode) ?limit 1" "4 \<le> f"
    using assms by (auto simp: infs_iac1_fill_run_def Let_def split: if_splits)
  moreover have "1 \<le> ?limit" using assms(3) by linarith
  ultimately have f: "4 \<le> f" "f \<le> ?limit"
    and k: "k < f \<Longrightarrow> iac1_branch_byte src (pos + k) mode = iac1_branch_byte src pos mode"
    using run_loop_run [of 1 ?limit src pos mode "iac1_branch_byte src pos mode"] by (simp_all add: less_Suc_eq)
  from f show "4 \<le> f" "f \<le> 65535" "pos + f \<le> length src" using assms(3) by linarith+
  show "k < f \<Longrightarrow> iac1_branch_byte src (pos + k) mode = iac1_branch_byte src pos mode" by (rule k)
qed

lemma match_loop_match:
  assumes "len \<le> limit"
    "\<And>k. k < len \<Longrightarrow> iac1_branch_byte src (pos + k) mode = iac1_branch_byte src (c + k) mode"
  shows "match_loop src mode pos c limit len \<le> limit \<and>
    (\<forall>k < match_loop src mode pos c limit len.
      iac1_branch_byte src (pos + k) mode = iac1_branch_byte src (c + k) mode)"
  using assms
proof (induction "limit - len" arbitrary: len rule: less_induct)
  case less
  show ?case
  proof (cases "len < limit \<and> iac1_branch_byte src (pos + len) mode = iac1_branch_byte src (c + len) mode")
    case True
    have e: "match_loop src mode pos c limit len = match_loop src mode pos c limit (len + 1)"
      using True by (subst match_loop.simps) simp
    have "iac1_branch_byte src (pos + k) mode = iac1_branch_byte src (c + k) mode" if "k < len + 1" for k
      using that True less.prems(2) [of k] by (cases "k = len") simp_all
    then show ?thesis unfolding e using True by (intro less.hyps) simp_all
  next
    case False
    then have "match_loop src mode pos c limit len = len" by (subst match_loop.simps) auto
    then show ?thesis using less.prems by simp
  qed
qed

lemma candidate_match_spec:
  assumes "infs_iac1_candidate_match src pos c mode = m" "m \<noteq> 0" "pos < length src"
  shows "match_at src mode pos m c"
  using assms match_loop_match [of 0 "min (length src - pos) 131" src pos mode c]
  by (auto simp: infs_iac1_candidate_match_def match_at_def Let_def split: if_splits)

lemma find_match_step_spec:
  assumes "pos < length src" "fst b \<noteq> 0 \<Longrightarrow> match_at src mode pos (fst b) (snd b)"
    "find_match_step src pos mode e b = (m, c)" "m \<noteq> 0"
  shows "match_at src mode pos m c"
  using assms candidate_match_spec [of src pos "unat e - 1" mode m]
  by (auto simp: find_match_step_def Let_def split: if_splits)

lemma find_match_spec:
  assumes "infs_iac1_find_match src pos mode scratch = (m, d)" "m \<noteq> 0" "pos < length src"
  shows "\<exists>c. match_at src mode pos m c \<and> unat d = pos - c"
proof -
  let ?h = "infs_iac1_hash4 src pos mode"
  let ?b = "find_match_step src pos mode (iac1_latest scratch ?h) (0, 0)"
  obtain c where c: "find_match_step src pos mode (iac1_previous scratch ?h) ?b = (m, c)" "d = of_nat (pos - c)"
    using assms by (auto simp: infs_iac1_find_match_def Let_def split: if_splits prod.splits)
  have "match_at src mode pos (fst ?b) (snd ?b)" if "fst ?b \<noteq> 0"
    using find_match_step_spec [of pos src "(0, 0)" mode "iac1_latest scratch ?h" "fst ?b" "snd ?b"] that assms(3)
    by simp
  then have "match_at src mode pos m c"
    using find_match_step_spec [OF assms(3) _ c(1) assms(2)] by blast
  then show ?thesis using c(2) by (intro exI [of _ c]) (auto simp: match_at_def unat_of_nat simp del: of_nat_diff)
qed

lemma copy_loop_take:
  assumes "p + n \<le> length xs" "c < p" "\<And>k. k < n \<Longrightarrow> xs ! (p + k) = xs ! (c + k)"
  shows "copy_loop n (p - c) (take p xs) = take (p + n) xs"
  using assms
proof (induction n arbitrary: p c)
  case (Suc n)
  have e: "take p xs ! (length (take p xs) - (p - c)) = xs ! p"
    using Suc.prems(1,2) Suc.prems(3) [of 0] by simp
  have "xs ! (Suc p + k) = xs ! (Suc c + k)" if "k < n" for k
    using Suc.prems(3) [of "Suc k"] that by simp
  then have "copy_loop n (Suc p - Suc c) (take (Suc p) xs) = take (Suc p + n) xs"
    using Suc.prems by (intro Suc.IH) simp_all
  then show ?case unfolding copy_loop.simps e using Suc.prems by (simp add: take_Suc_conv_app_nth)
qed simp

lemma take_predicted_run:
  assumes "pos + n \<le> length src" "\<And>k. k < n \<Longrightarrow> iac1_branch_byte src (pos + k) mode = v"
  shows "take (pos + n) (predicted src mode) = take pos (predicted src mode) @ replicate n v"
  using assms by (auto simp: take_add nth_predicted intro!: nth_equalityI)

lemma take_predicted_literal:
  assumes "pos \<le> pos'" "pos' \<le> length src"
  shows "take pos' (predicted src mode) = take pos (predicted src mode) @ literal_bytes src mode pos pos'"
  using assms upt_add_eq_append [of 0 pos "pos' - pos"]
  by (simp add: predicted_def literal_bytes_def take_map)

lemma literal_loop_spec:
  assumes "literal_loop src mode start pos scratch = (pos', scratch')" "start < pos" "pos \<le> length src"
    "pos - start \<le> 127"
  shows "pos \<le> pos' \<and> pos' \<le> length src \<and> pos' - start \<le> 127 \<and>
    (pos' = length src \<or> pos' - start = 127 \<or> probe src mode scratch' pos')"
  using assms
proof (induction "length src - pos" arbitrary: pos scratch rule: less_induct)
  case less
  show ?case
  proof (cases "pos < length src \<and> pos - start < 127 \<and> \<not> probe src mode scratch pos")
    case True
    then have "literal_loop src mode start (pos + 1) (infs_iac1_insert_position src pos mode scratch) = (pos', scratch')"
      using less.prems(1) by (simp add: literal_loop.simps [of src mode start pos scratch] probe_def)
    note ll = this
    have m: "length src - (pos + 1) < length src - pos" "start < pos + 1" "pos + 1 \<le> length src" "pos + 1 - start \<le> 127"
      using True less.prems by auto
    show ?thesis using less.hyps [OF m(1) ll m(2-4)] by simp
  next
    case False
    then have "pos' = pos \<and> scratch' = scratch"
      using less.prems(1) by (auto simp: literal_loop.simps [of src mode start pos scratch] probe_def split: if_splits)
    then show ?thesis using False less.prems by auto
  qed
qed

lemma budget_le: "budget src mode scratch pos \<le> length src - pos + (length src - pos + 4) div 5"
  by (auto simp: budget_def Let_def intro!: div_le_mono)

lemma compress_fill:
  assumes "mode \<le> 2" "pos < length src" "infs_iac1_fill_run src pos mode = f" "f \<noteq> 0"
  shows "emits src mode scratch pos (Fill (iac1_branch_byte src pos mode) f)
    (insert_range src mode pos 0 f scratch) (pos + f)"
proof -
  note f = fill_run_spec [OF assms(3,4,2)]
  have "length src - (pos + f) + 4 \<le> length src - pos" using f by linarith
  moreover have "probe src mode scratch pos" using assms by (simp add: probe_def)
  ultimately have "4 + budget src mode (insert_range src mode pos 0 f scratch) (pos + f) \<le> budget src mode scratch pos"
    using budget_le [of src mode "insert_range src mode pos 0 f scratch" "pos + f"]
      div_le_mono [of "length src - (pos + f) + 4" "length src - pos" 5]
    unfolding budget_def Let_def by simp
  moreover have "take (pos + f) (predicted src mode) =
      take pos (predicted src mode) @ replicate f (iac1_branch_byte src pos mode)"
    using f by (intro take_predicted_run)
  moreover have "compress_loop src capacity mode scratch pos dst =
      (if length dst + 4 > capacity then []
       else compress_loop src capacity mode (insert_range src mode pos 0 f scratch) (pos + f)
         (dst @ [0x7f, iac1_branch_byte src pos mode, of_nat (f mod 256), of_nat (f div 256)]))" for capacity dst
    using assms by (subst compress_loop.simps) (simp add: transform_branch)
  moreover have l: "length (encode_token (Fill (iac1_branch_byte src pos mode) f)) = 4" by simp
  ultimately show ?thesis using f unfolding emits_def l by simp
qed

lemma u16_bytes:
  "(ucast ((d :: u16) AND 0xff) :: byte) = of_nat (unat d mod 256)"
  "(ucast (drop_bit 8 (d :: u16)) :: byte) = of_nat (unat d div 256)"
proof -
  have "(0xff :: u16) = mask 8" by (simp add: mask_eq_exp_minus_1)
  then have "d AND 0xff = take_bit 8 d" by (simp only: take_bit_eq_mask)
  then have "unat (d AND 0xff) = unat d mod 256" by (simp add: unsigned_take_bit_eq take_bit_nat_def)
  then show "(ucast (d AND 0xff) :: byte) = of_nat (unat d mod 256)" by (simp add: word_unat_eq_iff unsigned_ucast_eq unat_of_nat take_bit_nat_def)
  have "take_bit 16 (unat d) = unat d" using unsigned_less [of d, where ?'a = nat] by (simp add: take_bit_nat_eq_self)
  then have "unat (drop_bit 8 d) = unat d div 256" by (simp add: unsigned_drop_bit_eq drop_bit_nat_def)
  then show "(ucast (drop_bit 8 d) :: byte) = of_nat (unat d div 256)" by (simp add: word_unat_eq_iff unsigned_ucast_eq unat_of_nat take_bit_nat_def)
qed

lemma compress_match:
  assumes "pos < length src" "infs_iac1_fill_run src pos mode = 0"
    "infs_iac1_find_match src pos mode scratch = (m, d)" "m \<noteq> 0"
  shows "emits src mode scratch pos (Match m (unat d))
    (insert_range src mode pos 1 m (infs_iac1_insert_position src pos mode scratch)) (pos + m)"
proof -
  let ?s = "insert_range src mode pos 1 m (infs_iac1_insert_position src pos mode scratch)"
  obtain c where c: "match_at src mode pos m c" "unat d = pos - c"
    using find_match_spec [OF assms(3,4,1)] by blast
  note m = c(1) [unfolded match_at_def]
  have "length src - (pos + m) + 4 \<le> length src - pos" using m by linarith
  moreover have "probe src mode scratch pos" using assms by (simp add: probe_def)
  ultimately have "3 + budget src mode ?s (pos + m) \<le> budget src mode scratch pos"
    using budget_le [of src mode ?s "pos + m"] div_le_mono [of "length src - (pos + m) + 4" "length src - pos" 5]
    unfolding budget_def Let_def by simp
  moreover have "copy_loop m (pos - c) (take pos (predicted src mode)) = take (pos + m) (predicted src mode)"
    using m by (intro copy_loop_take) (simp_all add: nth_predicted)
  moreover have "compress_loop src capacity mode scratch pos dst =
      (if length dst + 3 > capacity then [] else compress_loop src capacity mode ?s (pos + m)
         (dst @ [0x80 OR of_nat (m - 4), of_nat (unat d mod 256), of_nat (unat d div 256)]))" for capacity dst
    using assms by (subst compress_loop.simps) (simp add: u16_bytes del: of_nat_diff)
  moreover have l: "length (encode_token (Match m (unat d))) = 3" by simp
  moreover have "Suc 0 \<le> pos - c" using m by linarith
  ultimately show ?thesis using m c(2) unfolding emits_def l by (simp del: of_nat_diff)
qed

lemma compress_literal:
  assumes "pos < length src" "infs_iac1_fill_run src pos mode = 0"
    "fst (infs_iac1_find_match src pos mode scratch) = 0"
    and ll: "literal_loop src mode pos (pos + 1) (infs_iac1_insert_position src pos mode scratch) = (pos', scratch')"
  shows "emits src mode scratch pos (Literal (literal_bytes src mode pos pos')) scratch' pos'"
proof -
  have p: "pos + 1 \<le> pos'" "pos' \<le> length src" "pos' - pos \<le> 127"
    and q: "pos' = length src \<or> pos' - pos = 127 \<or> probe src mode scratch' pos'"
    using literal_loop_spec [OF ll] assms(1) by auto
  have l: "length (literal_bytes src mode pos pos') = pos' - pos" by (simp add: literal_bytes_def)
  have "\<not> probe src mode scratch pos" using assms by (simp add: probe_def)
  then have "Suc (pos' - pos) + budget src mode scratch' pos' \<le> budget src mode scratch pos"
    using p q unfolding budget_def Let_def by (auto; presburger)
  moreover have "take pos' (predicted src mode) = take pos (predicted src mode) @ literal_bytes src mode pos pos'"
    using p by (intro take_predicted_literal) simp_all
  moreover have "compress_loop src capacity mode scratch pos dst =
      (if length dst + (1 + (pos' - pos)) > capacity then [] else compress_loop src capacity mode scratch' pos'
         (dst @ of_nat (pos' - pos - 1) # literal_bytes src mode pos pos'))" for capacity dst
    using assms p by (subst compress_loop.simps) (auto simp: Let_def split: prod.split)
  ultimately show ?thesis using p unfolding emits_def by (simp add: l del: of_nat_diff)
qed

lemma compress_step:
  assumes "mode \<le> 2" "pos < length src"
  shows "\<exists>t scratch' pos'. emits src mode scratch pos t scratch' pos'"
proof -
  obtain m d where m: "infs_iac1_find_match src pos mode scratch = (m, d)" by fastforce
  obtain pos' scratch' where
    l: "literal_loop src mode pos (pos + 1) (infs_iac1_insert_position src pos mode scratch) = (pos', scratch')"
    by fastforce
  show ?thesis
    using compress_fill [OF assms refl] compress_match [OF assms(2) _ m] compress_literal [OF assms(2) _ _ l] m
    by (cases "infs_iac1_fill_run src pos mode = 0"; cases "m = 0") fastforce+
qed

text \<open>Every run of the loop emits the tokens of the predicted input; it fails only for want of space.\<close>

lemma compress_loop_tokens:
  assumes "mode \<le> 2" "pos \<le> length src"
  shows "\<exists>ts. tokens_ok ts (take pos (predicted src mode)) \<and>
    expand_tokens ts (take pos (predicted src mode)) = predicted src mode \<and>
    length (encode_tokens ts) \<le> budget src mode scratch pos \<and>
    (\<forall>capacity dst. length dst \<le> capacity \<longrightarrow> compress_loop src capacity mode scratch pos dst =
      (if length dst + length (encode_tokens ts) > capacity then [] else dst @ encode_tokens ts))"
  using assms
proof (induction "length src - pos" arbitrary: pos scratch rule: less_induct)
  case less
  show ?case
  proof (cases "pos < length src")
    case False
    then have "compress_loop src capacity mode scratch pos dst = dst" for capacity dst
      by (subst compress_loop.simps) simp
    then show ?thesis using False by (intro exI [of _ "[]"]) simp
  next
    case True
    obtain t scratch' pos' where e: "emits src mode scratch pos t scratch' pos'"
      using compress_step [OF less.prems(1) True] by blast
    note e' = e [unfolded emits_def]
    have "length src - pos' < length src - pos" using e' True by linarith
    from less.hyps [OF this less.prems(1), of scratch'] e' obtain ts where ts:
      "tokens_ok ts (take pos' (predicted src mode))"
      "expand_tokens ts (take pos' (predicted src mode)) = predicted src mode"
      "length (encode_tokens ts) \<le> budget src mode scratch' pos'"
      "\<And>capacity dst. length dst \<le> capacity \<Longrightarrow> compress_loop src capacity mode scratch' pos' dst =
        (if length dst + length (encode_tokens ts) > capacity then [] else dst @ encode_tokens ts)"
      by blast
    have "compress_loop src capacity mode scratch pos dst =
        (if length dst + length (encode_tokens (t # ts)) > capacity then [] else dst @ encode_tokens (t # ts))"
      for capacity dst
      using e' ts(4) [of "dst @ encode_token t" capacity] by auto
    then show ?thesis using e' ts(1-3) by (intro exI [of _ "t # ts"]) auto
  qed
qed

section \<open>The entry points\<close>

lemma length_unpredict [simp]: "length (unpredict mode dst) = length dst"
proof -
  have "length (fold (\<lambda>i d. d[i := f d i]) is d) = length d" for f :: "bytes \<Rightarrow> nat \<Rightarrow> byte" and "is" d
    by (induction "is" arbitrary: d) simp_all
  then show ?thesis by (simp add: unpredict_def undo_delta_def undo_xor4_def)
qed

lemma decompress_encoded:
  assumes "mode \<le> 2" "tokens_ok ts []" "length (expand_tokens ts []) = n"
  shows "infs_iac1_decompress ([1, mode, 0, 0] @ encode_tokens ts) n = unpredict mode (expand_tokens ts [])"
proof -
  let ?src = "[1, mode, 0, 0] @ encode_tokens ts"
  have four: "length [1, mode, 0, 0] = 4" by simp
  have "decompress_loop ?src n (length [1, mode, 0, 0]) [] = Some (length ?src, expand_tokens ts [])"
    using assms by (intro decompress_tokens) simp_all
  then have "decompress_loop ?src n 4 [] = Some (length ?src, expand_tokens ts [])" unfolding four .
  moreover have "\<not> 2 < mode" using assms(1) by (simp only: not_less)
  moreover have "?src ! 0 = 1" "?src ! 1 = mode" "?src ! 2 = 0" "?src ! 3 = 0" "\<not> length ?src < 4" by simp_all
  ultimately show ?thesis
    using assms(3) unfolding infs_iac1_decompress_def unpredict_def Let_def by (simp del: append.simps)
qed

lemma decompress_decodes:
  assumes "infs_iac1_decompress src n = out" "out \<noteq> []"
  shows "\<exists>mode ts. mode \<le> 2 \<and> tokens_ok ts [] \<and> src = [1, mode, 0, 0] @ encode_tokens ts \<and>
    length (expand_tokens ts []) = n \<and> out = unpredict mode (expand_tokens ts [])"
proof -
  obtain i dst where d: "decompress_loop src n 4 [] = Some (i, dst)" "4 \<le> length src" "src ! 0 = 1" "src ! 2 = 0"
    "src ! 3 = 0" "src ! 1 \<le> 2" "i = length src" "length dst = n" "out = unpredict (src ! 1) dst"
    using assms by (auto simp: infs_iac1_decompress_def unpredict_def Let_def not_less split: if_splits option.splits)
  obtain ts where ts: "tokens_ok ts []" "dst = expand_tokens ts []" "take i src = take 4 src @ encode_tokens ts"
    using decompress_parses [OF d(1)] d(2) by auto
  obtain a b c e r where "src = a # b # c # e # r" using d(2) by (auto simp: numeral_eq_Suc Suc_le_length_iff)
  then have "take 4 src = [1, src ! 1, 0, 0]" using d(3-5) by simp
  then show ?thesis using ts d by (intro exI [of _ "src ! 1"] exI [of _ ts]) simp
qed

lemma compress_mode_limit_spec:
  assumes "src \<noteq> []" "mode \<le> 2"
  obtains ts where "tokens_ok ts []" "expand_tokens ts [] = predicted src mode"
    "length (encode_tokens ts) \<le> length src + (length src + 4) div 5"
    "\<And>capacity lim. infs_iac1_compress_mode_limit src capacity mode lim =
      (if 4 + length (encode_tokens ts) > (if lim \<noteq> 0 \<and> lim < capacity then lim else capacity) then []
       else [1, mode, 0, 0] @ encode_tokens ts)"
proof -
  obtain ts where ts: "tokens_ok ts (take 0 (predicted src mode))"
    "expand_tokens ts (take 0 (predicted src mode)) = predicted src mode"
    "length (encode_tokens ts) \<le> budget src mode infs_iac1_clear_scratch 0"
    "\<And>capacity dst. length dst \<le> capacity \<Longrightarrow> compress_loop src capacity mode infs_iac1_clear_scratch 0 dst =
      (if length dst + length (encode_tokens ts) > capacity then [] else dst @ encode_tokens ts)"
    using compress_loop_tokens [OF assms(2), of 0 src infs_iac1_clear_scratch] by auto
  show ?thesis
    using ts budget_le [of src mode infs_iac1_clear_scratch 0] assms
    by (intro that [of ts]) (auto simp: infs_iac1_compress_mode_limit_def Let_def)
qed

lemma compress_mode_limit_inverts:
  assumes "infs_iac1_compress_mode_limit src capacity mode lim = out" "out \<noteq> []"
  shows "infs_iac1_decompress out (length src) = src \<and> length out \<le> capacity \<and> (lim \<noteq> 0 \<longrightarrow> length out \<le> lim)"
proof -
  have m: "src \<noteq> []" "mode \<le> 2" using assms by (auto simp: infs_iac1_compress_mode_limit_def Let_def not_less split: if_splits)
  obtain ts where ts: "tokens_ok ts []" "expand_tokens ts [] = predicted src mode"
    and c: "\<And>capacity lim. infs_iac1_compress_mode_limit src capacity mode lim =
      (if 4 + length (encode_tokens ts) > (if lim \<noteq> 0 \<and> lim < capacity then lim else capacity) then []
       else [1, mode, 0, 0] @ encode_tokens ts)"
    by (rule compress_mode_limit_spec [OF m]) blast
  have "out = [1, mode, 0, 0] @ encode_tokens ts \<and> length out \<le> capacity \<and> (lim \<noteq> 0 \<longrightarrow> length out \<le> lim)"
    using c [of capacity lim] assms by (auto split: if_splits)
  moreover have "infs_iac1_decompress ([1, mode, 0, 0] @ encode_tokens ts) (length src) = src"
    using decompress_encoded [OF m(2) ts(1), of "length src"] ts(2) unpredict_predicted [OF m(2), of src] by simp
  ultimately show ?thesis by blast
qed

lemma compress_selected_cases:
  "\<exists>mode'. infs_iac1_compress_mode_limit src capacity mode' lim = infs_iac1_compress_selected src capacity mode lim"
  by (simp add: infs_iac1_compress_selected_def Let_def) blast

lemma compress_stored:
  assumes "infs_iac1_compress src capacity candidate = Iac1_Stored out"
  shows "(\<exists>capacity' mode' lim'. infs_iac1_compress_mode_limit src capacity' mode' lim' = out) \<and> length out \<le> capacity"
proof -
  have "length (infs_iac1_compress_mode src capacity 0) \<le> capacity"
    using compress_mode_limit_inverts [of src capacity 0 capacity]
    by (cases "infs_iac1_compress_mode src capacity 0 = []") (auto simp: infs_iac1_compress_mode_def)
  then show ?thesis
    using assms by (auto simp: infs_iac1_compress_def infs_iac1_compress_mode_def Let_def not_less
        split: option.splits if_splits)
qed

lemma compress_overrun:
  assumes "infs_iac1_compress src capacity candidate = Iac1_Overrun n"
  shows "\<exists>c. candidate = Some c \<and> capacity < n \<and> n \<le> c \<and> infs_iac1_compress_mode src capacity 0 = []"
proof -
  let ?b = "infs_iac1_compress_mode src capacity 0" and ?a = "\<lambda>c. infs_iac1_compress_mode src c (infs_iac1_predictor_mode src)"
  obtain c where c: "candidate = Some c" "n = length (?a c)" "capacity < n" "?a c \<noteq> []" "?b = [] \<or> length (?a c) < length ?b"
    using assms by (auto simp: infs_iac1_compress_def Let_def split: option.splits if_splits)
  have "length ?b \<le> capacity" "length (?a c) \<le> c"
    using compress_mode_limit_inverts [of src capacity 0 capacity] c(4)
      compress_mode_limit_inverts [of src c "infs_iac1_predictor_mode src" c]
    by (cases "?b = []"; auto simp: infs_iac1_compress_mode_def)+
  then show ?thesis using c by auto
qed

lemma alternating_runs:
  "infs_iac1_fill_run alternating 0 0 = 0" "infs_iac1_fill_run alternating 1 0 = 4"
  "infs_iac1_fill_run alternating 5 0 = 0" "infs_iac1_fill_run alternating 6 0 = 4"
  by code_simp+

lemma alternating_no_match:
  assumes "pos = 0 \<or> pos = 5"
  shows "fst (infs_iac1_find_match alternating pos 0 scratch) = 0"
proof (rule ccontr)
  assume m: "fst (infs_iac1_find_match alternating pos 0 scratch) \<noteq> 0"
  have "pos < length alternating" using assms by (elim disjE) (simp_all add: alternating_def)
  then obtain c where "match_at alternating 0 pos (fst (infs_iac1_find_match alternating pos 0 scratch)) c"
    using find_match_spec [OF prod.collapse [symmetric] m] by blast
  then have c: "c < pos" "iac1_branch_byte alternating (pos + 0) 0 = iac1_branch_byte alternating (c + 0) 0"
    unfolding match_at_def using m by blast+
  then have c: "c < pos" "alternating ! pos = alternating ! c" by (simp_all add: iac1_branch_byte_def)
  have v: "alternating ! 0 = 97" "alternating ! 1 = 98" "alternating ! 2 = 98" "alternating ! 3 = 98" "alternating ! 4 = 98"
    "alternating ! 5 = 99" by code_simp+
  from c(1) assms have "pos = 5" "c = 0 \<or> c = 1 \<or> c = 2 \<or> c = 3 \<or> c = 4" by linarith+
  then show False using c(2) v by (elim disjE) simp_all
qed

lemma alternating_literal:
  assumes "pos = 0 \<or> pos = 5"
  shows "emits alternating 0 scratch pos (Literal [alternating ! pos])
    (infs_iac1_insert_position alternating pos 0 scratch) (pos + 1)"
proof -
  have "literal_loop alternating 0 pos (pos + 1) (infs_iac1_insert_position alternating pos 0 scratch) =
      (pos + 1, infs_iac1_insert_position alternating pos 0 scratch)"
    using assms by (subst literal_loop.simps) (auto simp: alternating_runs [unfolded One_nat_def])
  moreover have "literal_bytes alternating 0 pos (pos + 1) = [alternating ! pos]"
    by (simp add: literal_bytes_def iac1_branch_byte_def)
  moreover have "pos < length alternating" using assms by (auto simp: alternating_def)
  ultimately show ?thesis
    using compress_literal [of pos alternating 0 scratch] alternating_runs alternating_no_match [OF assms] assms
    by auto
qed

lemma alternating_compressed:
  "compress_loop alternating capacity 0 scratch 0 [1, 0, 0, 0] =
    (if capacity < 16 then [] else
      [1, 0, 0, 0, 0, 97, 0x7f, 98, 4, 0, 0, 99, 0x7f, 100, 4, 0])"
proof -
  have l: "alternating ! 0 = 97" "iac1_branch_byte alternating 1 0 = 98"
    "alternating ! 5 = 99" "iac1_branch_byte alternating 6 0 = 100"
    "1 < length alternating" "6 < length alternating" by code_simp+
  have e: "encode_token (Literal [v]) = [0, v]" "encode_token (Fill v 4) = [0x7f, v, 4, 0]" for v by simp_all
  have lit: "\<exists>s'. compress_loop alternating capacity 0 s pos dst =
      (if n > capacity then [] else compress_loop alternating capacity 0 s' pos' dst')"
    if "pos = 0 \<or> pos = 5" "n = length dst + 2" "pos' = pos + 1" "dst' = dst @ [0, alternating ! pos]"
    for s pos dst n pos' dst'
    using alternating_literal [OF that(1), of s] that(2-4) unfolding emits_def e
    by (intro exI [of _ "infs_iac1_insert_position alternating pos 0 s"]) simp
  have fill: "\<exists>s'. compress_loop alternating capacity 0 s pos dst =
      (if n > capacity then [] else compress_loop alternating capacity 0 s' pos' dst')"
    if "pos = 1 \<or> pos = 6" "n = length dst + 4" "pos' = pos + 4"
      "dst' = dst @ [0x7f, iac1_branch_byte alternating pos 0, 4, 0]" for s pos dst n pos' dst'
  proof -
    have "emits alternating 0 s pos (Fill (iac1_branch_byte alternating pos 0) 4)
        (insert_range alternating 0 pos 0 4 s) (pos + 4)"
      using that(1) alternating_runs l by (intro compress_fill) auto
    then show ?thesis
      using that(2-4) unfolding emits_def e by (intro exI [of _ "insert_range alternating 0 pos 0 4 s"]) simp
  qed
  have "\<exists>s1. compress_loop alternating capacity 0 scratch 0 [1, 0, 0, 0] = (if 6 > capacity then []
      else compress_loop alternating capacity 0 s1 1 [1, 0, 0, 0, 0, 97])"
    by (rule lit) (simp_all add: l l [unfolded One_nat_def])
  then obtain s1 where 1: "compress_loop alternating capacity 0 scratch 0 [1, 0, 0, 0] = (if 6 > capacity then []
      else compress_loop alternating capacity 0 s1 1 [1, 0, 0, 0, 0, 97])" by blast
  have "\<exists>s2. compress_loop alternating capacity 0 s1 1 [1, 0, 0, 0, 0, 97] = (if 10 > capacity then []
      else compress_loop alternating capacity 0 s2 5 [1, 0, 0, 0, 0, 97, 0x7f, 98, 4, 0])"
    by (rule fill) (simp_all add: l l [unfolded One_nat_def])
  then obtain s2 where 2: "compress_loop alternating capacity 0 s1 1 [1, 0, 0, 0, 0, 97] = (if 10 > capacity then []
      else compress_loop alternating capacity 0 s2 5 [1, 0, 0, 0, 0, 97, 0x7f, 98, 4, 0])" by blast
  have "\<exists>s3. compress_loop alternating capacity 0 s2 5 [1, 0, 0, 0, 0, 97, 0x7f, 98, 4, 0] = (if 12 > capacity then []
      else compress_loop alternating capacity 0 s3 6 [1, 0, 0, 0, 0, 97, 0x7f, 98, 4, 0, 0, 99])"
    by (rule lit) (simp_all add: l l [unfolded One_nat_def])
  then obtain s3 where 3: "compress_loop alternating capacity 0 s2 5 [1, 0, 0, 0, 0, 97, 0x7f, 98, 4, 0] = (if 12 > capacity then []
      else compress_loop alternating capacity 0 s3 6 [1, 0, 0, 0, 0, 97, 0x7f, 98, 4, 0, 0, 99])" by blast
  have "\<exists>s4. compress_loop alternating capacity 0 s3 6 [1, 0, 0, 0, 0, 97, 0x7f, 98, 4, 0, 0, 99] =
      (if 16 > capacity then [] else compress_loop alternating capacity 0 s4 10
        [1, 0, 0, 0, 0, 97, 0x7f, 98, 4, 0, 0, 99, 0x7f, 100, 4, 0])"
    by (rule fill) (simp_all add: l l [unfolded One_nat_def])
  then obtain s4 where 4: "compress_loop alternating capacity 0 s3 6 [1, 0, 0, 0, 0, 97, 0x7f, 98, 4, 0, 0, 99] =
      (if 16 > capacity then [] else compress_loop alternating capacity 0 s4 10
        [1, 0, 0, 0, 0, 97, 0x7f, 98, 4, 0, 0, 99, 0x7f, 100, 4, 0])" by blast
  have "compress_loop alternating capacity 0 s4 10 dst = dst" for dst
    by (subst compress_loop.simps) (simp add: alternating_def)
  then show ?thesis unfolding 1 2 3 4 by simp
qed

lemma alternating_length: "length alternating = 10" "alternating \<noteq> []"
  by (simp_all add: alternating_def)

section \<open>Properties\<close>

text \<open>C30: Decompression accepts exactly the well-formed token streams. For a nonzero output size it
  succeeds if and only if the input is a header with a known mode followed by the encoding of a
  list of tokens, each with lengths and a distance in range, that expands to exactly the requested
  number of bytes; the result is then the expansion with the prediction undone.\<close>

theorem iac1_decompress_accepts:
  assumes "0 < n"
  shows "infs_iac1_decompress src n = out \<and> out \<noteq> [] \<longleftrightarrow>
    (\<exists>mode ts. mode \<le> 2 \<and> tokens_ok ts [] \<and> src = [1, mode, 0, 0] @ encode_tokens ts \<and>
       length (expand_tokens ts []) = n \<and> out = unpredict mode (expand_tokens ts []))"
proof
  assume "infs_iac1_decompress src n = out \<and> out \<noteq> []"
  then show "\<exists>mode ts. mode \<le> 2 \<and> tokens_ok ts [] \<and> src = [1, mode, 0, 0] @ encode_tokens ts \<and>
       length (expand_tokens ts []) = n \<and> out = unpredict mode (expand_tokens ts [])"
    by (intro decompress_decodes) simp_all
next
  assume "\<exists>mode ts. mode \<le> 2 \<and> tokens_ok ts [] \<and> src = [1, mode, 0, 0] @ encode_tokens ts \<and>
       length (expand_tokens ts []) = n \<and> out = unpredict mode (expand_tokens ts [])"
  then obtain mode ts where t: "mode \<le> 2" "tokens_ok ts []" "src = [1, mode, 0, 0] @ encode_tokens ts"
    "length (expand_tokens ts []) = n" "out = unpredict mode (expand_tokens ts [])" by blast
  have "length out = n" using t by simp
  then have "out \<noteq> []" using assms by auto
  then show "infs_iac1_decompress src n = out \<and> out \<noteq> []"
    using decompress_encoded [OF t(1,2,4)] t by simp
qed

theorem iac1_decompress_accepts_witness:
  "infs_iac1_decompress [1, 1, 0, 0, 0, 5, 0x7f, 1, 4, 0] 5 = [5, 6, 7, 8, 9]"
proof -
  have e: "expand_tokens [Literal [5], Fill 1 4] [] = [5, 1, 1, 1, 1]"
    by code_simp
  have u: "unpredict 1 [5, 1, 1, 1, 1] = [5, 6, 7, 8, 9]"
    by code_simp
  have s: "[1, 1, 0, 0, 0, 5, 0x7f, 1, 4, 0] = [1, 1, 0, 0] @ encode_tokens [Literal [5], Fill 1 4]"
    by code_simp
  have "infs_iac1_decompress [1, 1, 0, 0, 0, 5, 0x7f, 1, 4, 0] 5 = [5, 6, 7, 8, 9] \<and> [5, 6, 7, 8, 9] \<noteq> ([] :: bytes)"
    by (rule iac1_decompress_accepts [THEN iffD2], simp, rule exI [of _ 1], rule exI [of _ "[Literal [5], Fill 1 4]"],
        unfold s e u, simp)
  then show ?thesis ..
qed

text \<open>C29: Compression is lossless. Whatever the mode, the capacity and the limit, output that a
  compressor stores fits the destination's capacity (and the useful limit, when one is given), and
  decompressing it to the input's size returns the input. The two filesystem entry points never
  write more than that. The entry point with an alternate buffer copies past the end of the
  destination only if the alternate buffer is larger than the destination and the plain encoding
  did not fit it; with equal capacities or no alternate buffer it never does.\<close>

theorem iac1_roundtrip:
  "(\<forall>out. out \<in> {infs_iac1_compress_mode_limit src capacity mode lim, infs_iac1_compress_selected src capacity mode lim} \<and>
      out \<noteq> [] \<longrightarrow>
      infs_iac1_decompress out (length src) = src \<and> length out \<le> capacity \<and> (lim \<noteq> 0 \<longrightarrow> length out \<le> lim)) \<and>
   (case infs_iac1_compress src capacity candidate of
      Iac1_Stored out \<Rightarrow> length out \<le> capacity \<and> (out \<noteq> [] \<longrightarrow> infs_iac1_decompress out (length src) = src)
    | Iac1_Overrun n \<Rightarrow> \<exists>c. candidate = Some c \<and> capacity < n \<and> n \<le> c \<and> infs_iac1_compress_mode src capacity 0 = [])"
proof (intro conjI allI impI; (elim conjE)?)
  fix out
  assume out: "out \<in> {infs_iac1_compress_mode_limit src capacity mode lim, infs_iac1_compress_selected src capacity mode lim}"
    "out \<noteq> []"
  then obtain mode' where "infs_iac1_compress_mode_limit src capacity mode' lim = out"
    using compress_selected_cases [of src capacity lim mode] by auto
  with out(2) show "infs_iac1_decompress out (length src) = src" "length out \<le> capacity" "lim \<noteq> 0 \<Longrightarrow> length out \<le> lim"
    using compress_mode_limit_inverts [of src capacity mode' lim out] by blast+
next
  show "case infs_iac1_compress src capacity candidate of
      Iac1_Stored out \<Rightarrow> length out \<le> capacity \<and> (out \<noteq> [] \<longrightarrow> infs_iac1_decompress out (length src) = src)
    | Iac1_Overrun n \<Rightarrow> \<exists>c. candidate = Some c \<and> capacity < n \<and> n \<le> c \<and> infs_iac1_compress_mode src capacity 0 = []"
  proof (cases "infs_iac1_compress src capacity candidate")
    case (Iac1_Stored out)
    then show ?thesis using compress_stored [OF Iac1_Stored] compress_mode_limit_inverts by fastforce
  next
    case (Iac1_Overrun n)
    then show ?thesis using compress_overrun [OF Iac1_Overrun] by simp
  qed
qed

theorem iac1_roundtrip_witness:
  "\<exists>out. infs_iac1_compress [7, 7, 7, 7, 7, 1] 20 None = Iac1_Stored out \<and> length out \<le> 20 \<and>
     infs_iac1_decompress out (length [7, 7, 7, 7, 7, 1 :: byte]) = [7, 7, 7, 7, 7, 1]"
proof -
  have "infs_iac1_compress_mode_limit [7, 7, 7, 7, 7, 1] 20 0 20 \<noteq> []"
    by (rule compress_mode_limit_spec [of "[7, 7, 7, 7, 7, 1]" 0]) simp_all
  then obtain out where "infs_iac1_compress [7, 7, 7, 7, 7, 1] 20 None = Iac1_Stored out" "out \<noteq> []"
    by (simp add: infs_iac1_compress_def infs_iac1_compress_mode_def Let_def)
  then show ?thesis
    using iac1_roundtrip [of "[7, 7, 7, 7, 7, 1]" 20 0 0 None] by (auto simp del: list.size)
qed

text \<open>C31: The compressor always fits in four bytes of header, the input and one byte for every
  five input bytes: with that capacity and no tighter limit it succeeds on every nonempty input
  in every mode.\<close>

theorem iac1_worst_case:
  assumes "src \<noteq> []" "mode \<le> 2" "4 + length src + (length src + 4) div 5 \<le> capacity"
  shows "infs_iac1_compress_mode src capacity mode \<noteq> [] \<and>
    length (infs_iac1_compress_mode src capacity mode) \<le> 4 + length src + (length src + 4) div 5"
  by (rule compress_mode_limit_spec [OF assms(1,2)]) (use assms(3) in \<open>simp add: infs_iac1_compress_mode_def\<close>)

theorem iac1_worst_case_witness:
  "infs_iac1_compress_mode [97, 98, 98, 98, 98, 99, 100, 100, 100, 100] 16 0 \<noteq> []"
  using iac1_worst_case [of "[97, 98, 98, 98, 98, 99, 100, 100, 100, 100]" 0 16] by simp

section \<open>Observations\<close>

text \<open>The size that \<^const>\<open>infs_iac1_bound\<close> computes is not an upper bound of the output: ten
  bytes that alternate a literal with a short run need sixteen bytes, one more than the computed
  bound, and a compressor given the bound as its capacity fails on them.\<close>

lemma iac1_bound_not_sufficient:
  "infs_iac1_compress_mode alternating (infs_iac1_bound (length alternating)) 0 = [] \<and>
   length (infs_iac1_compress_mode alternating (infs_iac1_bound (length alternating) + 1) 0) =
     infs_iac1_bound (length alternating) + 1"
  by (simp add: infs_iac1_compress_mode_def infs_iac1_compress_mode_limit_def alternating_compressed
      infs_iac1_bound_def alternating_length)

text \<open>Ten ascending bytes, a four-byte destination and a larger alternate buffer overrun the destination.\<close>

lemma iac1_candidate_overrun:
  "\<exists>n>4. infs_iac1_compress [0, 1, 2, 3, 4, 5, 6, 7, 8, 9] 4 (Some 100) = Iac1_Overrun n"
proof -
  let ?s = "[0, 1, 2, 3, 4, 5, 6, 7, 8, 9] :: bytes"
  have m: "infs_iac1_predictor_mode ?s = 1" by code_simp
  have ne: "?s \<noteq> []" by simp
  have size: "\<exists>n>4. n \<le> 16 \<and> (\<forall>capacity. infs_iac1_compress_mode ?s capacity k = [] \<longleftrightarrow> capacity < n) \<and>
      length (infs_iac1_compress_mode ?s 100 k) = n" if k: "k \<le> 2" for k
  proof -
    obtain ts where ts: "expand_tokens ts [] = predicted ?s k"
      "length (encode_tokens ts) \<le> length ?s + (length ?s + 4) div 5"
      "\<And>capacity lim. infs_iac1_compress_mode_limit ?s capacity k lim =
        (if 4 + length (encode_tokens ts) > (if lim \<noteq> 0 \<and> lim < capacity then lim else capacity) then []
         else [1, k, 0, 0] @ encode_tokens ts)"
      by (rule compress_mode_limit_spec [OF ne k]) blast
    have "predicted ?s k \<noteq> []" using length_predicted [of ?s k] by (metis ne length_0_conv)
    then have "ts \<noteq> []" using ts(1) by (metis expand_tokens.simps(1))
    then have "encode_tokens ts \<noteq> []" by (cases ts; cases "hd ts") auto
    then show ?thesis
      using ts(2,3) by (intro exI [of _ "4 + length (encode_tokens ts)"]) (auto simp: infs_iac1_compress_mode_def)
  qed
  obtain n where n: "4 < n" "n \<le> 16" "\<And>capacity. infs_iac1_compress_mode ?s capacity 1 = [] \<longleftrightarrow> capacity < n"
    "length (infs_iac1_compress_mode ?s 100 1) = n" using size [of 1] by auto
  have "infs_iac1_compress_mode ?s 4 0 = []" using size [of 0] by auto
  then have "infs_iac1_compress ?s 4 (Some 100) = Iac1_Overrun n"
    using n by (simp add: infs_iac1_compress_def m)
  then show ?thesis using n(1) by blast
qed

end
