(* ===== verification/Namespace.thy ===== *)
theory Namespace
  imports Kernel_Base "HOL-Library.Code_Target_Nat"
begin

unbundle bit_operations_syntax

text \<open>
  Name policy: the byte contract of \<open>include/infilfs/namespace_policy.h\<close>, the kernel's use of it in
  \<open>kernel/infiltratorfs_name_policy.c\<close>, and the kernel's UTF-8 validator
  (\<open>infilfs_rw_utf8_valid\<close> of \<open>kernel/infiltratorfs_rw_legacy.inc\<close>). A name is a list of bytes. The
  mount is represented by its incompatible-feature flags (\<open>None\<close> for a missing superblock), the
  dentry-cache hash primitives of Linux are parameters.

  The lemmas show that the validator accepts exactly the concatenations of UTF-8 encoded Unicode
  scalar values, that name comparison is an equivalence compatible with both hashes, and what the
  name checks accept.
\<close>

section \<open>The byte contract\<close>

definition infs_namespace_casefold_byte_v1 :: "byte \<Rightarrow> byte" where
  "infs_namespace_casefold_byte_v1 v = (if 0x41 \<le> v \<and> v \<le> 0x5a then v + (0x61 - 0x41) else v)"

definition removable_reserved :: "bytes list" where
  "removable_reserved = map ascii
     [''CON'', ''PRN'', ''AUX'', ''NUL'',
      ''COM1'', ''COM2'', ''COM3'', ''COM4'', ''COM5'', ''COM6'', ''COM7'', ''COM8'', ''COM9'',
      ''LPT1'', ''LPT2'', ''LPT3'', ''LPT4'', ''LPT5'', ''LPT6'', ''LPT7'', ''LPT8'', ''LPT9'']"

definition removable_forbidden :: "byte \<Rightarrow> bool" where
  "removable_forbidden c \<longleftrightarrow> c < 0x20 \<or> c = 0x7f \<or>
     c = 0x3c \<or> c = 0x3e \<or> c = 0x3a \<or> c = 0x22 \<or>
     c = 0x2f \<or> c = 0x5c \<or> c = 0x7c \<or> c = 0x3f \<or> c = 0x2a"

text \<open>The scan of the name: \<open>None\<close> when a forbidden byte is met, otherwise the collected base and its
  length; a base longer than four bytes is recorded as length five.\<close>

fun removable_scan :: "bytes \<Rightarrow> bytes \<Rightarrow> nat \<Rightarrow> (bytes \<times> nat) option" where
  "removable_scan [] base base_length = Some (base, base_length)"
| "removable_scan (c # name) base base_length =
     (if removable_forbidden c then None
      else if c = 0x2e then Some (base, base_length)
      else if base_length < 5 - 1
      then let c' = if 0x61 \<le> c \<and> c \<le> 0x7a then c - (0x61 - 0x41) else c
           in removable_scan name (base[base_length := c']) (base_length + 1)
      else removable_scan name base 5)"

definition infs_namespace_removable_name_valid_v1 :: "bytes \<Rightarrow> bool" where
  "infs_namespace_removable_name_valid_v1 name =
     (if name = [] \<or> length name > 255 \<or> name ! (length name - 1) = 0x2e \<or> name ! (length name - 1) = 0x20
      then False
      else case removable_scan name (zeros 5) 0 of
        None \<Rightarrow> False
      | Some (base, base_length) \<Rightarrow>
          if base_length < 5
          then \<not> list_ex (\<lambda>r. length r = base_length \<and> take base_length base = r) removable_reserved
          else True)"

section \<open>UTF-8\<close>

primrec utf8_tail :: "nat \<Rightarrow> u32 \<Rightarrow> bytes \<Rightarrow> nat \<Rightarrow> u32 option" where
  "utf8_tail 0 cp s i = Some cp"
| "utf8_tail (Suc need) cp s i =
     (let d = s ! i in
      if d AND 0xc0 \<noteq> 0x80 then None
      else utf8_tail need (push_bit 6 cp OR ucast (d AND 0x3f)) s (i + 1))"

definition utf8_lead :: "byte \<Rightarrow> (u32 \<times> nat) option" where
  "utf8_lead c =
     (if 0xc2 \<le> c \<and> c \<le> 0xdf then Some (ucast (c AND 0x1f), 1)
      else if 0xe0 \<le> c \<and> c \<le> 0xef then Some (ucast (c AND 0x0f), 2)
      else if 0xf0 \<le> c \<and> c \<le> 0xf4 then Some (ucast (c AND 0x07), 3)
      else None)"

function utf8_loop :: "bytes \<Rightarrow> nat \<Rightarrow> bool" where
  "utf8_loop s i =
     (if \<not> i < length s then True
      else let c = s ! i; i = i + 1 in
      if c < 0x80 then utf8_loop s i
      else case utf8_lead c of
        None \<Rightarrow> False
      | Some (cp, need) \<Rightarrow>
          if i + need > length s then False
          else case utf8_tail need cp s i of
            None \<Rightarrow> False
          | Some cp \<Rightarrow>
              if cp < 0x80 \<or> cp < 0x800 \<and> 0xe0 \<le> c \<or> cp < 0x10000 \<and> 0xf0 \<le> c \<or>
                 0xd800 \<le> cp \<and> cp \<le> 0xdfff \<or> cp > 0x10ffff
              then False
              else utf8_loop s (i + need))"
  by pat_completeness auto
termination
  by (relation "measure (\<lambda>(s, i). length s - i)") auto

declare utf8_loop.simps [simp del]

definition infilfs_rw_utf8_valid :: "bytes \<Rightarrow> bool" where
  "infilfs_rw_utf8_valid s = utf8_loop s 0"

section \<open>Kernel name policy\<close>

abbreviation (input) "INFILFS_INCOMPAT_REMOVABLE_NAMES_V1 \<equiv> (0x4000 :: u64)"
abbreviation (input) "INFILFS_INCOMPAT_CASEFOLD_V1 \<equiv> (0x10000 :: u64)"
abbreviation (input) "INFILFS_NAME_MAX \<equiv> (1023 :: nat)"


text \<open>The incompatible-feature flags of the mounted superblock.\<close>

type_synonym mount_flags = "u64 option"

definition infilfs_casefold_names_enabled :: "mount_flags \<Rightarrow> bool" where
  "infilfs_casefold_names_enabled sb =
     (case sb of None \<Rightarrow> False | Some flags \<Rightarrow> flags AND INFILFS_INCOMPAT_CASEFOLD_V1 \<noteq> 0)"

fun casefold_equal :: "bytes \<Rightarrow> bytes \<Rightarrow> bool" where
  "casefold_equal (l # left) (r # right) =
     (if infs_namespace_casefold_byte_v1 l \<noteq> infs_namespace_casefold_byte_v1 r then False
      else casefold_equal left right)"
| "casefold_equal _ _ = True"

definition infilfs_name_equal :: "mount_flags \<Rightarrow> bytes \<Rightarrow> bytes \<Rightarrow> bool" where
  "infilfs_name_equal sb left right =
     (if length left \<noteq> length right then False
      else if \<not> infilfs_casefold_names_enabled sb then left = right
      else casefold_equal left right)"

definition infilfs_name_hash :: "mount_flags \<Rightarrow> bytes \<Rightarrow> u32" where
  "infilfs_name_hash sb name =
     foldl (\<lambda>hash b.
         let v = if infilfs_casefold_names_enabled sb then infs_namespace_casefold_byte_v1 b else b
         in (hash XOR ucast v) * 16777619)
       2166136261 name"

text \<open>The dentry-cache hash of Linux: \<open>init_name_hash\<close>, \<open>partial_name_hash\<close> and \<open>end_name_hash\<close>.\<close>

record 'd dcache_hash =
  dh_init :: "'d \<Rightarrow> u64"
  dh_partial :: "byte \<Rightarrow> u64 \<Rightarrow> u64"
  dh_end :: "u64 \<Rightarrow> u32"

definition infilfs_casefold_d_hash :: "'d dcache_hash \<Rightarrow> 'd \<Rightarrow> bytes \<Rightarrow> u32" where
  "infilfs_casefold_d_hash H dentry name =
     dh_end H (foldl (\<lambda>hash b. dh_partial H (infs_namespace_casefold_byte_v1 b) hash) (dh_init H dentry) name)"

definition infilfs_casefold_d_compare :: "bytes \<Rightarrow> bytes \<Rightarrow> bool" where
  "infilfs_casefold_d_compare str name =
     (if length str \<noteq> length name then True else \<not> casefold_equal str name)"




section \<open>UTF-8 sequences\<close>

definition scalar :: "nat \<Rightarrow> bool" where
  "scalar n \<longleftrightarrow> n < 0xd800 \<or> 0xdfff < n \<and> n < 0x110000"

definition utf8_encode :: "nat \<Rightarrow> bytes" where
  "utf8_encode n =
     (if n < 0x80 then [of_nat n]
      else if n < 0x800 then [of_nat (0xc0 + n div 64), of_nat (0x80 + n mod 64)]
      else if n < 0x10000
      then [of_nat (0xe0 + n div 4096), of_nat (0x80 + n div 64 mod 64), of_nat (0x80 + n mod 64)]
      else [of_nat (0xf0 + n div 262144), of_nat (0x80 + n div 4096 mod 64),
            of_nat (0x80 + n div 64 mod 64), of_nat (0x80 + n mod 64)])"

section \<open>Reference definitions and examples\<close>

definition cont :: "bytes \<Rightarrow> nat \<Rightarrow> bool" where
  "cont s i \<longleftrightarrow> 128 \<le> unat (s ! i) \<and> unat (s ! i) < 192"

definition shift_in :: "u32 \<Rightarrow> byte \<Rightarrow> u32" where
  "shift_in cp d = push_bit 6 cp OR ucast (d AND 0x3f)"

text \<open>The number of bytes of the well-formed sequence at a position, as one round of the loop decides it.\<close>

definition utf8_next :: "bytes \<Rightarrow> nat \<Rightarrow> nat option" where
  "utf8_next s i =
     (if s ! i < 0x80 then Some 1
      else case utf8_lead (s ! i) of None \<Rightarrow> None
      | Some (cp, need) \<Rightarrow>
          if i + 1 + need > length s then None
          else case utf8_tail need cp s (i + 1) of None \<Rightarrow> None
          | Some v \<Rightarrow>
              if v < 0x80 \<or> v < 0x800 \<and> 0xe0 \<le> s ! i \<or> v < 0x10000 \<and> 0xf0 \<le> s ! i \<or>
                 0xd800 \<le> v \<and> v \<le> 0xdfff \<or> v > 0x10ffff
              then None else Some (1 + need))"

definition utf8_at :: "bytes \<Rightarrow> nat \<Rightarrow> nat \<Rightarrow> bool" where
  "utf8_at s i n \<longleftrightarrow> scalar n \<and> i + length (utf8_encode n) \<le> length s \<and>
     get_bytes i (length (utf8_encode n)) s = utf8_encode n"

text \<open>The bytes by which a mount compares names.\<close>

definition name_key :: "mount_flags \<Rightarrow> bytes \<Rightarrow> bytes" where
  "name_key sb name = (if infilfs_casefold_names_enabled sb then map infs_namespace_casefold_byte_v1 name else name)"

text \<open>The part of a name before its first dot, in upper case.\<close>

definition stem :: "bytes \<Rightarrow> bytes" where
  "stem name = takeWhile (\<lambda>c. c \<noteq> 0x2e) name"

definition upper :: "byte \<Rightarrow> byte" where
  "upper c = (if 0x61 \<le> c \<and> c \<le> 0x7a then c - (0x61 - 0x41) else c)"

section \<open>The documented name rules\<close>




lemma mod_window: "k * m \<le> x \<Longrightarrow> x < k * m + m \<Longrightarrow> x mod m = x - k * (m :: nat)"
  by (auto simp: le_iff_add)

lemma low_bits:
  "unat ((d :: byte) AND 0x3f) = unat d mod 64" "unat (d AND 0x1f) = unat d mod 32"
  "unat (d AND 0x0f) = unat d mod 16" "unat (d AND 0x07) = unat d mod 8"
proof -
  have m: "(0x3f :: byte) = mask 6" "(0x1f :: byte) = mask 5" "(0x0f :: byte) = mask 4" "(0x07 :: byte) = mask 3"
    by (simp_all add: mask_eq_exp_minus_1)
  show "unat ((d :: byte) AND 0x3f) = unat d mod 64" "unat (d AND 0x1f) = unat d mod 32"
    "unat (d AND 0x0f) = unat d mod 16" "unat (d AND 0x07) = unat d mod 8"
    unfolding m take_bit_eq_mask [symmetric] by (simp_all add: unsigned_take_bit_eq take_bit_nat_def)
qed

lemma cont_byte: "(d :: byte) AND 0xc0 = 0x80 \<longleftrightarrow> 128 \<le> unat d \<and> unat d < 192"
proof -
  have "(d AND 0xc0) AND (d AND 0x3f) = d AND (0xc0 AND 0x3f)" by (simp only: ac_simps and.left_idem)
  then have "(d AND 0xc0) + (d AND 0x3f) = (d AND 0xc0) OR (d AND 0x3f)" by (intro disjunctive_add_eq_or) simp
  also have "\<dots> = d AND (0xc0 OR 0x3f)" by (simp only: bit.conj_disj_distrib)
  also have "\<dots> = d AND mask 8" by (simp add: mask_eq_exp_minus_1)
  finally have e: "(d AND 0xc0) + (d AND 0x3f) = d" by (simp add: take_bit_eq_mask [symmetric] take_bit_word_eq_self)
  have "d AND 0xc0 \<le> 0xc0" by (rule word_and_le1)
  then have l: "unat (d AND 0xc0) \<le> 192" by (simp add: word_le_nat_alt)
  have "unat (d AND 0xc0) + unat (d AND 0x3f) < 2 ^ LENGTH(8)" using l by (simp add: low_bits(1))
  then have "unat (d AND 0xc0) + unat d mod 64 = unat d"
    using unat_add_lem [of "d AND 0xc0" "d AND 0x3f"] by (simp add: e low_bits(1))
  then have "unat (d AND 0xc0) = 64 * (unat d div 64)" by (simp add: minus_mod_eq_mult_div [symmetric])
  moreover have "d AND 0xc0 = 0x80 \<longleftrightarrow> unat (d AND 0xc0) = 128" by (simp add: word_unat_eq_iff)
  moreover have "64 * (unat d div 64) = 128 \<longleftrightarrow> unat d div 64 = 2" by linarith
  moreover have "unat d div 64 = 2 \<longleftrightarrow> 128 \<le> unat d \<and> unat d < 192"
    using div_mult_mod_eq [of "unat d" 64] mod_less_divisor [of 64 "unat d"] div_nat_eqI [of 64 2 "unat d"] by auto
  ultimately show ?thesis by metis
qed

lemma append_bits:
  assumes "unat (x :: byte) < 64" "unat (cp :: u32) < 2 ^ 20"
  shows "unat (push_bit 6 cp OR ucast x) = unat cp * 64 + unat x"
proof -
  have "\<not> (bit (push_bit 6 cp) n \<and> bit (ucast x :: u32) n)" for n
  proof
    assume a: "bit (push_bit 6 cp) n \<and> bit (ucast x :: u32) n"
    then have "6 \<le> n" "bit x n" by (simp_all add: bit_push_bit_iff bit_ucast_iff)
    moreover have "take_bit 6 (unat x) = unat x" using assms(1) by (simp add: take_bit_nat_eq_self)
    then have "take_bit 6 x = x" by (metis unsigned_take_bit_eq word_unat_eq_iff)
    ultimately show False by (metis bit_take_bit_iff not_le)
  qed
  then have "push_bit 6 cp AND ucast x = 0" by (intro bit_eqI) (simp add: bit_and_iff)
  then have e: "push_bit 6 cp OR ucast x = push_bit 6 cp + ucast x" by (rule disjunctive_add_eq_or [symmetric])
  have "unat cp * unat (64 :: u32) < 2 ^ LENGTH(32)" using assms(2) by simp
  then have p: "unat (push_bit 6 cp) = unat cp * 64" by (simp add: push_bit_eq_mult unat_mult_lem [THEN iffD1])
  have u: "unat (ucast x :: u32) = unat x"
    using unsigned_less [of x, where ?'a = nat] by (simp add: unsigned_ucast_eq take_bit_nat_eq_self)
  have "unat (push_bit 6 cp) + unat (ucast x :: u32) < 2 ^ 32" using assms p u by simp
  then show ?thesis unfolding e by (simp add: unat_add_lem [THEN iffD1] p u)
qed

lemma tail_Suc:
  "utf8_tail (Suc n) cp s i = (if cont s i then utf8_tail n (shift_in cp (s ! i)) s (Suc i) else None)"
  by (simp add: cont_def shift_in_def cont_byte Let_def)

declare utf8_tail.simps(2) [simp del]

lemma unat_shift_in:
  assumes "cont s i" "unat cp < 1048576"
  shows "unat (shift_in cp (s ! i)) = unat cp * 64 + (unat (s ! i) - 128)"
proof -
  have m: "unat (s ! i AND 0x3f) = unat (s ! i) - 128"
    using assms(1) mod_window [of 2 64 "unat (s ! i)"] unfolding low_bits cont_def by simp
  then have "unat (s ! i AND 0x3f) < 64" using assms(1) unfolding cont_def by linarith
  from append_bits [OF this, of cp] assms(2) show ?thesis by (simp add: shift_in_def m)
qed

lemma digit: "b < 64 \<Longrightarrow> (a * 64 + b) div 64 = a \<and> (a * 64 + b) mod 64 = (b :: nat)"
  by simp

lemma encode2:
  assumes c: "194 \<le> c" "c \<le> 223" and d: "128 \<le> d" "d < 192" and n: "n = (c - 192) * 64 + (d - 128)"
  shows "scalar n" "utf8_encode n = [of_nat c, of_nat d]"
proof -
  have q: "n div 64 = c - 192" "n mod 64 = d - 128" using digit [of "d - 128" "c - 192"] d n by simp_all
  have "0x80 \<le> n" "n < 0x800" using n c d by linarith+
  moreover have "0xc0 + n div 64 = c" "0x80 + n mod 64 = d" using q c d by simp_all
  ultimately show "scalar n" "utf8_encode n = [of_nat c, of_nat d]"
    unfolding utf8_encode_def scalar_def by simp_all
qed

lemma encode3:
  assumes c: "224 \<le> c" "c \<le> 239" and d: "128 \<le> d" "d < 192" and e: "128 \<le> e" "e < 192"
    and n: "n = ((c - 224) * 64 + (d - 128)) * 64 + (e - 128)" and big: "0x800 \<le> n"
  shows "utf8_encode n = [of_nat c, of_nat d, of_nat e]" "n < 0x10000"
proof -
  have q: "n div 64 = (c - 224) * 64 + (d - 128)" "n mod 64 = e - 128"
    using digit [of "e - 128" "(c - 224) * 64 + (d - 128)"] e n by simp_all
  have r: "n div 64 div 64 = c - 224" "n div 64 mod 64 = d - 128"
    using digit [of "d - 128" "c - 224"] d by (simp_all add: q(1))
  have "n div 4096 = n div 64 div 64" by (simp add: div_mult2_eq [symmetric])
  then have x: "0xe0 + n div 4096 = c" "0x80 + n div 64 mod 64 = d" "0x80 + n mod 64 = e"
    using q r c d e by simp_all
  have "n div 64 < 1024" using q(1) c d by linarith
  then show l: "n < 0x10000" using div_mult_mod_eq [of n 64] q(2) e by linarith
  then show "utf8_encode n = [of_nat c, of_nat d, of_nat e]"
    using big unfolding utf8_encode_def x by simp
qed

lemma encode4:
  assumes c: "240 \<le> c" and d: "128 \<le> d" "d < 192" and e: "128 \<le> e" "e < 192" and f: "128 \<le> f" "f < 192"
    and n: "n = (((c - 240) * 64 + (d - 128)) * 64 + (e - 128)) * 64 + (f - 128)" and big: "0x10000 \<le> n"
  shows "utf8_encode n = [of_nat c, of_nat d, of_nat e, of_nat f]"
proof -
  have q: "n div 64 = ((c - 240) * 64 + (d - 128)) * 64 + (e - 128)" "n mod 64 = f - 128"
    using digit [of "f - 128" "((c - 240) * 64 + (d - 128)) * 64 + (e - 128)"] f n by simp_all
  have r: "n div 64 div 64 = (c - 240) * 64 + (d - 128)" "n div 64 mod 64 = e - 128"
    using digit [of "e - 128" "(c - 240) * 64 + (d - 128)"] e by (simp_all add: q(1))
  have t: "n div 64 div 64 div 64 = c - 240" "n div 64 div 64 mod 64 = d - 128"
    using digit [of "d - 128" "c - 240"] d by (simp_all add: r(1))
  have g: "n div 4096 = n div 64 div 64" "n div 262144 = n div 64 div 64 div 64"
    by (simp_all only: div_mult2_eq [symmetric] mult_num_simps numeral_times_numeral)
  have x: "0xf0 + n div 262144 = c" "0x80 + n div 4096 mod 64 = d" "0x80 + n div 64 mod 64 = e" "0x80 + n mod 64 = f"
    unfolding g t r(2) q(2) using c d e f by linarith+
  show ?thesis using big unfolding utf8_encode_def x by simp
qed

lemma unat_ucast32: "unat (ucast (x :: byte) :: u32) = unat x"
  using unsigned_less [of x, where ?'a = nat] by (simp add: unsigned_ucast_eq take_bit_nat_eq_self)

lemma lead_iff:
  "utf8_lead c = Some (cp, need) \<longleftrightarrow>
     194 \<le> unat c \<and> unat c \<le> 223 \<and> need = 1 \<and> unat cp = unat c - 192 \<or>
     224 \<le> unat c \<and> unat c \<le> 239 \<and> need = 2 \<and> unat cp = unat c - 224 \<or>
     240 \<le> unat c \<and> unat c \<le> 244 \<and> need = 3 \<and> unat cp = unat c - 240"
proof -
  have m: "194 \<le> unat c \<Longrightarrow> unat c \<le> 223 \<Longrightarrow> unat c mod 32 = unat c - 192"
    "224 \<le> unat c \<Longrightarrow> unat c \<le> 239 \<Longrightarrow> unat c mod 16 = unat c - 224"
    "240 \<le> unat c \<Longrightarrow> unat c \<le> 244 \<Longrightarrow> unat c mod 8 = unat c - 240"
    using mod_window [of 6 32 "unat c"] mod_window [of 14 16 "unat c"] mod_window [of 30 8 "unat c"] by simp_all
  have "cp = ucast x \<longleftrightarrow> unat cp = unat x" for x :: byte by (simp add: word_unat_eq_iff unat_ucast32)
  then show ?thesis
    unfolding utf8_lead_def word_le_nat_alt
    by (cases "unat c \<le> 223"; cases "unat c \<le> 239") (auto simp: low_bits m eq_commute [of _ cp])
qed

lemma utf8_loop_next:
  "utf8_loop s i = (if i < length s then (case utf8_next s i of None \<Rightarrow> False | Some k \<Rightarrow> utf8_loop s (i + k)) else True)"
  by (subst utf8_loop.simps) (simp add: utf8_next_def Let_def add.assoc split: option.split)

lemma get_upto:
  "i < length s \<Longrightarrow> get_bytes i (Suc n) s = s ! i # get_bytes (Suc i) n s" "get_bytes i 0 s = []"
  by (simp_all add: get_bytes_def Cons_nth_drop_Suc [symmetric])

lemma next_complete:
  assumes i: "i < length s" and k: "utf8_next s i = Some k"
  shows "\<exists>n. utf8_at s i n \<and> length (utf8_encode n) = k"
proof (cases "s ! i < 0x80")
  case True
  then have "unat (s ! i) < 128" by (simp add: word_less_nat_alt)
  then have "utf8_encode (unat (s ! i)) = [s ! i]" "scalar (unat (s ! i))" by (simp_all add: utf8_encode_def scalar_def)
  then show ?thesis using i k True
    by (intro exI [of _ "unat (s ! i)"]) (auto simp: utf8_at_def utf8_next_def get_upto)
next
  case False
  then obtain cp need v where l: "utf8_lead (s ! i) = Some (cp, need)" "i + 1 + need \<le> length s"
    and t: "utf8_tail need cp s (i + 1) = Some v" and k': "k = 1 + need"
    and v: "\<not> (v < 0x80 \<or> v < 0x800 \<and> 0xe0 \<le> s ! i \<or> v < 0x10000 \<and> 0xf0 \<le> s ! i \<or>
      0xd800 \<le> v \<and> v \<le> 0xdfff \<or> v > 0x10ffff)"
    using k by (auto simp: utf8_next_def not_less split: option.splits if_splits)
  note v' = v [unfolded word_less_nat_alt word_le_nat_alt, simplified]
  from l(1) [unfolded lead_iff] show ?thesis
  proof (elim disjE conjE)
    assume c: "194 \<le> unat (s ! i)" "unat (s ! i) \<le> 223" and need: "need = 1" and cp: "unat cp = unat (s ! i) - 192"
    have d: "cont s (Suc i)" "v = shift_in cp (s ! Suc i)" using t need by (simp_all add: tail_Suc split: if_splits)
    have u: "unat v = (unat (s ! i) - 192) * 64 + (unat (s ! Suc i) - 128)"
      using unat_shift_in [OF d(1), of cp] cp c(2) d(2) by simp
    show ?thesis
      using encode2 [OF c d(1) [unfolded cont_def, THEN conjunct1] d(1) [unfolded cont_def, THEN conjunct2] u] l(2) i k' need
      by (intro exI [of _ "unat v"]) (simp add: utf8_at_def get_upto)
  next
    assume c: "224 \<le> unat (s ! i)" "unat (s ! i) \<le> 239" and need: "need = 2" and cp: "unat cp = unat (s ! i) - 224"
    have d: "cont s (Suc i)" "cont s (Suc (Suc i))" "v = shift_in (shift_in cp (s ! Suc i)) (s ! Suc (Suc i))"
      using t need by (simp_all add: tail_Suc numeral_2_eq_2 split: if_splits)
    note d' = d(1,2) [unfolded cont_def]
    have u1: "unat (shift_in cp (s ! Suc i)) = (unat (s ! i) - 224) * 64 + (unat (s ! Suc i) - 128)"
      using unat_shift_in [OF d(1), of cp] cp c(2) by simp
    have "unat (shift_in cp (s ! Suc i)) < 1048576" using u1 c d' by linarith
    then have u: "unat v = ((unat (s ! i) - 224) * 64 + (unat (s ! Suc i) - 128)) * 64 + (unat (s ! Suc (Suc i)) - 128)"
      using unat_shift_in [OF d(2), of "shift_in cp (s ! Suc i)"] by (simp only: d(3) u1)
    have big: "2048 \<le> unat v" "unat v < 0xd800 \<or> 0xdfff < unat v" using v' c by linarith+
    show ?thesis
      using encode3 [OF c _ _ _ _ u big(1)] d' big l(2) i k' need
      by (intro exI [of _ "unat v"]) (simp add: utf8_at_def get_upto scalar_def numeral_2_eq_2)
  next
    assume c: "240 \<le> unat (s ! i)" "unat (s ! i) \<le> 244" and need: "need = 3" and cp: "unat cp = unat (s ! i) - 240"
    let ?a = "shift_in cp (s ! Suc i)" and ?j = "Suc (Suc (Suc i))"
    let ?b = "shift_in ?a (s ! Suc (Suc i))"
    have d: "cont s (Suc i)" "cont s (Suc (Suc i))" "cont s ?j" "v = shift_in ?b (s ! ?j)"
      using t need by (simp_all add: tail_Suc numeral_3_eq_3 split: if_splits)
    note d' = d(1-3) [unfolded cont_def]
    have u1: "unat ?a = (unat (s ! i) - 240) * 64 + (unat (s ! Suc i) - 128)"
      using unat_shift_in [OF d(1), of cp] cp c(2) by simp
    then have l1: "unat ?a < 1024" using c d' by linarith
    then have u2: "unat ?b = unat ?a * 64 + (unat (s ! Suc (Suc i)) - 128)"
      by (intro unat_shift_in [OF d(2)]) simp
    have "unat ?b < 1048576" using u2 l1 d' by linarith
    then have u: "unat v = (((unat (s ! i) - 240) * 64 + (unat (s ! Suc i) - 128)) * 64 + (unat (s ! Suc (Suc i)) - 128)) * 64 +
        (unat (s ! ?j) - 128)"
      using unat_shift_in [OF d(3), of ?b] by (simp only: d(4) u1 u2)
    have big: "65536 \<le> unat v" "unat v \<le> 0x10ffff" using v' c by linarith+
    show ?thesis
      using encode4 [OF c(1) _ _ _ _ _ _ u big(1)] d' big l(2) i k' need
      by (intro exI [of _ "unat v"]) (simp add: utf8_at_def get_upto scalar_def numeral_3_eq_3)
  qed
qed

lemma next_accept:
  assumes "\<not> s ! i < 0x80" "utf8_lead (s ! i) = Some (cp, need)" "i + 1 + need \<le> length s"
    "utf8_tail need cp s (Suc i) = Some v" "unat v = n" "scalar n"
    "0x80 \<le> n" "need \<noteq> 1 \<Longrightarrow> 0x800 \<le> n" "need = 3 \<Longrightarrow> 0x10000 \<le> n"
  shows "utf8_next s i = Some (Suc need)"
proof -
  have "need = 1 \<Longrightarrow> \<not> 0xe0 \<le> s ! i" "need \<noteq> 3 \<Longrightarrow> \<not> 0xf0 \<le> s ! i"
    using assms(2) by (auto simp: lead_iff word_le_nat_alt)
  moreover have "\<not> v < 0x80" "v < 0x800 \<Longrightarrow> need = 1" "v < 0x10000 \<Longrightarrow> need \<noteq> 3"
    "\<not> (0xd800 \<le> v \<and> v \<le> 0xdfff)" "\<not> v > 0x10ffff"
    using assms(5-9) by (auto simp: word_less_nat_alt word_le_nat_alt scalar_def)
  ultimately have "\<not> (v < 0x80 \<or> v < 0x800 \<and> 0xe0 \<le> s ! i \<or> v < 0x10000 \<and> 0xf0 \<le> s ! i \<or>
      0xd800 \<le> v \<and> v \<le> 0xdfff \<or> v > 0x10ffff)" by metis
  then show ?thesis using assms(1-4) by (simp add: utf8_next_def)
qed

lemma digits: "n div 4096 * 64 + n div 64 mod 64 = n div 64" "n div 64 * 64 + n mod 64 = n"
  "n div 262144 * 64 + n div 4096 mod 64 = n div 4096" for n :: nat
  using div_mult_mod_eq [of "n div 64" 64] div_mult_mod_eq [of n 64] div_mult_mod_eq [of "n div 4096" 64]
  by (simp_all only: div_mult2_eq [symmetric] mult_num_simps numeral_times_numeral)

lemma not_ascii: "128 \<le> unat (c :: byte) \<Longrightarrow> \<not> c < 0x80"
  by (simp add: word_less_nat_alt)

lemma next_two:
  assumes "utf8_at s i n" "i < length s" "128 \<le> n" "n < 2048"
  shows "utf8_next s i = Some 2"
proof -
  define c d where "c = 0xc0 + n div 64" and "d = 0x80 + n mod 64"
  have e: "utf8_encode n = [of_nat c, of_nat d]" using assms(3,4) by (simp add: utf8_encode_def c_def d_def)
  have b: "194 \<le> c" "c \<le> 223" "128 \<le> d" "d < 192" using assms(3,4) by (auto simp: c_def d_def)
  have s: "s ! i = of_nat c" "s ! Suc i = of_nat d" "i + 2 \<le> length s"
    using assms(1,2) e by (auto simp: utf8_at_def get_upto)
  then have u: "unat (s ! i) = c" "unat (s ! Suc i) = d" using b by (simp_all add: unat_of_nat)
  then have k: "cont s (Suc i)" using b by (simp add: cont_def)
  have l: "utf8_lead (s ! i) = Some (of_nat (c - 192), 1)" and cp: "unat (of_nat (c - 192) :: u32) = c - 192"
    unfolding lead_iff u using b by (simp_all add: unat_of_nat del: of_nat_diff)
  have "unat (shift_in (of_nat (c - 192)) (s ! Suc i)) = (c - 192) * 64 + (d - 128)"
    using unat_shift_in [OF k, of "of_nat (c - 192)"] b(2) by (simp only: cp u)
  also have "\<dots> = n" by (simp add: c_def d_def digits)
  finally show ?thesis
    using next_accept [OF _ l, of "shift_in (of_nat (c - 192)) (s ! Suc i)" n] k s(3) assms b u not_ascii [of "s ! i"]
    by (simp add: tail_Suc utf8_at_def del: of_nat_diff)
qed

lemma next_three:
  assumes "utf8_at s i n" "i < length s" "2048 \<le> n" "n < 65536"
  shows "utf8_next s i = Some 3"
proof -
  define c d e where "c = 0xe0 + n div 4096" and "d = 0x80 + n div 64 mod 64" and "e = 0x80 + n mod 64"
  have enc: "utf8_encode n = [of_nat c, of_nat d, of_nat e]"
    using assms(3,4) by (simp add: utf8_encode_def c_def d_def e_def)
  have b: "224 \<le> c" "c \<le> 239" "128 \<le> d" "d < 192" "128 \<le> e" "e < 192"
    using assms(3,4) by (auto simp: c_def d_def e_def)
  have s: "s ! i = of_nat c" "s ! Suc i = of_nat d" "s ! Suc (Suc i) = of_nat e" "i + 3 \<le> length s"
    using assms(1,2) enc by (auto simp: utf8_at_def get_upto)
  then have u: "unat (s ! i) = c" "unat (s ! Suc i) = d" "unat (s ! Suc (Suc i)) = e"
    using b by (simp_all add: unat_of_nat)
  then have k: "cont s (Suc i)" "cont s (Suc (Suc i))" using b by (simp_all add: cont_def)
  have l: "utf8_lead (s ! i) = Some (of_nat (c - 224), 2)" and cp: "unat (of_nat (c - 224) :: u32) = c - 224"
    unfolding lead_iff u using b by (simp_all add: unat_of_nat del: of_nat_diff)
  let ?a = "shift_in (of_nat (c - 224)) (s ! Suc i)"
  have "unat ?a = (c - 224) * 64 + (d - 128)"
    using unat_shift_in [OF k(1), of "of_nat (c - 224)"] b(2) by (simp only: cp u)
  also have "\<dots> = n div 64" by (simp add: c_def d_def digits)
  finally have a: "unat ?a = n div 64" .
  then have "unat (shift_in ?a (s ! Suc (Suc i))) = n div 64 * 64 + (e - 128)"
    using unat_shift_in [OF k(2), of ?a] assms(4) by (simp only: a u)
  also have "\<dots> = n" by (simp add: e_def digits)
  finally show ?thesis
    using next_accept [OF _ l, of "shift_in ?a (s ! Suc (Suc i))" n] k s(4) assms b u not_ascii [of "s ! i"]
    by (simp add: tail_Suc utf8_at_def numeral_2_eq_2 del: of_nat_diff)
qed

lemma next_four:
  assumes "utf8_at s i n" "i < length s" "65536 \<le> n" "n < 0x110000"
  shows "utf8_next s i = Some 4"
proof -
  define c d e f where "c = 0xf0 + n div 262144" and "d = 0x80 + n div 4096 mod 64"
    and "e = 0x80 + n div 64 mod 64" and "f = 0x80 + n mod 64"
  have enc: "utf8_encode n = [of_nat c, of_nat d, of_nat e, of_nat f]"
    using assms(3,4) by (simp add: utf8_encode_def c_def d_def e_def f_def)
  have b: "240 \<le> c" "c \<le> 244" "128 \<le> d" "d < 192" "128 \<le> e" "e < 192" "128 \<le> f" "f < 192"
    using assms(3,4) by (auto simp: c_def d_def e_def f_def)
  have s: "s ! i = of_nat c" "s ! Suc i = of_nat d" "s ! Suc (Suc i) = of_nat e" "s ! Suc (Suc (Suc i)) = of_nat f"
    "i + 4 \<le> length s"
    using assms(1,2) enc by (auto simp: utf8_at_def get_upto)
  then have u: "unat (s ! i) = c" "unat (s ! Suc i) = d" "unat (s ! Suc (Suc i)) = e" "unat (s ! Suc (Suc (Suc i))) = f"
    using b by (simp_all add: unat_of_nat)
  then have k: "cont s (Suc i)" "cont s (Suc (Suc i))" "cont s (Suc (Suc (Suc i)))" using b by (simp_all add: cont_def)
  have l: "utf8_lead (s ! i) = Some (of_nat (c - 240), 3)" and cp: "unat (of_nat (c - 240) :: u32) = c - 240"
    unfolding lead_iff u using b by (simp_all add: unat_of_nat del: of_nat_diff)
  let ?a = "shift_in (of_nat (c - 240)) (s ! Suc i)"
  let ?b = "shift_in ?a (s ! Suc (Suc i))"
  have "unat ?a = (c - 240) * 64 + (d - 128)"
    using unat_shift_in [OF k(1), of "of_nat (c - 240)"] b(2) by (simp only: cp u)
  also have "\<dots> = n div 4096" by (simp add: c_def d_def digits)
  finally have a: "unat ?a = n div 4096" .
  then have "unat ?b = n div 4096 * 64 + (e - 128)"
    using unat_shift_in [OF k(2), of ?a] assms(4) by (simp only: a u)
  also have "\<dots> = n div 64" by (simp add: e_def digits)
  finally have a2: "unat ?b = n div 64" .
  then have "unat (shift_in ?b (s ! Suc (Suc (Suc i)))) = n div 64 * 64 + (f - 128)"
    using unat_shift_in [OF k(3), of ?b] assms(4) by (simp only: a2 u)
  also have "\<dots> = n" by (simp add: f_def digits)
  finally show ?thesis
    using next_accept [OF _ l, of "shift_in ?b (s ! Suc (Suc (Suc i)))" n] k s(5) assms b u not_ascii [of "s ! i"]
    by (simp add: tail_Suc utf8_at_def numeral_3_eq_3 del: of_nat_diff)
qed

lemma next_sound:
  assumes "utf8_at s i n" "i < length s"
  shows "utf8_next s i = Some (length (utf8_encode n))"
proof -
  have "n < 0x110000" using assms(1) by (auto simp: utf8_at_def scalar_def)
  then consider "n < 128" | "128 \<le> n" "n < 2048" | "2048 \<le> n" "n < 65536" | "65536 \<le> n" "n < 0x110000"
    by linarith
  then show ?thesis
  proof cases
    case 1
    then have "s ! i = of_nat n" using assms by (simp add: utf8_at_def utf8_encode_def get_upto)
    then have "s ! i < 0x80" using 1 by (simp add: word_less_nat_alt unat_of_nat)
    then show ?thesis using 1 by (simp add: utf8_next_def utf8_encode_def)
  qed (use next_two [OF assms] next_three [OF assms] next_four [OF assms] in \<open>simp_all add: utf8_encode_def\<close>)
qed

lemma encode_nonempty: "0 < length (utf8_encode n)"
  by (simp add: utf8_encode_def)

lemma utf8_at_drop:
  "utf8_at s i n \<longleftrightarrow> scalar n \<and> (\<exists>t. drop i s = utf8_encode n @ t \<and> i \<le> length s)"
proof
  assume "utf8_at s i n"
  then show "scalar n \<and> (\<exists>t. drop i s = utf8_encode n @ t \<and> i \<le> length s)"
    by (auto simp: utf8_at_def get_bytes_def intro!: exI [of _ "drop (length (utf8_encode n)) (drop i s)"])
      (metis append_take_drop_id drop_drop)
next
  assume a: "scalar n \<and> (\<exists>t. drop i s = utf8_encode n @ t \<and> i \<le> length s)"
  then obtain t where t: "drop i s = utf8_encode n @ t" "i \<le> length s" by blast
  have "length s - i = length (utf8_encode n) + length t" using arg_cong [OF t(1), of length] by simp
  then show "utf8_at s i n" using a t by (simp add: utf8_at_def get_bytes_def)
qed

lemma utf8_loop_iff:
  "i \<le> length s \<Longrightarrow> utf8_loop s i \<longleftrightarrow> (\<exists>ns. list_all scalar ns \<and> drop i s = concat (map utf8_encode ns))"
proof (induction "length s - i" arbitrary: i rule: less_induct)
  case less
  show ?case
  proof (cases "i < length s")
    case False
    then show ?thesis using less.prems by (subst utf8_loop_next) (auto intro: exI [of _ "[]"])
  next
    case True
    have IH: "utf8_loop s (i + length (utf8_encode n)) \<longleftrightarrow> (\<exists>ns. list_all scalar ns \<and> t = concat (map utf8_encode ns))"
      if t: "drop i s = utf8_encode n @ t" for n t
    proof -
      have "length s - i = length (utf8_encode n) + length t" using arg_cong [OF t, of length] by simp
      then have m: "length s - (i + length (utf8_encode n)) < length s - i" "i + length (utf8_encode n) \<le> length s"
        using encode_nonempty [of n] True by linarith+
      have "drop (i + length (utf8_encode n)) s = drop (length (utf8_encode n)) (drop i s)" by (simp add: add.commute)
      then have "drop (i + length (utf8_encode n)) s = t" unfolding t by simp
      then show ?thesis using less.hyps [OF m] by simp
    qed
    show ?thesis
    proof
      assume "utf8_loop s i"
      then obtain k where k: "utf8_next s i = Some k" "utf8_loop s (i + k)"
        using True by (subst (asm) utf8_loop_next) (auto split: option.splits)
      obtain n where n: "utf8_at s i n" "length (utf8_encode n) = k" using next_complete [OF True k(1)] by blast
      then obtain t where t: "drop i s = utf8_encode n @ t" by (auto simp: utf8_at_drop)
      obtain ns where "list_all scalar ns" "t = concat (map utf8_encode ns)" using IH [OF t] k(2) n(2) by auto
      then show "\<exists>ns. list_all scalar ns \<and> drop i s = concat (map utf8_encode ns)"
        using n(1) t by (intro exI [of _ "n # ns"]) (simp add: utf8_at_def)
    next
      assume "\<exists>ns. list_all scalar ns \<and> drop i s = concat (map utf8_encode ns)"
      then obtain ms where ms: "list_all scalar ms" "drop i s = concat (map utf8_encode ms)" by blast
      have "ms \<noteq> []" using ms(2) True by auto
      then obtain n ns where ns: "list_all scalar (n # ns)" "drop i s = utf8_encode n @ concat (map utf8_encode ns)"
        using ms by (cases ms) auto
      have "utf8_at s i n" using ns True by (simp add: utf8_at_drop)
      then have "utf8_next s i = Some (length (utf8_encode n))" by (rule next_sound [OF _ True])
      moreover have "utf8_loop s (i + length (utf8_encode n))" using IH [OF ns(2)] ns(1) by auto
      ultimately show "utf8_loop s i" using True by (subst utf8_loop_next) simp
    qed
  qed
qed

section \<open>Names\<close>

lemma casefold_equal_iff:
  "length l = length r \<Longrightarrow> casefold_equal l r \<longleftrightarrow>
     map infs_namespace_casefold_byte_v1 l = map infs_namespace_casefold_byte_v1 r"
  by (induction l r rule: list_induct2) simp_all

lemma name_equal_key: "infilfs_name_equal sb l r \<longleftrightarrow> name_key sb l = name_key sb r"
proof -
  have "map infs_namespace_casefold_byte_v1 l = map infs_namespace_casefold_byte_v1 r \<Longrightarrow> length l = length r"
    by (metis length_map)
  then show ?thesis by (auto simp: infilfs_name_equal_def name_key_def casefold_equal_iff)
qed

lemma foldl_map: "foldl f a (map g xs) = foldl (\<lambda>h x. f h (g x)) a xs"
  by (induction xs arbitrary: a) simp_all

lemma name_hash_key: "infilfs_name_hash sb n = foldl (\<lambda>h v. (h XOR ucast v) * 16777619) 2166136261 (name_key sb n)"
  by (simp add: infilfs_name_hash_def name_key_def foldl_map Let_def)

lemma stem_simps [simp]:
  "stem [] = []" "stem (c # name) = (if c = 0x2e then [] else c # stem name)"
  by (simp_all add: stem_def)

lemma dot_allowed [simp]: "\<not> removable_forbidden 0x2e"
  by (simp add: removable_forbidden_def)

lemma scan_five:
  "removable_scan name base 5 = (if list_ex removable_forbidden (stem name) then None else Some (base, 5))"
  by (induction name) auto

lemma scan_stem:
  "n \<le> 4 \<Longrightarrow> length base = 5 \<Longrightarrow>
   (\<exists>b. removable_scan name base n =
      (if list_ex removable_forbidden (stem name) then None
       else Some (b, if n + length (stem name) \<le> 4 then n + length (stem name) else 5)) \<and>
      (n + length (stem name) \<le> 4 \<longrightarrow>
         take (n + length (stem name)) b = take n base @ map upper (stem name)))"
proof (induction name arbitrary: base n)
  case Nil
  then show ?case by auto
next
  case (Cons c name)
  consider "removable_forbidden c" | "c = 0x2e" | "\<not> removable_forbidden c" "c \<noteq> 0x2e" "n = 4"
    | "\<not> removable_forbidden c" "c \<noteq> 0x2e" "n < 4" using Cons.prems by linarith
  then show ?case
  proof cases
    case 1
    then have "c \<noteq> 0x2e" by auto
    then show ?thesis using 1 Cons.prems by (intro exI [of _ "take n base @ map upper (stem (c # name))"]) simp
  next
    case 2
    then show ?thesis using Cons.prems by auto
  next
    case 3
    then show ?thesis by (auto simp: scan_five)
  next
    case 4
    let ?b = "base[n := upper c]"
    have e: "removable_scan (c # name) base n = removable_scan name ?b (n + 1)"
      using 4 by (simp add: upper_def Let_def)
    have t: "take (Suc n) ?b = take n base @ [upper c]" using 4 Cons.prems by (simp add: take_Suc_conv_app_nth)
    show ?thesis using Cons.IH [of "n + 1" ?b] 4 Cons.prems unfolding e by (auto simp: t)
  qed
qed

lemma reserved_length: "r \<in> set removable_reserved \<Longrightarrow> length r \<le> 4"
  by (auto simp: removable_reserved_def ascii_def)

lemma removable_valid_iff:
  "infs_namespace_removable_name_valid_v1 name \<longleftrightarrow>
     name \<noteq> [] \<and> length name \<le> 255 \<and> last name \<noteq> 0x2e \<and> last name \<noteq> 0x20 \<and>
     (\<forall>c\<in>set (stem name). \<not> removable_forbidden c) \<and> map upper (stem name) \<notin> set removable_reserved"
proof -
  have "\<exists>b. removable_scan name (zeros 5) 0 =
      (if list_ex removable_forbidden (stem name) then None
       else Some (b, if length (stem name) \<le> 4 then length (stem name) else 5)) \<and>
      (length (stem name) \<le> 4 \<longrightarrow> take (length (stem name)) b = map upper (stem name))"
    using scan_stem [of 0 "zeros 5" name] by (simp only: length_zeros take_0 append_Nil add_0 le0 simp_thms)
  then obtain b where b: "removable_scan name (zeros 5) 0 =
      (if list_ex removable_forbidden (stem name) then None
       else Some (b, if length (stem name) \<le> 4 then length (stem name) else 5))"
    "length (stem name) \<le> 4 \<Longrightarrow> take (length (stem name)) b = map upper (stem name)" by blast
  have "map upper (stem name) \<in> set removable_reserved \<Longrightarrow> length (stem name) \<le> 4"
    using reserved_length [of "map upper (stem name)"] by simp
  then have r: "(\<exists>r\<in>set removable_reserved. length (stem name) \<le> 4 \<and> length r = length (stem name) \<and>
      take (length (stem name)) b = r) \<longleftrightarrow> map upper (stem name) \<in> set removable_reserved"
    using b(2) by (metis length_map)
  show ?thesis
  proof (cases "name = []")
    case False
    then show ?thesis
      using r by (auto simp: infs_namespace_removable_name_valid_v1_def b(1) last_conv_nth list_ex_iff)
  qed (simp add: infs_namespace_removable_name_valid_v1_def)
qed


section \<open>Properties\<close>

text \<open>C32: The kernel's UTF-8 validator accepts exactly the byte strings that are a concatenation of
  UTF-8 encoded Unicode scalar values: no overlong form, no surrogate, nothing above U+10FFFF, no
  truncated or stray continuation byte.\<close>

theorem utf8_valid_iff:
  "infilfs_rw_utf8_valid s \<longleftrightarrow> (\<exists>ns. list_all scalar ns \<and> s = concat (map utf8_encode ns))"
  unfolding infilfs_rw_utf8_valid_def using utf8_loop_iff [of 0 s] by simp

text \<open>C34: Name comparison is an equivalence relation and both hashes respect it, with and without case
  folding: names that compare equal have the same directory hash, and on a case-folding mount the
  same dentry hash, whatever the hash primitives; the dentry comparison reports a difference exactly
  when the names are not equal.\<close>

theorem name_equality_hashes:
  "infilfs_name_equal sb a a \<and> (infilfs_name_equal sb a b \<longleftrightarrow> infilfs_name_equal sb b a) \<and>
   (infilfs_name_equal sb a b \<and> infilfs_name_equal sb b c \<longrightarrow> infilfs_name_equal sb a c) \<and>
   (infilfs_name_equal sb a b \<longrightarrow> infilfs_name_hash sb a = infilfs_name_hash sb b) \<and>
   (infilfs_casefold_names_enabled sb \<and> infilfs_name_equal sb a b \<longrightarrow>
      infilfs_casefold_d_hash H d a = infilfs_casefold_d_hash H d b) \<and>
   (infilfs_casefold_names_enabled sb \<longrightarrow> infilfs_casefold_d_compare a b = (\<not> infilfs_name_equal sb a b))"
proof -
  have h: "infilfs_casefold_d_hash H d n =
      dh_end H (foldl (\<lambda>h v. dh_partial H v h) (dh_init H d) (map infs_namespace_casefold_byte_v1 n))" for n
    by (simp add: infilfs_casefold_d_hash_def foldl_map)
  have "infilfs_casefold_d_compare a b \<longleftrightarrow> map infs_namespace_casefold_byte_v1 a \<noteq> map infs_namespace_casefold_byte_v1 b"
    using casefold_equal_iff [of a b] map_eq_imp_length_eq [of infs_namespace_casefold_byte_v1 a infs_namespace_casefold_byte_v1 b]
    unfolding infilfs_casefold_d_compare_def by metis
  then show ?thesis unfolding name_equal_key name_hash_key h name_key_def by (simp; metis)
qed

theorem name_equality_hashes_witness:
  "infilfs_name_hash (Some 0x10000) (ascii ''ReadMe'') = infilfs_name_hash (Some 0x10000) (ascii ''readme'')"
proof -
  have "infilfs_name_equal (Some 0x10000) (ascii ''ReadMe'') (ascii ''readme'')"
    unfolding name_equal_key
    by (simp add: name_key_def infilfs_casefold_names_enabled_def ascii_def infs_namespace_casefold_byte_v1_def)
  then show ?thesis
    by (rule name_equality_hashes [THEN conjunct2, THEN conjunct2, THEN conjunct2, THEN conjunct1, THEN mp])
qed



text \<open>The bytes after the first dot are not checked.\<close>

lemma removable_accepts_punctuation:
  "infs_namespace_removable_name_valid_v1 (ascii ''a.?'') \<and> removable_forbidden (ascii ''?'' ! 0)"
  by (simp add: removable_valid_iff stem_def ascii_def upper_def removable_reserved_def removable_forbidden_def)

end
