(* ===== verification/Linux_Meta.thy ===== *)
theory Linux_Meta
  imports Kernel_Base Fs
begin

text \<open>
  Extended attributes of the Linux module. The attributes of an inode are one blob: a header of
  32 bytes and a sequence of records. The theory models the blob codec
  (\<open>kernel/infiltratorfs_linux_meta_codec.c\<close>) and what the attribute handlers of
  \<open>kernel/infiltratorfs_linux_meta.inc\<close> compute on a loaded blob before storing it. A blob refines a list
  of named values: validation accepts exactly the encodings of such lists, and the handlers act on
  them as lookup, update, removal and listing. Loading and storing the blob belong to the
  sidecar files and are not modelled; attribute names are byte strings without a NUL.
\<close>

abbreviation (input) "INFILFS_LINUX_META_MAX \<equiv> (1048576 :: nat)"
abbreviation (input) "XATTR_NAME_MAX \<equiv> (255 :: nat)"
abbreviation (input) "XATTR_SIZE_MAX \<equiv> (65536 :: nat)"
abbreviation (input) "ENODATA \<equiv> E_OTHER 61"
abbreviation (input) "E2BIG \<equiv> E_OTHER 7"

definition INFILFS_LINUX_META_MAGIC :: bytes where
  "INFILFS_LINUX_META_MAGIC = ascii ''INPSXM01''"

definition XATTR_TRUSTED_PREFIX :: bytes where
  "XATTR_TRUSTED_PREFIX = ascii ''trusted.''"

section \<open>The blob codec\<close>

definition infilfs_linux_meta_init :: "ext_lib \<Rightarrow> bytes" where
  "infilfs_linux_meta_init E = put_bytes 8 (st32 E 1) (put_bytes 0 INFILFS_LINUX_META_MAGIC (zeros 32))"

text \<open>The lengths in the record header at an offset.\<close>

definition rec_name_length :: "ext_lib \<Rightarrow> bytes \<Rightarrow> nat \<Rightarrow> nat" where
  "rec_name_length E blob offset = unat (ld16 E (get_bytes offset 2 blob))"

definition rec_value_length :: "ext_lib \<Rightarrow> bytes \<Rightarrow> nat \<Rightarrow> nat" where
  "rec_value_length E blob offset = unat (ld32 E (get_bytes (offset + 4) 4 blob))"

function validate_records :: "ext_lib \<Rightarrow> bytes \<Rightarrow> nat \<Rightarrow> bool" where
  "validate_records E blob offset =
     (if offset < length blob then
        (if length blob - offset < 8 then False
         else
           let name_length = rec_name_length E blob offset;
               val_length = rec_value_length E blob offset
           in if ld16 E (get_bytes (offset + 2) 2 blob) \<noteq> 0 \<or> name_length = 0 \<or>
                 name_length > length blob - offset - 8 then False
              else if val_length > length blob - offset - 8 - name_length then False
              else if name_length > XATTR_NAME_MAX \<or> val_length > XATTR_SIZE_MAX \<or>
                      0 \<in> set (get_bytes (offset + 8) name_length blob) then False
              else
                let record_size = 8 + name_length + val_length
                in if record_size > length blob - offset then False
                   else validate_records E blob (offset + record_size))
      else offset = length blob)"
  by pat_completeness auto
termination by (relation "measure (\<lambda>(E, blob, offset). length blob - offset)") auto

definition infilfs_linux_meta_validate_blob :: "ext_lib \<Rightarrow> bytes \<Rightarrow> posix_errno option" where
  "infilfs_linux_meta_validate_blob E blob =
     (if length blob < 32 \<or> length blob > INFILFS_LINUX_META_MAX then Some EFSCORRUPTED
      else if get_bytes 0 8 blob \<noteq> INFILFS_LINUX_META_MAGIC \<or> ld32 E (get_bytes 8 4 blob) \<noteq> 1 \<or>
              ld32 E (get_bytes 28 4 blob) \<noteq> 0 \<or> unat (ld32 E (get_bytes 24 4 blob)) \<noteq> length blob - 32
      then Some EFSCORRUPTED
      else if validate_records E blob 32 then None else Some EFSCORRUPTED)"

text \<open>The offset and size of the first record of a name, and the offset and length of its value.\<close>

function find_record :: "ext_lib \<Rightarrow> bytes \<Rightarrow> bytes \<Rightarrow> nat \<Rightarrow> (nat \<times> nat \<times> nat \<times> nat) option" where
  "find_record E blob name offset =
     (if offset < length blob then
        (let name_length = rec_name_length E blob offset;
             val_length = rec_value_length E blob offset;
             record_size = 8 + name_length + val_length
         in if name_length = length name \<and> get_bytes (offset + 8) (length name) blob = name
            then Some (offset, record_size, offset + 8 + name_length, val_length)
            else find_record E blob name (offset + record_size))
      else None)"
  by pat_completeness auto
termination by (relation "measure (\<lambda>(E, blob, name, offset). length blob - offset)") auto

definition infilfs_linux_meta_find_xattr :: "ext_lib \<Rightarrow> bytes \<Rightarrow> bytes \<Rightarrow> (nat \<times> nat \<times> nat \<times> nat) option" where
  "infilfs_linux_meta_find_xattr E blob name = find_record E blob name 32"

text \<open>\<open>allocated\<close> is the outcome of the allocation of the buffer.\<close>

definition infilfs_linux_xattr_name :: "bool \<Rightarrow> bytes option \<Rightarrow> bytes \<Rightarrow> bytes kernel_result" where
  "infilfs_linux_xattr_name allocated handler_prefix name =
     (case handler_prefix of
        None \<Rightarrow> Inl EINVAL
      | Some p \<Rightarrow>
          (let prefix = length p; suffix = min (length name) (XATTR_NAME_MAX + 1)
           in if suffix = 0 then Inl EINVAL
              else if prefix > XATTR_NAME_MAX \<or> suffix > XATTR_NAME_MAX \<or> suffix > XATTR_NAME_MAX - prefix
              then Inl ERANGE
              else if \<not> allocated then Inl ENOMEM else Inr (p @ name)))"

section \<open>The attribute handlers on a loaded blob\<close>

text \<open>\<open>buffer\<close> is the size of the caller's buffer, or none to ask for the length.\<close>

definition xattr_get_value :: "ext_lib \<Rightarrow> bytes \<Rightarrow> bytes \<Rightarrow> nat option \<Rightarrow> (nat \<times> bytes) kernel_result" where
  "xattr_get_value E blob full buffer =
     (case infilfs_linux_meta_find_xattr E blob full of
        None \<Rightarrow> Inl ENODATA
      | Some (_, _, value_offset, val_length) \<Rightarrow>
          (case buffer of
             None \<Rightarrow> Inr (val_length, [])
           | Some buflen \<Rightarrow>
               if buflen < val_length then Inl ERANGE
               else Inr (val_length, get_bytes value_offset val_length blob)))"

definition store_xattr_bytes :: "ext_lib \<Rightarrow> bytes \<Rightarrow> bytes" where
  "store_xattr_bytes E blob = put_bytes 24 (st32 E (word_of_nat (length blob - 32))) blob"

text \<open>
  The blob the set handler stores, from the size check on: \<open>has_sbi\<close> says whether the superblock has
  its private data, \<open>loaded\<close> is the result of loading the object's blob. No value means removal; a
  value is a buffer of \<open>value_size\<close> bytes.
\<close>

definition xattr_set_blob ::
    "ext_lib \<Rightarrow> bool \<Rightarrow> bool \<Rightarrow> bytes kernel_result \<Rightarrow> bytes \<Rightarrow> bytes option \<Rightarrow> nat \<Rightarrow> bool \<Rightarrow> bool \<Rightarrow>
     bytes kernel_result" where
  "xattr_set_blob E has_sbi allocated loaded full value_opt value_size create_flag replace_flag =
     (if value_size > XATTR_SIZE_MAX \<or> value_size > 0xFFFFFFFF then Inl E2BIG
      else if \<not> has_sbi then Inl EINVAL
      else case loaded of
        Inl ret \<Rightarrow> Inl ret
      | Inr blob \<Rightarrow>
        let found = infilfs_linux_meta_find_xattr E blob full; bsize = length blob
        in case value_opt of
           None \<Rightarrow>
             (case found of
                None \<Rightarrow> Inl ENODATA
              | Some (old_offset, old_size, _) \<Rightarrow>
                  Inr (store_xattr_bytes E (take old_offset blob @
                    get_bytes (old_offset + old_size) (bsize - old_offset - old_size) blob)))
         | Some val \<Rightarrow>
             (if create_flag \<and> found \<noteq> None then Inl EEXIST
              else if replace_flag \<and> found = None then Inl ENODATA
              else
                let old_size = (case found of None \<Rightarrow> 0 | Some (_, s, _) \<Rightarrow> s);
                    name_length = length full;
                    new_record_size = 8 + name_length + value_size
                in if new_record_size > INFILFS_LINUX_META_MAX \<or>
                      bsize - old_size > INFILFS_LINUX_META_MAX - new_record_size then Inl E2BIG
                   else if \<not> allocated then Inl ENOMEM
                   else
                     let kept = (case found of
                           None \<Rightarrow> blob
                         | Some (old_offset, old_size, _) \<Rightarrow> take old_offset blob @
                             get_bytes (old_offset + old_size) (bsize - old_offset - old_size) blob);
                         rec = st16 E (word_of_nat name_length) @ st16 E 0 @ st32 E (word_of_nat value_size)
                     in Inr (store_xattr_bytes E (kept @ rec @ full @ take value_size val))))"

text \<open>Names under \<open>trusted.\<close> are listed for privileged callers only.\<close>

definition name_listed :: "bool \<Rightarrow> bytes \<Rightarrow> bool" where
  "name_listed capable name \<longleftrightarrow>
     length name < length XATTR_TRUSTED_PREFIX \<or> get_bytes 0 (length XATTR_TRUSTED_PREFIX) name \<noteq> XATTR_TRUSTED_PREFIX \<or> capable"

function count_names :: "ext_lib \<Rightarrow> bool \<Rightarrow> bytes \<Rightarrow> nat \<Rightarrow> nat \<Rightarrow> nat" where
  "count_names E capable blob offset needed =
     (if offset < length blob then
        (let name_length = rec_name_length E blob offset;
             val_length = rec_value_length E blob offset;
             needed = (if name_listed capable (get_bytes (offset + 8) name_length blob)
                       then needed + name_length + 1 else needed)
         in count_names E capable blob (offset + (8 + name_length + val_length)) needed)
      else needed)"
  by pat_completeness auto
termination by (relation "measure (\<lambda>(E, capable, blob, offset, needed). length blob - offset)") auto

function copy_names :: "ext_lib \<Rightarrow> bool \<Rightarrow> bytes \<Rightarrow> nat \<Rightarrow> bytes \<Rightarrow> bytes" where
  "copy_names E capable blob offset list =
     (if offset < length blob then
        (let name_length = rec_name_length E blob offset;
             val_length = rec_value_length E blob offset;
             list = (if name_listed capable (get_bytes (offset + 8) name_length blob)
                     then list @ get_bytes (offset + 8) name_length blob @ [0] else list)
         in copy_names E capable blob (offset + (8 + name_length + val_length)) list)
      else list)"
  by pat_completeness auto
termination by (relation "measure (\<lambda>(E, capable, blob, offset, list). length blob - offset)") auto

definition xattr_list_names :: "ext_lib \<Rightarrow> bool \<Rightarrow> bytes \<Rightarrow> nat option \<Rightarrow> (nat \<times> bytes) kernel_result" where
  "xattr_list_names E capable blob buffer =
     (let needed = count_names E capable blob 32 0
      in case buffer of
           None \<Rightarrow> Inr (needed, [])
         | Some buflen \<Rightarrow>
             if buflen < needed then Inl ERANGE
             else let list = copy_names E capable blob 32 [] in Inr (length list, list))"

declare validate_records.simps [simp del] find_record.simps [simp del] count_names.simps [simp del] copy_names.simps [simp del]

section \<open>The list of attributes a blob stands for\<close>

type_synonym xattrs = "(bytes \<times> bytes) list"

definition record_bytes :: "ext_lib \<Rightarrow> bytes \<times> bytes \<Rightarrow> bytes" where
  "record_bytes E r = st16 E (word_of_nat (length (fst r))) @ st16 E 0 @ st32 E (word_of_nat (length (snd r))) @ fst r @ snd r"

definition record_ok :: "bytes \<times> bytes \<Rightarrow> bool" where
  "record_ok r \<longleftrightarrow> fst r \<noteq> [] \<and> length (fst r) \<le> 255 \<and> length (snd r) \<le> 65536 \<and> 0 \<notin> set (fst r)"

definition records_bytes :: "ext_lib \<Rightarrow> xattrs \<Rightarrow> bytes" where
  "records_bytes E rs = concat (map (record_bytes E) rs)"

definition header_ok :: "ext_lib \<Rightarrow> bytes \<Rightarrow> nat \<Rightarrow> bool" where
  "header_ok E h n \<longleftrightarrow> length h = 32 \<and> get_bytes 0 8 h = INFILFS_LINUX_META_MAGIC \<and> ld32 E (get_bytes 8 4 h) = 1 \<and>
     ld32 E (get_bytes 28 4 h) = 0 \<and> unat (ld32 E (get_bytes 24 4 h)) = n"

text \<open>The blob encodes the attributes \<open>rs\<close>.\<close>

definition encodes :: "ext_lib \<Rightarrow> bytes \<Rightarrow> xattrs \<Rightarrow> bool" where
  "encodes E blob rs \<longleftrightarrow> (\<exists>h. header_ok E h (length (records_bytes E rs)) \<and> blob = h @ records_bytes E rs) \<and>
     (\<forall>r\<in>set rs. record_ok r) \<and> length blob \<le> 1048576"

definition without :: "bytes \<Rightarrow> xattrs \<Rightarrow> xattrs" where
  "without name rs = filter (\<lambda>r. fst r \<noteq> name) rs"

definition with_attr :: "bytes \<Rightarrow> bytes option \<Rightarrow> xattrs \<Rightarrow> xattrs" where
  "with_attr name v rs = without name rs @ (case v of None \<Rightarrow> [] | Some val \<Rightarrow> [(name, val)])"

text \<open>When and how setting (a value) or removing (none) an attribute of a valid blob fails.\<close>

definition xattr_set_error ::
    "ext_lib \<Rightarrow> bool \<Rightarrow> bool \<Rightarrow> xattrs \<Rightarrow> bytes \<Rightarrow> bytes option \<Rightarrow> nat \<Rightarrow> bool \<Rightarrow> bool \<Rightarrow> posix_errno option" where
  "xattr_set_error E has_sbi allocated rs name value_opt n create_flag replace_flag =
     (let exists = name \<in> set (map fst rs)
      in if 65536 < n then Some E2BIG
         else if \<not> has_sbi then Some EINVAL
         else case value_opt of
           None \<Rightarrow> if exists then None else Some ENODATA
         | Some val \<Rightarrow>
             if create_flag \<and> exists then Some EEXIST
             else if replace_flag \<and> \<not> exists then Some ENODATA
             else if 1048576 < 32 + length (records_bytes E (without name rs @ [(name, val)])) then Some E2BIG
             else if \<not> allocated then Some ENOMEM else None)"

section \<open>An example blob\<close>

definition example_blob :: bytes where
  "example_blob = infilfs_linux_meta_init le_lib"

section \<open>Records\<close>

lemma records_simps [simp]: "records_bytes E [] = []" "records_bytes E (r # rs) = record_bytes E r @ records_bytes E rs"
  "records_bytes E (rs @ rs') = records_bytes E rs @ records_bytes E rs'"
  by (simp_all add: records_bytes_def)

lemma length_record:
  "ext_ok E \<Longrightarrow> length (record_bytes E r) = 8 + length (fst r) + length (snd r)"
  by (simp add: record_bytes_def ext_laws)

lemma record_lengths:
  assumes "record_ok r"
  shows "unat (word_of_nat (length (fst r)) :: u16) = length (fst r)" "unat (word_of_nat (length (snd r)) :: u32) = length (snd r)"
  using assms by (simp_all add: record_ok_def unat_of_nat)

lemma record_at:
  assumes "ext_ok E" "record_ok r" "blob = p @ record_bytes E r @ q"
  shows "rec_name_length E blob (length p) = length (fst r)" "rec_value_length E blob (length p) = length (snd r)"
    "ld16 E (get_bytes (length p + 2) 2 blob) = 0" "get_bytes (length p + 8) (length (fst r)) blob = fst r"
    "get_bytes (length p + 8 + length (fst r)) (length (snd r)) blob = snd r"
proof -
  note l = ext_laws [OF assms(1)]
  have "get_bytes (length p) 2 blob = st16 E (word_of_nat (length (fst r)))"
    "get_bytes (length p + 2) 2 blob = st16 E 0"
    "get_bytes (length p + 4) 4 blob = st32 E (word_of_nat (length (snd r)))"
    by (simp_all add: assms(3) record_bytes_def get_bytes_def l)
  then show "rec_name_length E blob (length p) = length (fst r)" "rec_value_length E blob (length p) = length (snd r)"
    "ld16 E (get_bytes (length p + 2) 2 blob) = 0"
    using record_lengths [OF assms(2)] by (simp_all add: rec_name_length_def rec_value_length_def l)
  show "get_bytes (length p + 8) (length (fst r)) blob = fst r"
    "get_bytes (length p + 8 + length (fst r)) (length (snd r)) blob = snd r"
    by (simp_all add: assms(3) record_bytes_def get_bytes_def l)
qed

lemma find_record_list:
  assumes "ext_ok E" "\<forall>r\<in>set rs. record_ok r" "blob = p @ records_bytes E rs"
  shows "name \<notin> fst ` set rs \<and> find_record E blob name (length p) = None \<or>
    (\<exists>pre v post. rs = pre @ (name, v) # post \<and> name \<notin> fst ` set pre \<and>
       find_record E blob name (length p) = Some (length p + length (records_bytes E pre), 8 + length name + length v,
         length p + length (records_bytes E pre) + 8 + length name, length v))"
  using assms(2,3)
proof (induction rs arbitrary: p)
  case Nil
  then show ?case by (simp add: find_record.simps)
next
  case (Cons r rs)
  obtain n v where r: "r = (n, v)" by (cases r)
  have ok: "record_ok (n, v)" using Cons.prems(1) r by simp
  have b: "blob = p @ record_bytes E (n, v) @ records_bytes E rs" using Cons.prems(2) r by simp
  note at = record_at [OF assms(1) ok b, simplified]
  have lt: "length p < length blob" using b by (simp add: length_record [OF assms(1)])
  have b': "blob = (p @ record_bytes E (n, v)) @ records_bytes E rs" using b by simp
  have step: "find_record E blob name (length p) =
      (if n = name then Some (length p, 8 + length n + length v, length p + 8 + length n, length v)
       else find_record E blob name (length (p @ record_bytes E (n, v))))"
    using at lt by (subst find_record.simps) (auto simp: Let_def length_record [OF assms(1)] add.assoc)
  show ?case
  proof (cases "n = name")
    case True
    then show ?thesis using step r by (intro disjI2 exI [of _ "[]"] exI [of _ v] exI [of _ rs]) simp
  next
    case False
    from Cons.IH [OF _ b'] Cons.prems(1)
    consider "name \<notin> fst ` set rs" "find_record E blob name (length (p @ record_bytes E (n, v))) = None"
      | pre w post where "rs = pre @ (name, w) # post" "name \<notin> fst ` set pre"
        "find_record E blob name (length (p @ record_bytes E (n, v))) =
          Some (length (p @ record_bytes E (n, v)) + length (records_bytes E pre), 8 + length name + length w,
            length (p @ record_bytes E (n, v)) + length (records_bytes E pre) + 8 + length name, length w)"
      by auto
    then show ?thesis
    proof cases
      case 1 then show ?thesis using step False r by auto
    next
      case 2
      then show ?thesis using step False r by (intro disjI2 exI [of _ "r # pre"] exI [of _ w] exI [of _ post]) simp
    qed
  qed
qed

lemma validate_records_complete:
  assumes "ext_ok E" "\<forall>r\<in>set rs. record_ok r" "blob = p @ records_bytes E rs"
  shows "validate_records E blob (length p)"
  using assms(2,3)
proof (induction rs arbitrary: p)
  case Nil
  then show ?case by (simp add: validate_records.simps)
next
  case (Cons r rs)
  have ok: "record_ok r" using Cons.prems(1) by simp
  have b: "blob = p @ record_bytes E r @ records_bytes E rs" using Cons.prems(2) by simp
  note at = record_at [OF assms(1) ok b]
  have len: "length blob = length p + (8 + length (fst r) + length (snd r)) + length (records_bytes E rs)"
    using b by (simp add: length_record [OF assms(1)])
  have "validate_records E blob (length (p @ record_bytes E r))" by (rule Cons.IH) (use Cons.prems in auto)
  then show ?case
    using at len ok by (subst validate_records.simps) (simp add: Let_def length_record [OF assms(1)] record_ok_def add.assoc)
qed

lemma validate_records_sound:
  assumes "ext_ok E" "validate_records E blob off" "off \<le> length blob"
  shows "\<exists>rs. (\<forall>r\<in>set rs. record_ok r) \<and> drop off blob = records_bytes E rs"
  using assms(2,3)
proof (induction "length blob - off" arbitrary: off rule: less_induct)
  case less
  show ?case
  proof (cases "off < length blob")
    case False
    then show ?thesis using less.prems by (intro exI [of _ "[]"]) simp
  next
    case True
    let ?n = "rec_name_length E blob off" and ?v = "rec_value_length E blob off"
    have c: "8 \<le> length blob - off" "ld16 E (get_bytes (off + 2) 2 blob) = 0" "?n \<noteq> 0" "?n \<le> 255" "?v \<le> 65536"
      "0 \<notin> set (get_bytes (off + 8) ?n blob)" "off + (8 + ?n + ?v) \<le> length blob" "validate_records E blob (off + (8 + ?n + ?v))"
      using less.prems(1) True by (subst (asm) validate_records.simps; auto simp: Let_def split: if_splits)+
    define r where "r = (get_bytes (off + 8) ?n blob, get_bytes (off + 8 + ?n) ?v blob)"
    have l: "length (fst r) = ?n" "length (snd r) = ?v" using c(7) by (simp_all add: r_def get_bytes_def)
    have h: "get_bytes off 2 blob = st16 E (word_of_nat ?n)" "get_bytes (off + 2) 2 blob = st16 E 0"
      "get_bytes (off + 4) 4 blob = st32 E (word_of_nat ?v)"
      using c(1,2) ext_laws(7) [OF assms(1), of "get_bytes off 2 blob"] ext_laws(7) [OF assms(1), of "get_bytes (off + 2) 2 blob"]
        ext_laws(8) [OF assms(1), of "get_bytes (off + 4) 4 blob"]
      by (simp_all add: rec_name_length_def rec_value_length_def get_bytes_def)
    have cut: "m = k + n \<Longrightarrow> drop k blob = get_bytes k n blob @ drop m blob" for k n m
      by (simp add: get_bytes_def) (metis add.commute append_take_drop_id drop_drop)
    have d: "drop off blob = get_bytes off 2 blob @ drop (off + 2) blob"
      "drop (off + 2) blob = get_bytes (off + 2) 2 blob @ drop (off + 4) blob"
      "drop (off + 4) blob = get_bytes (off + 4) 4 blob @ drop (off + 8) blob"
      "drop (off + 8) blob = fst r @ drop (off + 8 + ?n) blob"
      "drop (off + 8 + ?n) blob = snd r @ drop (off + (8 + ?n + ?v)) blob"
      unfolding r_def fst_conv snd_conv by (rule cut, simp)+
    have "drop off blob = record_bytes E r @ drop (off + (8 + ?n + ?v)) blob"
      unfolding record_bytes_def l append_assoc h [symmetric] d(5) [symmetric] d(4) [symmetric] d(3) [symmetric]
        d(2) [symmetric] by (rule d(1))
    moreover obtain rs where "\<forall>r\<in>set rs. record_ok r" "drop (off + (8 + ?n + ?v)) blob = records_bytes E rs"
      using less.hyps [OF _ c(8,7)] True by (auto simp: diff_less_mono2)
    moreover have "fst r \<noteq> []" using l(1) c(3) by auto
    moreover have "0 \<notin> set (fst r)" using c(6) by (simp add: r_def)
    moreover have "record_ok r" using calculation(4,5) c(4,5) l by (simp add: record_ok_def)
    ultimately show ?thesis by (intro exI [of _ "r # rs"]) simp
  qed
qed


section \<open>Blobs\<close>

lemma encodesD:
  assumes "encodes E blob rs"
  obtains h where "header_ok E h (length (records_bytes E rs))" "blob = h @ records_bytes E rs" "length h = 32"
    "\<forall>r\<in>set rs. record_ok r" "length blob \<le> 1048576"
  using assms by (auto simp: encodes_def header_ok_def)

lemma validate_iff:
  assumes "ext_ok E"
  shows "infilfs_linux_meta_validate_blob E blob = None \<longleftrightarrow> (\<exists>rs. encodes E blob rs)"
proof
  assume v: "infilfs_linux_meta_validate_blob E blob = None"
  then have c: "32 \<le> length blob" "length blob \<le> 1048576" "validate_records E blob 32"
    "header_ok E (take 32 blob) (length blob - 32)"
    by (auto simp: infilfs_linux_meta_validate_blob_def header_ok_def get_bytes_def min_def drop_take split: if_splits)
  obtain rs where "\<forall>r\<in>set rs. record_ok r" "drop 32 blob = records_bytes E rs"
    using validate_records_sound [OF assms c(3,1)] by blast
  then show "\<exists>rs. encodes E blob rs"
    using c(2,4) append_take_drop_id [of 32 blob]
    by (auto simp: encodes_def intro!: exI [of _ rs] exI [of _ "take 32 blob"]) (metis length_drop)
next
  assume "\<exists>rs. encodes E blob rs"
  then obtain rs h where h: "header_ok E h (length (records_bytes E rs))" "blob = h @ records_bytes E rs" "length h = 32"
    "\<forall>r\<in>set rs. record_ok r" "length blob \<le> 1048576" by (auto elim: encodesD)
  have "validate_records E blob 32" using validate_records_complete [OF assms h(4,2)] h(3) by simp
  then show "infilfs_linux_meta_validate_blob E blob = None"
    using h(1,3,5) by (simp add: infilfs_linux_meta_validate_blob_def header_ok_def h(2) get_bytes_def)
qed

lemma find_xattr_cases:
  assumes "ext_ok E" "encodes E blob rs"
  obtains (absent) "name \<notin> fst ` set rs" "infilfs_linux_meta_find_xattr E blob name = None"
    | (present) h pre v post where "rs = pre @ (name, v) # post" "name \<notin> fst ` set pre"
      "header_ok E h (length (records_bytes E rs))" "blob = (h @ records_bytes E pre) @ record_bytes E (name, v) @ records_bytes E post"
      "length h = 32" "record_ok (name, v)"
      "infilfs_linux_meta_find_xattr E blob name = Some (length (h @ records_bytes E pre), 8 + length name + length v,
         length (h @ records_bytes E pre) + 8 + length name, length v)"
proof -
  obtain h where h: "header_ok E h (length (records_bytes E rs))" "blob = h @ records_bytes E rs" "length h = 32"
    "\<forall>r\<in>set rs. record_ok r" "length blob \<le> 1048576" by (rule encodesD [OF assms(2)])
  from find_record_list [OF assms(1) h(4,2), of name, unfolded h(3)] show ?thesis
  proof (elim disjE exE conjE)
    assume "name \<notin> fst ` set rs" "find_record E blob name 32 = None"
    then show ?thesis by (intro absent) (simp_all add: infilfs_linux_meta_find_xattr_def)
  next
    fix pre v post
    assume "rs = pre @ (name, v) # post" "name \<notin> fst ` set pre"
      "find_record E blob name 32 = Some (32 + length (records_bytes E pre), 8 + length name + length v,
         32 + length (records_bytes E pre) + 8 + length name, length v)"
    then show ?thesis
      using h by (intro present [of pre v post h]) (simp_all add: infilfs_linux_meta_find_xattr_def)
  qed
qed

lemma get_value_eq:
  assumes "ext_ok E" "encodes E blob rs"
  shows "xattr_get_value E blob name buffer =
    (case map_of rs name of
       None \<Rightarrow> Inl ENODATA
     | Some v \<Rightarrow> (case buffer of
         None \<Rightarrow> Inr (length v, [])
       | Some n \<Rightarrow> if n < length v then Inl ERANGE else Inr (length v, v)))"
proof (cases rule: find_xattr_cases [OF assms, of name])
  case 1
  then have "map_of rs name = None" by (simp add: map_of_eq_None_iff)
  then show ?thesis using 1(2) by (simp add: xattr_get_value_def)
next
  case (2 h pre v post)
  have "map_of pre name = None" using 2(2) by (simp add: map_of_eq_None_iff)
  then have "map_of rs name = Some v" by (simp add: 2(1) map_add_def)
  then show ?thesis
    using record_at(5) [OF assms(1) 2(6,4)] 2(7) by (simp add: xattr_get_value_def split: option.splits)
qed

lemma store_encodes:
  assumes "ext_ok E" "header_ok E h n" "\<forall>r\<in>set rs. record_ok r" "32 + length (records_bytes E rs) \<le> 1048576"
  shows "encodes E (store_xattr_bytes E (h @ records_bytes E rs)) rs"
proof -
  let ?x = "st32 E (word_of_nat (length (records_bytes E rs)))"
  let ?h = "put_bytes 24 ?x h"
  have l: "length h = 32" using assms(2) by (simp add: header_ok_def)
  have x: "length ?x = 4" by (simp add: ext_laws [OF assms(1)])
  have "store_xattr_bytes E (h @ records_bytes E rs) = ?h @ records_bytes E rs"
    using l x by (simp add: store_xattr_bytes_def put_bytes_def)
  moreover have "length ?h = 32" using l x by simp
  moreover have "header_ok E ?h (length (records_bytes E rs))"
    using assms(2,4) l x by (simp add: header_ok_def buffer_simps ext_laws [OF assms(1)] unat_of_nat)
  ultimately show ?thesis using assms(3,4) by (auto simp: encodes_def)
qed


lemma kept_records:
  assumes "ext_ok E" "blob = p @ record_bytes E (n, v) @ q"
  shows "take (length p) blob @ get_bytes (length p + (8 + length n + length v)) (length blob - length p - (8 + length n + length v)) blob = p @ q"
  using assms(2) length_record [OF assms(1), of "(n, v)"] by (simp add: get_bytes_def)

lemma without_split:
  assumes "distinct (map fst (pre @ (name, v) # post))"
  shows "without name (pre @ (name, v) # post) = pre @ post"
proof -
  have "filter (\<lambda>r. fst r \<noteq> name) pre = pre" "filter (\<lambda>r. fst r \<noteq> name) post = post"
    using assms by (auto intro!: filter_True)
  then show ?thesis by (simp add: without_def)
qed

lemma without_absent: "name \<notin> fst ` set rs \<Longrightarrow> without name rs = rs"
  by (auto simp: without_def intro!: filter_True)

text \<open>What the blob is before the new record is appended.\<close>

lemma kept_cases:
  assumes "ext_ok E" "encodes E blob rs" "distinct (map fst rs)"
  obtains h where "header_ok E h (length (records_bytes E rs))" "length h = 32"
    "(case infilfs_linux_meta_find_xattr E blob name of
        None \<Rightarrow> blob
      | Some (off, n, _) \<Rightarrow> take off blob @ get_bytes (off + n) (length blob - off - n) blob) = h @ records_bytes E (without name rs)"
    "length blob - (case infilfs_linux_meta_find_xattr E blob name of None \<Rightarrow> 0 | Some (_, n, _) \<Rightarrow> n) =
       32 + length (records_bytes E (without name rs))"
    "infilfs_linux_meta_find_xattr E blob name = None \<longleftrightarrow> name \<notin> fst ` set rs"
    "\<forall>r\<in>set rs. record_ok r" "length blob \<le> 1048576"
proof -
  obtain h0 where h0: "header_ok E h0 (length (records_bytes E rs))" "blob = h0 @ records_bytes E rs" "length h0 = 32"
    "\<forall>r\<in>set rs. record_ok r" "length blob \<le> 1048576" by (rule encodesD [OF assms(2)])
  show ?thesis
  proof (cases rule: find_xattr_cases [OF assms(1,2), of name])
    case 1
    then show ?thesis using that [of h0] h0 by (simp add: without_absent)
  next
    case (2 h pre v post)
    have w: "without name rs = pre @ post" using without_split assms(3) unfolding 2(1) by blast
    note k = kept_records [OF assms(1) 2(4)]
    show ?thesis
    proof (rule that [OF 2(3,5)])
      show "(case infilfs_linux_meta_find_xattr E blob name of None \<Rightarrow> blob
        | Some (off, n, _) \<Rightarrow> take off blob @ get_bytes (off + n) (length blob - off - n) blob) = h @ records_bytes E (without name rs)"
        unfolding 2(7) w using k by simp
      show "length blob - (case infilfs_linux_meta_find_xattr E blob name of None \<Rightarrow> 0 | Some (_, n, _) \<Rightarrow> n) =
          32 + length (records_bytes E (without name rs))"
        unfolding 2(7) w using 2(4,5) length_record [OF assms(1), of "(name, v)"] by simp
      show "infilfs_linux_meta_find_xattr E blob name = None \<longleftrightarrow> name \<notin> fst ` set rs"
        using 2(1,7) by simp
    qed (rule h0(4), rule h0(5))
  qed
qed


lemma remove_blob:
  assumes "ext_ok E" "encodes E blob rs" "distinct (map fst rs)"
    and "n \<le> 65536"
  shows "if name \<in> fst ` set rs
    then \<exists>blob'. xattr_set_blob E True a (Inr blob) name None n c r = Inr blob' \<and> encodes E blob' (without name rs)
    else xattr_set_blob E True a (Inr blob) name None n c r = Inl ENODATA"
proof -
  obtain h where h: "header_ok E h (length (records_bytes E rs))" "length h = 32"
    "(case infilfs_linux_meta_find_xattr E blob name of
        None \<Rightarrow> blob
      | Some (off, n, _) \<Rightarrow> take off blob @ get_bytes (off + n) (length blob - off - n) blob) = h @ records_bytes E (without name rs)"
    "length blob - (case infilfs_linux_meta_find_xattr E blob name of None \<Rightarrow> 0 | Some (_, n, _) \<Rightarrow> n) =
       32 + length (records_bytes E (without name rs))"
    "infilfs_linux_meta_find_xattr E blob name = None \<longleftrightarrow> name \<notin> fst ` set rs"
    "\<forall>r\<in>set rs. record_ok r" "length blob \<le> 1048576"
    by (rule kept_cases [OF assms(1-3), of name])
  have "encodes E (store_xattr_bytes E (h @ records_bytes E (without name rs))) (without name rs)"
    using h(4,6,7) by (intro store_encodes [OF assms(1) h(1)]) (auto simp: without_def)
  then show ?thesis
    using h(3,5) assms(4) by (cases "infilfs_linux_meta_find_xattr E blob name") (auto simp: xattr_set_blob_def Let_def)
qed

lemma set_blob:
  assumes "ext_ok E" "encodes E blob rs" "distinct (map fst rs)" "name \<noteq> []" "length name \<le> 255" "0 \<notin> set name"
    and "length val \<le> 65536"
  shows "if c \<and> name \<in> fst ` set rs then xattr_set_blob E True a (Inr blob) name (Some val) (length val) c r = Inl EEXIST
    else if r \<and> name \<notin> fst ` set rs then xattr_set_blob E True a (Inr blob) name (Some val) (length val) c r = Inl ENODATA
    else if 1048576 < 32 + length (records_bytes E (without name rs @ [(name, val)]))
    then xattr_set_blob E True a (Inr blob) name (Some val) (length val) c r = Inl E2BIG
    else if \<not> a then xattr_set_blob E True a (Inr blob) name (Some val) (length val) c r = Inl ENOMEM
    else \<exists>blob'. xattr_set_blob E True a (Inr blob) name (Some val) (length val) c r = Inr blob' \<and>
      encodes E blob' (without name rs @ [(name, val)])"
proof -
  obtain h where h: "header_ok E h (length (records_bytes E rs))" "length h = 32"
    "(case infilfs_linux_meta_find_xattr E blob name of
        None \<Rightarrow> blob
      | Some (off, n, _) \<Rightarrow> take off blob @ get_bytes (off + n) (length blob - off - n) blob) = h @ records_bytes E (without name rs)"
    "length blob - (case infilfs_linux_meta_find_xattr E blob name of None \<Rightarrow> 0 | Some (_, n, _) \<Rightarrow> n) =
       32 + length (records_bytes E (without name rs))"
    "infilfs_linux_meta_find_xattr E blob name = None \<longleftrightarrow> name \<notin> fst ` set rs"
    "\<forall>r\<in>set rs. record_ok r" "length blob \<le> 1048576"
    by (rule kept_cases [OF assms(1-3), of name])
  let ?rs = "without name rs @ [(name, val)]"
  let ?big = "8 + length name + length val > 1048576 \<or>
    32 + length (records_bytes E (without name rs)) > 1048576 - (8 + length name + length val)"
  have len: "length (records_bytes E ?rs) = length (records_bytes E (without name rs)) + (8 + length name + length val)"
    by (simp add: length_record [OF assms(1)])
  have eq: "xattr_set_blob E True a (Inr blob) name (Some val) (length val) c r =
      (if c \<and> name \<in> fst ` set rs then Inl EEXIST
       else if r \<and> name \<notin> fst ` set rs then Inl ENODATA
       else if ?big then Inl E2BIG
       else if \<not> a then Inl ENOMEM
       else Inr (store_xattr_bytes E (h @ records_bytes E ?rs)))"
    using h(5) assms(7) unfolding xattr_set_blob_def Let_def sum.case h(3,4) by (simp add: record_bytes_def)
  have "encodes E (store_xattr_bytes E (h @ records_bytes E ?rs)) ?rs" if "\<not> ?big"
    using h(6) that len assms(4-7) by (intro store_encodes [OF assms(1) h(1)]) (auto simp: without_def record_ok_def)
  moreover have "?big \<longleftrightarrow> 1048576 < 32 + length (records_bytes E ?rs)" using len by auto
  ultimately show ?thesis unfolding eq by (auto split: if_splits)
qed

lemma names_list:
  assumes "ext_ok E" "\<forall>r\<in>set rs. record_ok r" "blob = p @ records_bytes E rs"
  shows "copy_names E cap blob (length p) acc = acc @ concat (map (\<lambda>r. fst r @ [0]) (filter (\<lambda>r. name_listed cap (fst r)) rs))"
    "count_names E cap blob (length p) n = n + length (concat (map (\<lambda>r. fst r @ [0 :: byte]) (filter (\<lambda>r. name_listed cap (fst r)) rs)))"
  using assms(2,3)
proof (induction rs arbitrary: p acc n)
  case Nil
  { case 1 then show ?case by (simp add: copy_names.simps) }
  { case 2 then show ?case by (simp add: count_names.simps) }
next
  case (Cons r rs)
  have step: "copy_names E cap blob (length p) acc = copy_names E cap blob (length (p @ record_bytes E r))
        (if name_listed cap (fst r) then acc @ fst r @ [0] else acc)"
    "count_names E cap blob (length p) n = count_names E cap blob (length (p @ record_bytes E r))
        (if name_listed cap (fst r) then n + length (fst r) + 1 else n)"
    if "record_ok r" "blob = p @ record_bytes E r @ records_bytes E rs" for p acc n
    using record_at [OF assms(1) that] that(2)
    by (subst copy_names.simps count_names.simps; simp add: Let_def length_record [OF assms(1)] add.assoc)+
  { case (1 p acc)
    then have b: "record_ok r" "blob = p @ record_bytes E r @ records_bytes E rs" by simp_all
    then show ?case using step(1) [OF b, of acc] Cons.IH(1) [of "p @ record_bytes E r"] 1 by simp }
  { case (2 p n)
    then have b: "record_ok r" "blob = p @ record_bytes E r @ records_bytes E rs" by simp_all
    then show ?case using step(2) [OF b, of n] Cons.IH(2) [of "p @ record_bytes E r"] 2 by simp }
qed


lemma example_blob_encodes: "encodes le_lib example_blob []"
proof -
  have "length INFILFS_LINUX_META_MAGIC = 8" by (simp add: INFILFS_LINUX_META_MAGIC_def ascii_def)
  then show ?thesis
    by (simp add: encodes_def header_ok_def example_blob_def infilfs_linux_meta_init_def buffer_simps ext_laws [OF ext_ok_le_lib])
      (simp add: le_lib_def le_word_zeros)
qed

lemma map_of_without: "map_of (without name rs) other = (if other = name then None else map_of rs other)"
  by (induction rs) (auto simp: without_def)

lemma map_of_with_attr: "map_of (with_attr name v rs) other = (if other = name then v else map_of rs other)"
  using map_of_without [of name rs other] by (cases v) (auto simp: with_attr_def map_add_def split: option.splits)

lemma distinct_with_attr: "distinct (map fst rs) \<Longrightarrow> distinct (map fst (with_attr name v rs))"
  by (cases v) (auto simp: with_attr_def without_def distinct_map_filter)

lemma set_outcome:
  assumes "ext_ok E" "encodes E blob rs" "distinct (map fst rs)" "name \<noteq> []" "length name \<le> 255" "0 \<notin> set name"
    and "\<And>val. value_opt = Some val \<Longrightarrow> length val = n" "n \<le> 65536"
  shows "case xattr_set_error E True a rs name value_opt n c r of
      Some e \<Rightarrow> xattr_set_blob E True a (Inr blob) name value_opt n c r = Inl e
    | None \<Rightarrow> \<exists>blob'. xattr_set_blob E True a (Inr blob) name value_opt n c r = Inr blob' \<and>
        encodes E blob' (with_attr name value_opt rs)"
proof (cases value_opt)
  case None
  then show ?thesis
    using remove_blob [OF assms(1-3,8), where name = name and a = a and c = c and r = r] assms(8)
    by (auto simp: xattr_set_error_def with_attr_def split: if_splits)
next
  case (Some val)
  then have "n = length val" using assms(7) by simp
  then show ?thesis
    using set_blob [OF assms(1-6), where a = a and val = val and c = c and r = r] assms(8) Some
    by (auto simp: xattr_set_error_def with_attr_def split: if_splits)
qed

lemma updated_attributes:
  assumes "ext_ok E" "encodes E blob rs" "distinct (map fst rs)" "encodes E b (with_attr name v rs)"
  shows "\<exists>rs'. encodes E b rs' \<and> distinct (map fst rs') \<and>
      (\<forall>other. map_of rs' other = (if other = name then v else map_of rs other)) \<and>
      (\<forall>other k. other \<noteq> name \<longrightarrow> xattr_get_value E b other k = xattr_get_value E blob other k)"
proof (intro exI [of _ "with_attr name v rs"] conjI allI impI)
  show "map_of (with_attr name v rs) other = (if other = name then v else map_of rs other)" for other
    by (rule map_of_with_attr)
  show "xattr_get_value E b other k = xattr_get_value E blob other k" if "other \<noteq> name" for other k
    using that by (simp add: get_value_eq [OF assms(1,4)] get_value_eq [OF assms(1,2)] map_of_with_attr)
qed (rule assms(4), rule distinct_with_attr [OF assms(3)])

section \<open>Properties\<close>

text \<open>C35: Blob validation is a type check: a blob is accepted exactly when it is a header followed by
  the encodings of a list of well-formed attributes that fills it, within the size limit; every other
  blob is reported as corrupt.\<close>

theorem meta_blob_valid_iff:
  assumes "ext_ok E"
  shows "infilfs_linux_meta_validate_blob E blob =
    (if \<exists>rs. encodes E blob rs then None else Some EFSCORRUPTED)"
  using validate_iff [OF assms, of blob] by (auto simp: infilfs_linux_meta_validate_blob_def split: if_splits)

theorem meta_blob_valid_iff_witness:
  "infilfs_linux_meta_validate_blob le_lib example_blob = None"
  using meta_blob_valid_iff [OF ext_ok_le_lib, of example_blob] example_blob_encodes by auto

text \<open>C36: On a loaded valid blob with distinct names, the outcome of setting or removing an attribute
  is exact. An oversized value is refused first, then a mount without private data, then a blob
  that cannot be loaded. Removal succeeds exactly when the attribute exists. Setting fails
  exactly when the create flag meets an existing name, the replace flag meets a missing one,
  the new blob would exceed the size limit, or the allocation fails, in that order. On success
  the stored blob is valid, its names are still distinct, the attribute has the new value or is
  gone, and every other attribute reads as before.\<close>

theorem xattr_set_get:
  assumes "ext_ok E" "encodes E blob rs" "distinct (map fst rs)" "name \<noteq> []" "length name \<le> 255" "0 \<notin> set name"
    and "\<And>val. value_opt = Some val \<Longrightarrow> length val = n"
  shows "(case xattr_set_error E has_sbi allocated rs name value_opt n create_flag replace_flag of
      Some e \<Rightarrow> xattr_set_blob E has_sbi allocated (Inr blob) name value_opt n create_flag replace_flag = Inl e
    | None \<Rightarrow> \<exists>blob' rs'. xattr_set_blob E has_sbi allocated (Inr blob) name value_opt n create_flag replace_flag = Inr blob' \<and>
        encodes E blob' rs' \<and> distinct (map fst rs') \<and>
        (\<forall>other. map_of rs' other = (if other = name then value_opt else map_of rs other)) \<and>
        (\<forall>other k. other \<noteq> name \<longrightarrow> xattr_get_value E blob' other k = xattr_get_value E blob other k)) \<and>
    xattr_set_blob E has_sbi allocated (Inl e) name value_opt n create_flag replace_flag =
      Inl (if 65536 < n then E2BIG else if has_sbi then e else EINVAL)"
proof (cases "n \<le> 65536 \<and> has_sbi")
  case False
  then show ?thesis by (auto simp: xattr_set_blob_def xattr_set_error_def)
next
  case True
  then have n: "n \<le> 65536" and hs: "has_sbi = True" by simp_all
  have err: "xattr_set_blob E True allocated (Inl e) name value_opt n create_flag replace_flag =
      Inl (if 65536 < n then E2BIG else if True then e else EINVAL)"
    using n by (simp add: xattr_set_blob_def)
  note out = set_outcome [where value_opt = value_opt and a = allocated and c = create_flag and r = replace_flag, OF assms n]
  show ?thesis
    unfolding hs
  proof (rule conjI [OF _ err], cases "xattr_set_error E True allocated rs name value_opt n create_flag replace_flag")
    case None
    then show "case xattr_set_error E True allocated rs name value_opt n create_flag replace_flag of
      Some e \<Rightarrow> xattr_set_blob E True allocated (Inr blob) name value_opt n create_flag replace_flag = Inl e
    | None \<Rightarrow> \<exists>blob' rs'. xattr_set_blob E True allocated (Inr blob) name value_opt n create_flag replace_flag = Inr blob' \<and>
        encodes E blob' rs' \<and> distinct (map fst rs') \<and>
        (\<forall>other. map_of rs' other = (if other = name then value_opt else map_of rs other)) \<and>
        (\<forall>other k. other \<noteq> name \<longrightarrow> xattr_get_value E blob' other k = xattr_get_value E blob other k)"
    proof -
      obtain b where b: "xattr_set_blob E True allocated (Inr blob) name value_opt n create_flag replace_flag = Inr b"
        "encodes E b (with_attr name value_opt rs)" using out None by auto
      then show ?thesis
        unfolding None option.case b(1) using updated_attributes [OF assms(1-3) b(2)] by (intro exI [of _ b]) simp
    qed
  qed (use out in simp)
qed

theorem xattr_set_get_witness:
  "\<exists>blob' rs'. xattr_set_blob le_lib True True (Inr example_blob) [0x61] (Some [1, 2]) 2 True False = Inr blob' \<and>
     encodes le_lib blob' rs' \<and> map_of rs' [0x61] = Some [1, 2]"
proof -
  have p: "distinct (map fst ([] :: xattrs))" "[0x61] \<noteq> ([] :: bytes)" "length [0x61 :: byte] \<le> 255"
    "0 \<notin> set [0x61 :: byte]" "\<And>val. Some [1, 2 :: byte] = Some val \<Longrightarrow> length val = 2" by auto
  have e: "xattr_set_error le_lib True True [] [0x61] (Some [1, 2]) 2 True False = None"
    by (simp add: xattr_set_error_def without_def length_record)
  from xattr_set_get [OF ext_ok_le_lib example_blob_encodes p(1-4) p(5),
      where value_opt = "Some [1, 2]" and has_sbi = True and allocated = True and create_flag = True
        and replace_flag = False, THEN conjunct1]
  obtain blob' rs' where "xattr_set_blob le_lib True True (Inr example_blob) [0x61] (Some [1, 2]) 2 True False = Inr blob'"
    "encodes le_lib blob' rs'"
    and m: "\<forall>other. map_of rs' other = (if other = [0x61] then Some [1, 2] else map_of [] other)"
    unfolding e option.case by blast
  moreover have "map_of rs' [0x61] = Some [1, 2]" using m by (simp only: refl if_True)
  ultimately show ?thesis by blast
qed

text \<open>C37: Reading an attribute of a valid blob returns the value of its first record: the length alone
  without a buffer, the value when the buffer is large enough, and otherwise a range error; a name without a
  record is reported as missing.\<close>

theorem xattr_get_exact:
  assumes "ext_ok E" "encodes E blob rs"
  shows "xattr_get_value E blob name buffer =
    (case map_of rs name of
       None \<Rightarrow> Inl ENODATA
     | Some v \<Rightarrow> (case buffer of
         None \<Rightarrow> Inr (length v, [])
       | Some n \<Rightarrow> if n < length v then Inl ERANGE else Inr (length v, v)))"
  by (rule get_value_eq [OF assms])

theorem xattr_get_exact_witness:
  "xattr_get_value le_lib example_blob [0x61] (Some 10) = Inl ENODATA"
  using xattr_get_exact [OF ext_ok_le_lib example_blob_encodes, of "[0x61]" "Some 10"] by simp

text \<open>C38: Listing reports the NUL-terminated names of all records in order, without the trusted ones
  for unprivileged callers; the first pass computes exactly the length the second pass fills, so the
  buffer never overflows.\<close>

theorem xattr_list_exact:
  assumes "ext_ok E" "encodes E blob rs"
  shows "xattr_list_names E privileged blob buffer =
    (let names = concat (map (\<lambda>r. fst r @ [0]) (filter (\<lambda>r. name_listed privileged (fst r)) rs))
     in case buffer of
          None \<Rightarrow> Inr (length names, [])
        | Some n \<Rightarrow> if n < length names then Inl ERANGE else Inr (length names, names))"
proof -
  obtain h where h: "blob = h @ records_bytes E rs" "length h = 32" "\<forall>r\<in>set rs. record_ok r"
    by (rule encodesD [OF assms(2)])
  then show ?thesis
    using names_list [OF assms(1) h(3,1), of privileged] by (simp add: xattr_list_names_def Let_def split: option.splits)
qed

theorem xattr_list_exact_witness:
  "xattr_list_names le_lib True example_blob (Some 0) = Inr (0, [])"
  using xattr_list_exact [OF ext_ok_le_lib example_blob_encodes, of True "Some 0"] by simp

end
