(* ===== verification/Spec2Isabelle.thy ===== *)
theory Spec2Isabelle
  imports Mirror Checkpoint Iac1 Namespace Linux_Meta
begin

text \<open>
  InfiltratorFS is a copy-on-write file system written in C: a portable core (\<open>src/src\<close>,
  \<open>src/include/infilfs\<close>), a native Linux module (\<open>src/kernel\<close>), and tools and drivers around them.
  Every metadata block carries a checksum, the root of the volume is a superblock kept in three
  checkpoint copies, and two fixed recovery locators repeat the volume geometry so that the
  checkpoints can be found again. This development models the parts below as HOL functions over
  byte lists and machine words, and proves what each of them promises.

  \<^bold>\<open>Conventions.\<close> A C buffer is a list of bytes (\<open>Prelude\<close>: \<open>get_bytes\<close>, \<open>put_bytes\<close>, \<open>zeros\<close>); a packed
  structure is a record with a byte codec. Integers are machine words at their width; sizes of
  in-memory buffers are natural numbers. A function that reports a status or an errno returns a sum
  (\<open>Inl\<close> the error), stateful code takes and returns its state. Pointers are non-null unless an
  option type says otherwise. Code that is not part of the repository (the byte-order and UTF-8
  helpers of the infiltratr-common submodule, the digest libraries the accelerated SHA-256 path may
  call, system calls, Linux hash primitives) is a record of functions passed to the definitions (\<open>ext_lib\<close>, \<open>posix_os\<close>,
  \<open>dcache_hash\<close>), with what the code relies on as named hypotheses (\<open>ext_ok\<close>, \<open>ext_le\<close>, the locale
  \<open>posix_host\<close>), each shown satisfiable by a concrete instance (\<open>le_lib\<close>, \<open>ram_os\<close>).

  \<^bold>\<open>Theories.\<close>
  \<^item> \<open>Prelude\<close>, \<open>Byte_Codec\<close>: buffers, byte order, the interface of a fixed-width codec.
  \<^item> \<open>Checksum\<close> (\<open>src/checksum.c\<close>): CRC-64/ECMA and SHA-256. The table-driven CRC is polynomial
    division, and detects every burst of up to eight bytes; the streaming SHA-256 is the fold of the
    compression function over the padded message. The build variants of the accelerated path are
    modelled over the results of the library calls they make.
  \<^item> \<open>Format\<close> (\<open>include/infilfs/format.h\<close>, \<open>status.h\<close>): the packed structures, each interpreted as a
    codec whose decoder inverts its encoder, and the constants.
  \<^item> \<open>Security\<close> (\<open>src/security.c\<close> and the projection headers): descriptors, access decisions,
    inheritance, POSIX and Windows projections. An access decision is that of the first deciding
    entry of each right; inheritance is given entry by entry and flag by flag.
  \<^item> \<open>Fs\<close> (\<open>src/fs.c\<close>): encoding, finalization and validation of superblocks, objects, metadata and
    allocation pages. Validation is characterised as being a fixed point of finalization, and
    damage confined to eight bytes outside the checksum field, or to the field, is always detected.
  \<^item> \<open>Storage\<close>, \<open>Posix_Io\<close>, \<open>Mirror\<close> (\<open>src/storage.c\<close>, \<open>src/platform/posix_io.c\<close>,
    \<open>src/storage_mirror.c\<close>): the dispatch layer, the host backend and the replicated backend. The
    locales \<open>byte_store\<close> and \<open>backend\<close> state the contract of a device; POSIX files provide it, and a
    mirror of devices that provide it provides it again, also after writes that fail on some
    replicas with device I/O errors. Other failures of a replica are returned to the caller.
  \<^item> \<open>Kernel_Base\<close>, \<open>Locator\<close> (\<open>src/locator.c\<close>, \<open>kernel/infiltratorfs_locator_format.c\<close>, the readers of
    \<open>src/fs.c\<close>): the locator codecs of the library and of the kernel, the bootstrap planner, header
    discovery and the choice of the newest superblock, over any device of the locales
    \<open>block_reader\<close> and \<open>block_device\<close>.
  \<^item> \<open>Checkpoint\<close> (\<open>include/infilfs/checkpoint_protocol.h\<close>, \<open>kernel/infiltratorfs_checkpoint_publish.c\<close>): the
    ordering protocol, the kernel's callbacks and repair pass over a block device that logs its
    requests, and what a power failure may leave of a log. Commits and relocations are atomic at every
    instant and under every request failure, they complete when nothing fails, and repair either
    restores all copies or poisons the mount (an allocation that fails before the first request
    leaves everything as it was), without ever losing the current copy.
  \<^item> \<open>Iac1\<close> (\<open>include/infilfs/iac1.h\<close>): the compression codec. Compression and decompression are
    related through token lists; the loops are total functions with a decreasing remaining length.
    The unchecked copy of the alternate encoding is an outcome of its own (\<open>Iac1_Overrun\<close>).
  \<^item> \<open>Namespace\<close> (\<open>include/infilfs/namespace_policy.h\<close>, \<open>kernel/infiltratorfs_name_policy.c\<close>): name
    comparison, hashing, validation and the kernel's UTF-8 validator. Validation agrees with the
    documented rules on every name without forbidden bytes after its first dot.
  \<^item> \<open>Linux_Meta\<close> (\<open>kernel/infiltratorfs_linux_meta_codec.c\<close>, \<open>kernel/infiltratorfs_linux_meta.inc\<close>): the
    extended-attribute blob. Validation accepts exactly the encodings of attribute lists; get, set,
    remove and list refine the operations on such lists.

  \<^bold>\<open>Bounds.\<close> No fuel is used: every loop is a structural recursion or a function with a termination
  proof. Block addresses stay below \<open>2 ^ 52\<close> where a byte offset is formed, which is where the
  product with the block size fits a 64-bit offset.

  \<^bold>\<open>Not modelled.\<close> Kernel VFS glue, page cache, locking and workqueues; the Windows and UEFI drivers and
  the bundled LZ4 code; command-line tools; the volume state machine of \<open>src/volume.c\<close> and the tree
  formats above single pages; encrypted storage, whose cipher is an external provider; null-pointer
  argument checks; printing.
\<close>

end
